(* ===== verification/Prelude.thy ===== *)
theory Prelude
  imports Main "HOL-Library.Word" "HOL-Library.Multiset"
begin

text \<open>
  Vocabulary shared by every theory of the development: the result type of fallible and
  panicking Rust code, the machine integers of the release build, decimal rendering,
  little-endian encodings, and lemmas on keyed tables and prefixes of lists.
\<close>

named_theorems keyed_table \<open>lookups in a list of rows under a key\<close>
named_theorems machine_ints \<open>range facts of the machine integers\<close>

section \<open>Results of Rust code\<close>

text \<open>
  \<open>Ok\<close> and \<open>Err\<close> are the constructors of \<^verbatim>\<open>Result\<close>; \<open>Panic\<close> is a thread that
  unwinds (\<^verbatim>\<open>unwrap\<close> on an error, \<^verbatim>\<open>panic!\<close>, \<^verbatim>\<open>expect\<close>).
\<close>

datatype ('a, 'e) outcome = Ok 'a | Err 'e | Panic

fun and_then :: "('a, 'e) outcome \<Rightarrow> ('a \<Rightarrow> ('b, 'e) outcome) \<Rightarrow> ('b, 'e) outcome" where
  "and_then (Ok x) k = k x"
| "and_then (Err e) k = Err e"
| "and_then Panic k = Panic"

fun map_err :: "('e \<Rightarrow> 'f) \<Rightarrow> ('a, 'e) outcome \<Rightarrow> ('a, 'f) outcome" where
  "map_err f (Ok x) = Ok x"
| "map_err f (Err e) = Err (f e)"
| "map_err f Panic = Panic"

text \<open>\<open>map_err\<close> over an optional fault: the shape of every call into a library.\<close>

fun raise_if :: "'e option \<Rightarrow> (unit, 'e) outcome" where
  "raise_if None = Ok ()"
| "raise_if (Some e) = Err e"

lemma and_then_eq_Ok: "and_then m k = Ok y \<longleftrightarrow> (\<exists>x. m = Ok x \<and> k x = Ok y)"
  by (cases m) auto

lemma map_err_eq_Ok [simp]: "map_err f m = Ok x \<longleftrightarrow> m = Ok x"
  by (cases m) auto

lemma map_err_eq_Panic [simp]: "map_err f m = Panic \<longleftrightarrow> m = Panic"
  by (cases m) auto

lemma raise_if_eq_Ok [simp]: "raise_if x = Ok u \<longleftrightarrow> x = None"
  by (cases x) auto

lemma raise_if_not_Panic [simp]: "raise_if x \<noteq> Panic"
  by (cases x) auto

text \<open>Calls that also change a state: a failure stops the sequence and keeps the state it left.\<close>

definition then_do :: "('s \<Rightarrow> ('a, 'e) outcome \<times> 's) \<Rightarrow> ('a \<Rightarrow> 's \<Rightarrow> ('b, 'e) outcome \<times> 's)
    \<Rightarrow> 's \<Rightarrow> ('b, 'e) outcome \<times> 's" where
  "then_do m k s =
     (case m s of (Ok x, s') \<Rightarrow> k x s' | (Err e, s') \<Rightarrow> (Err e, s') | (Panic, s') \<Rightarrow> (Panic, s'))"

definition lift_result :: "('a, 'e) outcome \<Rightarrow> 's \<Rightarrow> ('a, 'e) outcome \<times> 's" where
  "lift_result r s = (r, s)"

lemma then_do_eq_Ok:
  "then_do m k s = (Ok y, s'') \<longleftrightarrow> (\<exists>x s'. m s = (Ok x, s') \<and> k x s' = (Ok y, s''))"
  by (auto simp: then_do_def split: prod.splits outcome.splits)

lemma then_do_Ok [simp]: "m s = (Ok x, s') \<Longrightarrow> then_do m k s = k x s'"
  by (simp add: then_do_def)

lemma then_do_Err [simp]: "m s = (Err e, s') \<Longrightarrow> then_do m k s = (Err e, s')"
  by (simp add: then_do_def)

lemma lift_result_eq [simp]: "lift_result r s = (r', s') \<longleftrightarrow> r = r' \<and> s = s'"
  by (simp add: lift_result_def)

section \<open>Machine integers\<close>

text \<open>
  The services are built with \<^verbatim>\<open>cargo build --release\<close>, where integer overflow wraps.
  A value of type \<^verbatim>\<open>i32\<close> or \<^verbatim>\<open>i64\<close> is an \<^typ>\<open>int\<close> of its range; arithmetic whose result
  may leave the range goes through \<open>wrap_i32\<close> or \<open>wrap_i64\<close>, and \<open>as_u32\<close>, \<open>as_u64\<close> and
  \<open>as_i32\<close> are the \<^verbatim>\<open>as\<close> casts.
\<close>

type_synonym i32 = int
type_synonym i64 = int
type_synonym u32 = int
type_synonym u64 = int

definition wrap_i32 :: "int \<Rightarrow> i32" where
  "wrap_i32 x = (x + 2147483648) mod 4294967296 - 2147483648"

definition wrap_i64 :: "int \<Rightarrow> i64" where
  "wrap_i64 x = (x + 9223372036854775808) mod 18446744073709551616 - 9223372036854775808"

definition as_u32 :: "int \<Rightarrow> u32" where
  "as_u32 x = x mod 4294967296"

definition as_u64 :: "int \<Rightarrow> u64" where
  "as_u64 x = x mod 18446744073709551616"

abbreviation as_i32 :: "int \<Rightarrow> i32" where
  "as_i32 \<equiv> wrap_i32"

definition in_i32 :: "int \<Rightarrow> bool" where
  "in_i32 x \<longleftrightarrow> - 2147483648 \<le> x \<and> x < 2147483648"

definition in_i64 :: "int \<Rightarrow> bool" where
  "in_i64 x \<longleftrightarrow> - 9223372036854775808 \<le> x \<and> x < 9223372036854775808"

lemma wrap_i32_id [machine_ints]: "in_i32 x \<Longrightarrow> wrap_i32 x = x"
  by (simp add: wrap_i32_def in_i32_def)

lemma wrap_i64_id [machine_ints]: "in_i64 x \<Longrightarrow> wrap_i64 x = x"
  by (simp add: wrap_i64_def in_i64_def)

lemma in_i32_wrap [machine_ints]: "in_i32 (wrap_i32 x)"
  by (simp add: wrap_i32_def in_i32_def)

lemma in_i64_wrap [machine_ints]: "in_i64 (wrap_i64 x)"
  by (simp add: wrap_i64_def in_i64_def)

text \<open>The two's complement reading of the library's words.\<close>

lemma wrap_i32_word: "wrap_i32 x = sint (word_of_int x :: 32 word)"
  by (simp add: wrap_i32_def sint_sbintrunc' signed_take_bit_eq_take_bit_shift take_bit_eq_mod)

lemma wrap_i64_word: "wrap_i64 x = sint (word_of_int x :: 64 word)"
  by (simp add: wrap_i64_def sint_sbintrunc' signed_take_bit_eq_take_bit_shift take_bit_eq_mod)

section \<open>Decimal rendering\<close>

text \<open>\<^verbatim>\<open>Display\<close> of integers, as \<^verbatim>\<open>format!\<close> uses it.\<close>

fun show_nat :: "nat \<Rightarrow> string" where
  "show_nat n = (if n < 10 then [char_of (48 + n)] else show_nat (n div 10) @ [char_of (48 + n mod 10)])"

declare show_nat.simps [simp del]

definition show_int :: "int \<Rightarrow> string" where
  "show_int i = (if i < 0 then ''-'' @ show_nat (nat (- i)) else show_nat (nat i))"

definition read_digits :: "string \<Rightarrow> nat" where
  "read_digits s = foldl (\<lambda>a c. 10 * a + (of_char c - 48)) 0 s"

lemma read_digits_snoc: "read_digits (s @ [c]) = 10 * read_digits s + (of_char c - 48)"
  by (simp add: read_digits_def)

lemma read_show_nat: "read_digits (show_nat n) = n"
proof (induction n rule: show_nat.induct)
  case (1 n)
  show ?case
  proof (cases "n < 10")
    case True
    then show ?thesis
      by (simp add: show_nat.simps [of n] read_digits_def)
  next
    case False
    then have "read_digits (show_nat n) = 10 * (n div 10) + n mod 10"
      using "1.IH" by (simp add: show_nat.simps [of n] read_digits_snoc)
    then show ?thesis by simp
  qed
qed

lemma show_nat_chars: "c \<in> set (show_nat n) \<Longrightarrow> 48 \<le> (of_char c :: nat) \<and> (of_char c :: nat) < 58"
proof (induction n rule: show_nat.induct)
  case (1 n)
  show ?case
  proof (cases "n < 10")
    case True
    with 1 show ?thesis by (simp add: show_nat.simps [of n])
  next
    case False
    with 1 show ?thesis by (auto simp: show_nat.simps [of n])
  qed
qed

lemma show_nat_inj: "show_nat m = show_nat n \<Longrightarrow> m = n"
  by (metis read_show_nat)

lemma show_nat_not_minus: "CHR ''-'' \<notin> set (show_nat n)"
  using show_nat_chars [of "CHR ''-''" n] by auto

lemma show_nat_nonempty: "show_nat n \<noteq> []"
  by (subst show_nat.simps) simp

lemma show_int_inj: "show_int i = show_int j \<Longrightarrow> i = j"
  using show_nat_not_minus [of "nat i"] show_nat_not_minus [of "nat j"]
  by (auto simp: show_int_def split: if_splits dest!: show_nat_inj)
    (metis list.set_intros(1))+

lemma show_int_no_colon: "CHR '':'' \<notin> set (show_int i)"
  using show_nat_chars [of "CHR '':''"] by (auto simp: show_int_def)

text \<open>The inverse, for instances of the parameters that render numbers.\<close>

fun read_int :: "string \<Rightarrow> int" where
  "read_int [] = 0"
| "read_int (c # s) = (if c = CHR ''-'' then - int (read_digits s) else int (read_digits (c # s)))"

lemma read_show_int [simp]: "read_int (show_int i) = i"
proof (cases "i < 0")
  case True
  then show ?thesis by (simp add: show_int_def read_show_nat)
next
  case False
  moreover have "read_int (show_nat n) = int n" for n
    using show_nat_nonempty [of n] show_nat_not_minus [of n] read_show_nat [of n]
    by (cases "show_nat n") auto
  ultimately show ?thesis by (simp add: show_int_def)
qed

section \<open>Joining with a separator\<close>

lemma join_last_inj:
  assumes "a @ s # b = c @ s # d" and "s \<notin> set b" and "s \<notin> set d"
  shows "a = c \<and> b = d"
proof -
  have drop: "takeWhile (\<lambda>x. x \<noteq> s) (rev ys @ s # rev xs) = rev ys" if "s \<notin> set ys" for xs ys
    using that by (subst takeWhile_append2) auto
  have "takeWhile (\<lambda>x. x \<noteq> s) (rev (a @ s # b)) = takeWhile (\<lambda>x. x \<noteq> s) (rev (c @ s # d))"
    using assms(1) by simp
  with assms(2,3) have "b = d" by (simp add: drop)
  then show ?thesis using assms(1) by simp
qed

section \<open>Little-endian encodings\<close>

text \<open>Bytes are characters, so that a string is its own byte sequence.\<close>

primrec le_bytes :: "nat \<Rightarrow> int \<Rightarrow> string" where
  "le_bytes 0 x = []"
| "le_bytes (Suc n) x = char_of (x mod 256) # le_bytes n (x div 256)"

primrec from_le_bytes :: "string \<Rightarrow> int" where
  "from_le_bytes [] = 0"
| "from_le_bytes (c # cs) = of_char c + 256 * from_le_bytes cs"

lemma length_le_bytes [simp]: "length (le_bytes n x) = n"
  by (induction n arbitrary: x) auto

lemma from_le_le_bytes: "from_le_bytes (le_bytes n x) = x mod 256 ^ n"
proof (induction n arbitrary: x)
  case 0
  then show ?case by simp
next
  case (Suc n)
  then show ?case
    by (simp add: zmod_zmult2_eq)
qed

lemma mod_inj_on_range:
  fixes x y m :: int
  assumes "x mod m = y mod m" and "\<bar>x - y\<bar> < m"
  shows "x = y"
proof -
  from assms(1) have "m dvd x - y" by (simp add: mod_eq_dvd_iff)
  with assms(2) have "x - y = 0"
    using dvd_imp_le_int [of "x - y" m] by fastforce
  then show ?thesis by simp
qed

lemma le_bytes_inj_i32:
  assumes "le_bytes 4 x = le_bytes 4 y" and "in_i32 x" and "in_i32 y"
  shows "x = y"
proof (rule mod_inj_on_range)
  show "x mod 4294967296 = y mod 4294967296"
    using from_le_le_bytes [of 4 x] from_le_le_bytes [of 4 y] assms(1) by simp
  show "\<bar>x - y\<bar> < 4294967296" using assms(2,3) unfolding in_i32_def by arith
qed

lemma le_bytes_inj_i64:
  assumes "le_bytes 8 x = le_bytes 8 y" and "in_i64 x" and "in_i64 y"
  shows "x = y"
proof (rule mod_inj_on_range)
  show "x mod 18446744073709551616 = y mod 18446744073709551616"
    using from_le_le_bytes [of 8 x] from_le_le_bytes [of 8 y] assms(1) by simp
  show "\<bar>x - y\<bar> < 18446744073709551616" using assms(2,3) unfolding in_i64_def by arith
qed

section \<open>Tables of rows under a key\<close>

definition table_of :: "('r \<Rightarrow> 'k) \<Rightarrow> 'r list \<Rightarrow> 'k \<Rightarrow> 'r option" where
  "table_of k rows = map_of (map (\<lambda>r. (k r, r)) rows)"

lemma table_of_Nil [simp]: "table_of k [] = Map.empty"
  by (simp add: table_of_def)

lemma table_of_Cons [simp]: "table_of k (r # rs) = (table_of k rs)(k r \<mapsto> r)"
  by (simp add: table_of_def)

lemma table_of_None [keyed_table]: "table_of k rows x = None \<longleftrightarrow> x \<notin> k ` set rows"
  by (induction rows) auto

lemma table_of_SomeD: "table_of k rows x = Some r \<Longrightarrow> r \<in> set rows \<and> k r = x"
  by (induction rows) (auto split: if_splits)

lemma table_of_key_in: "table_of k rows x = Some r \<Longrightarrow> x \<in> k ` set rows"
  by (auto dest: table_of_SomeD)

lemma table_of_Some [keyed_table]:
  "distinct (map k rows) \<Longrightarrow> table_of k rows x = Some r \<longleftrightarrow> r \<in> set rows \<and> k r = x"
  by (induction rows) (auto dest: table_of_SomeD simp: rev_image_eqI)

lemma table_of_map [keyed_table]:
  "(\<And>r. r \<in> set rows \<Longrightarrow> k' (f r) = k r) \<Longrightarrow> table_of k' (map f rows) x = map_option f (table_of k rows x)"
  by (induction rows) auto

lemma table_of_filter [keyed_table]:
  "distinct (map k rows) \<Longrightarrow> table_of k (filter P rows) x
     = (case table_of k rows x of None \<Rightarrow> None | Some r \<Rightarrow> if P r then Some r else None)"
proof (induction rows)
  case Nil
  then show ?case by simp
next
  case (Cons r rows)
  then have "table_of k rows (k r) = None"
    by (simp add: table_of_None)
  with Cons show ?case by (auto split: option.splits)
qed

lemma table_of_snoc [keyed_table]:
  "k r \<notin> k ` set rows \<Longrightarrow> table_of k (rows @ [r]) = (table_of k rows)(k r \<mapsto> r)"
  by (induction rows) auto

lemma table_of_first:
  "table_of k (filter P rows) x = (case filter (\<lambda>r. k r = x \<and> P r) rows of [] \<Rightarrow> None | r # _ \<Rightarrow> Some r)"
  by (induction rows) auto

lemma filter_key:
  "distinct (map k rows) \<Longrightarrow>
   filter (\<lambda>r. k r = x) rows = (case table_of k rows x of None \<Rightarrow> [] | Some r \<Rightarrow> [r])"
proof (induction rows)
  case Nil
  then show ?case by simp
next
  case (Cons r rows)
  then have "table_of k rows (k r) = None" by (simp add: table_of_None)
  with Cons show ?case by (auto split: option.splits)
qed

lemma find_filter: "find P xs = (case filter P xs of [] \<Rightarrow> None | y # _ \<Rightarrow> Some y)"
  by (induction xs) auto

lemma insort_key_map: "insort_key k (f x) (map f xs) = map f (insort_key (\<lambda>x. k (f x)) x xs)"
  by (induction xs) auto

lemma sort_key_map: "sort_key k (map f xs) = map f (sort_key (\<lambda>x. k (f x)) xs)"
  by (induction xs) (auto simp: insort_key_map)

lemma distinct_map_keep:
  assumes "\<And>r. k (f r) = k r"
  shows "distinct (map k (map f rows)) = distinct (map k rows)"
proof -
  have "map k (map f rows) = map k rows" using assms by simp
  then show ?thesis by (simp only:)
qed

lemma distinct_map_filter_keep:
  "distinct (map k rows) \<Longrightarrow> distinct (map k (filter P rows))"
  by (induction rows) auto

section \<open>Chunks\<close>

text \<open>\<^verbatim>\<open>slice::chunks\<close> for a positive size.\<close>

function chunks :: "nat \<Rightarrow> 'a list \<Rightarrow> 'a list list" where
  "chunks n xs = (if n = 0 \<or> xs = [] then [] else take n xs # chunks n (drop n xs))"
  by auto
termination by (relation "measure (\<lambda>(n, xs). length xs)") auto

declare chunks.simps [simp del]

lemma chunks_Nil [simp]: "chunks n [] = []"
  by (simp add: chunks.simps)

lemma chunks_step: "0 < n \<Longrightarrow> xs \<noteq> [] \<Longrightarrow> chunks n xs = take n xs # chunks n (drop n xs)"
  by (subst chunks.simps) simp

lemma concat_chunks: "0 < n \<Longrightarrow> concat (chunks n xs) = xs"
proof (induction n xs rule: chunks.induct)
  case (1 n xs)
  then show ?case by (cases "xs = []") (simp_all add: chunks_step)
qed

lemma length_in_chunks: "0 < n \<Longrightarrow> c \<in> set (chunks n xs) \<Longrightarrow> c \<noteq> [] \<and> length c \<le> n"
proof (induction n xs rule: chunks.induct)
  case (1 n xs)
  then show ?case by (cases "xs = []") (auto simp: chunks_step)
qed

section \<open>Prefixes and sums\<close>

definition sum_by :: "('a \<Rightarrow> int) \<Rightarrow> 'a list \<Rightarrow> int" where
  "sum_by f xs = sum_list (map f xs)"

lemma sum_by_simps [simp]:
  "sum_by f [] = 0" "sum_by f (x # xs) = f x + sum_by f xs"
  "sum_by f (xs @ ys) = sum_by f xs + sum_by f ys"
  by (simp_all add: sum_by_def)

lemma sum_by_nonneg: "(\<And>x. x \<in> set xs \<Longrightarrow> 0 \<le> f x) \<Longrightarrow> 0 \<le> sum_by f xs"
  by (induction xs) auto

lemma sum_by_take_le:
  "(\<And>x. x \<in> set xs \<Longrightarrow> 0 \<le> f x) \<Longrightarrow> sum_by f (take n xs) \<le> sum_by f xs"
proof (induction xs arbitrary: n)
  case (Cons x xs)
  then show ?case by (cases n) (auto intro!: add_nonneg_nonneg sum_by_nonneg)
qed simp

lemma sum_by_mset: "mset xs = mset ys \<Longrightarrow> sum_by f xs = sum_by f ys"
  by (metis mset_map sum_by_def sum_mset_sum_list)

end
