(* ===== verification/Messages.thy ===== *)
theory Messages
  imports Prelude
begin

text \<open>
  The crate \<^verbatim>\<open>network-shared\<close>: the data the indexer and the storage service exchange, the
  length-prefixed frames of the Unix socket, and the sender's side of the protocol
  (\<^verbatim>\<open>SocketTransport\<close>).  The bincode codec and the operating system's sockets are parameters.
\<close>

section \<open>Data\<close>

definition FINALITY_CONFIRMATIONS :: i32 where
  "FINALITY_CONFIRMATIONS = 6"

text \<open>\<^verbatim>\<open>DateTime<Utc>\<close>: an instant, as a number of time units since the epoch.\<close>

type_synonym datetime = int

text \<open>
  \<^verbatim>\<open>UtxoUpdate\<close>.  The type of the two time stamps is a parameter: the services use
  \<^typ>\<open>datetime\<close>, the rows of the SQL table hold text.
\<close>

record 't utxo_rec =
  utxo_id :: string
  address :: string
  public_key :: "string option"
  txid :: string
  vout :: i32
  amount :: i64
  script_pub_key :: string
  script_type :: string
  created_at :: 't
  block_height :: i32
  spent_txid :: "string option"
  spent_at :: "'t option"
  spent_block :: "i32 option"

type_synonym utxo = "datetime utxo_rec"

record block_update =
  bu_height :: i32
  bu_hash :: string
  bu_timestamp :: datetime
  utxo_updates :: "utxo list"

datatype network_message =
    BlockUpdate block_update
  | ReorgEvent i32
  | GetBlockHash i32
  | BlockHashResponse string
  | UpdateFinalityStatus i32
  | BlockProcessedAck i32

record store_signed_tx_request =
  rq_txid :: string
  rq_signed_tx :: string
  rq_caller :: string
  rq_block_height :: i32
  rq_amount :: i64
  rq_destination :: string
  rq_fee :: i64

datatype transport_error = TransportIoError string | SerializationError string

fun show_transport_error :: "transport_error \<Rightarrow> string" where
  "show_transport_error (TransportIoError e) = ''IO error: '' @ e"
| "show_transport_error (SerializationError e) = ''Serialization error: '' @ e"

text \<open>The key under which both data sources address an output: \<^verbatim>\<open>{txid}:{vout}\<close>.\<close>

definition outpoint_key :: "string \<Rightarrow> i32 \<Rightarrow> string" where
  "outpoint_key t v = t @ '':'' @ show_int v"

lemma outpoint_key_inj: "outpoint_key t v = outpoint_key t' v' \<longleftrightarrow> t = t' \<and> v = v'"
proof
  assume "outpoint_key t v = outpoint_key t' v'"
  then have "t @ CHR '':'' # show_int v = t' @ CHR '':'' # show_int v'"
    by (simp add: outpoint_key_def)
  from join_last_inj [OF this show_int_no_colon show_int_no_colon]
  show "t = t' \<and> v = v'" by (auto dest: show_int_inj)
qed simp

section \<open>Frames\<close>

text \<open>The size header is \<^verbatim>\<open>data.len() as u32\<close>, four little-endian bytes.\<close>

definition frame :: "string \<Rightarrow> string" where
  "frame data = le_bytes 4 (as_u32 (int (length data))) @ data"

definition read_exact :: "nat \<Rightarrow> string \<Rightarrow> (string \<times> string) option" where
  "read_exact n s = (if n \<le> length s then Some (take n s, drop n s) else None)"

definition read_frame :: "string \<Rightarrow> (string \<times> string) option" where
  "read_frame s =
     (case read_exact 4 s of None \<Rightarrow> None
      | Some (size_buf, s') \<Rightarrow> read_exact (nat (from_le_bytes size_buf)) s')"

lemma read_frame_frame:
  assumes "length data < 4294967296"
  shows "read_frame (frame data @ rest) = Some (data, rest)"
proof -
  have "from_le_bytes (le_bytes 4 (as_u32 (int (length data)))) = int (length data)"
    using assms by (simp add: from_le_le_bytes as_u32_def)
  moreover have "read_exact 4 (frame data @ rest)
      = Some (le_bytes 4 (as_u32 (int (length data))), data @ rest)"
    by (simp add: read_exact_def frame_def)
  ultimately show ?thesis
    by (simp add: read_frame_def read_exact_def)
qed

lemma read_frame_short:
  assumes "length data < 4294967296" and "n < length (frame data)"
  shows "read_frame (take n (frame data)) = None"
proof (cases "n < 4")
  case True
  then show ?thesis by (simp add: read_frame_def read_exact_def)
next
  case False
  have size: "from_le_bytes (le_bytes 4 (as_u32 (int (length data)))) = int (length data)"
    using assms by (simp add: from_le_le_bytes as_u32_def)
  from False assms(2) have "read_exact 4 (take n (frame data))
      = Some (le_bytes 4 (as_u32 (int (length data))), take (n - 4) data)"
    by (auto simp: read_exact_def frame_def min_def)
  with size False assms(2) show ?thesis
    by (simp add: read_frame_def read_exact_def frame_def)
qed

section \<open>SocketTransport\<close>

text \<open>
  \<open>serialize\<close> and \<open>deserialize\<close> are bincode's.  A \<open>wire\<close> is one connection to the storage
  service, whose state is \<open>'s\<close>: \<open>ask\<close> delivers the bytes and returns what the service
  wrote back (possibly cut short), \<open>post\<close> delivers bytes that nobody answers.
\<close>

record codec =
  serialize :: "network_message \<Rightarrow> (string, string) outcome"
  deserialize :: "string \<Rightarrow> (network_message, string) outcome"

record 's wire =
  connect_fault :: "string option"
  write_fault :: "string option"
  ask :: "string \<Rightarrow> 's \<Rightarrow> string \<times> 's"
  post :: "string \<Rightarrow> 's \<Rightarrow> 's"
  eof_text :: string

text \<open>What decodes is what was encoded; and a message whose encoding fits the size header.\<close>

definition codec_ok :: "codec \<Rightarrow> bool" where
  "codec_ok C \<longleftrightarrow> (\<forall>m d. serialize C m = Ok d \<longrightarrow> deserialize C d = Ok m)"

definition fits :: "codec \<Rightarrow> network_message \<Rightarrow> bool" where
  "fits C m \<longleftrightarrow> (case serialize C m of Ok d \<Rightarrow> length d < 4294967296 | _ \<Rightarrow> False)"

lemma fitsE:
  assumes "fits C m" and "codec_ok C"
  obtains d where "serialize C m = Ok d" "deserialize C d = Ok m" "length d < 4294967296"
  using assms unfolding fits_def codec_ok_def by (auto split: outcome.splits)

definition unexpected_response :: transport_error where
  "unexpected_response = TransportIoError ''Unexpected response type''"

definition request :: "codec \<Rightarrow> 's wire \<Rightarrow> network_message \<Rightarrow> 's
    \<Rightarrow> (network_message, transport_error) outcome \<times> 's" where
  "request C W m s =
     (case connect_fault W of
        Some e \<Rightarrow> (Err (TransportIoError e), s)
      | None \<Rightarrow>
       (case serialize C m of
          Err e \<Rightarrow> (Err (SerializationError e), s)
        | Panic \<Rightarrow> (Panic, s)
        | Ok data \<Rightarrow>
         (case write_fault W of
            Some e \<Rightarrow> (Err (TransportIoError e), s)
          | None \<Rightarrow>
             let (reply, s') = ask W (frame data) s
             in (case read_frame reply of
                   None \<Rightarrow> Err (TransportIoError (eof_text W))
                 | Some (d, _) \<Rightarrow> map_err SerializationError (deserialize C d), s'))))"

definition notify :: "codec \<Rightarrow> 's wire \<Rightarrow> network_message \<Rightarrow> 's
    \<Rightarrow> (unit, transport_error) outcome \<times> 's" where
  "notify C W m s =
     (case connect_fault W of
        Some e \<Rightarrow> (Err (TransportIoError e), s)
      | None \<Rightarrow>
       (case serialize C m of
          Err e \<Rightarrow> (Err (SerializationError e), s)
        | Panic \<Rightarrow> (Panic, s)
        | Ok data \<Rightarrow>
         (case write_fault W of
            Some e \<Rightarrow> (Err (TransportIoError e), s)
          | None \<Rightarrow> (Ok (), post W (frame data) s))))"

fun expect_ack :: "i32 \<Rightarrow> network_message \<Rightarrow> (unit, transport_error) outcome" where
  "expect_ack h (BlockProcessedAck h') = (if h' = h then Ok () else Err unexpected_response)"
| "expect_ack h _ = Err unexpected_response"

fun expect_hash :: "network_message \<Rightarrow> (string, transport_error) outcome" where
  "expect_hash (BlockHashResponse x) = Ok x"
| "expect_hash _ = Err unexpected_response"

definition send_update :: "codec \<Rightarrow> 's wire \<Rightarrow> block_update \<Rightarrow> 's
    \<Rightarrow> (unit, transport_error) outcome \<times> 's" where
  "send_update C W u s =
     (let (r, s') = request C W (BlockUpdate u) s
      in (and_then r (expect_ack (bu_height u)), s'))"

definition send_reorg_event :: "codec \<Rightarrow> 's wire \<Rightarrow> i32 \<Rightarrow> 's
    \<Rightarrow> (unit, transport_error) outcome \<times> 's" where
  "send_reorg_event C W fork_height s = notify C W (ReorgEvent fork_height) s"

definition transport_get_block_hash :: "codec \<Rightarrow> 's wire \<Rightarrow> i32 \<Rightarrow> 's
    \<Rightarrow> (string, transport_error) outcome \<times> 's" where
  "transport_get_block_hash C W h s =
     (let (r, s') = request C W (GetBlockHash h) s
      in (and_then r expect_hash, s'))"

text \<open>
  \<^verbatim>\<open>send_update_finality_status\<close> builds its message before it connects, which is not
  observable: building a message has no effect and cannot fail.
\<close>

definition send_update_finality_status :: "codec \<Rightarrow> 's wire \<Rightarrow> i32 \<Rightarrow> 's
    \<Rightarrow> (unit, transport_error) outcome \<times> 's" where
  "send_update_finality_status C W h s = notify C W (UpdateFinalityStatus h) s"

lemma expect_ack_Ok: "expect_ack h m = Ok u \<longleftrightarrow> m = BlockProcessedAck h"
  by (cases m) auto

lemma expect_hash_Ok: "expect_hash m = Ok x \<longleftrightarrow> m = BlockHashResponse x"
  by (cases m) auto

lemma notify_Ok:
  "notify C W m s = (Ok u, s') \<longleftrightarrow>
     connect_fault W = None \<and> write_fault W = None
     \<and> (\<exists>d. serialize C m = Ok d \<and> s' = post W (frame d) s)"
  by (auto simp: notify_def split: option.splits outcome.splits)

lemma notify_Err: "notify C W m s = (Err e, s') \<Longrightarrow> s' = s"
  by (auto simp: notify_def split: option.splits outcome.splits)

text \<open>A request that succeeds was delivered whole, and the service's answer decodes.\<close>

lemma request_Ok:
  assumes "request C W m s = (Ok r, s')"
  obtains d reply d' rest where "connect_fault W = None" "write_fault W = None"
    "serialize C m = Ok d" "ask W (frame d) s = (reply, s')"
    "read_frame reply = Some (d', rest)" "deserialize C d' = Ok r"
  using assms
  by (auto simp: request_def split: option.splits outcome.splits prod.splits)

lemma send_update_Ok:
  "send_update C W u s = (Ok x, s') \<longleftrightarrow> request C W (BlockUpdate u) s = (Ok (BlockProcessedAck (bu_height u)), s')"
  by (auto simp: send_update_def and_then_eq_Ok expect_ack_Ok split: prod.splits)

lemma transport_get_block_hash_Ok:
  "transport_get_block_hash C W h s = (Ok x, s') \<longleftrightarrow> request C W (GetBlockHash h) s = (Ok (BlockHashResponse x), s')"
  by (auto simp: transport_get_block_hash_def and_then_eq_Ok expect_hash_Ok split: prod.splits)

end
