(* ===== verification/Storage_Types.thy ===== *)
theory Storage_Types
  imports Messages
begin

text \<open>
  Data of the storage service: its errors (\<^verbatim>\<open>storage/src/error.rs\<close>), its models
  (\<^verbatim>\<open>storage/src/models\<close>) and the trait every data source implements
  (\<^verbatim>\<open>storage/src/datasources/mod.rs\<close>), as a record of operations on a state.
\<close>

section \<open>Errors\<close>

datatype storage_error =
    IoError string
  | DatabaseConnectionFailed string
  | DatabaseQueryFailed string
  | MigrationFailed string
  | BlockNotFound i32
  | InsufficientFunds i64 i64 \<comment> \<open>available, required\<close>
  | InvalidAddress string
  | InvalidBlockHeight i32
  | InvalidAmount i64
  | SerializationFailed string
  | DeserializationFailed string
  | UnexpectedError string

type_synonym 'a sres = "('a, storage_error) outcome"

fun show_storage_error :: "storage_error \<Rightarrow> string" where
  "show_storage_error (IoError s) = ''I/O error: '' @ s"
| "show_storage_error (DatabaseConnectionFailed s) = ''Database connection failed: '' @ s"
| "show_storage_error (DatabaseQueryFailed s) = ''Database query failed: '' @ s"
| "show_storage_error (MigrationFailed s) = ''Migration failed: '' @ s"
| "show_storage_error (BlockNotFound h) = ''Block not found: height='' @ show_int h"
| "show_storage_error (InsufficientFunds a r) =
     ''Insufficient funds: available='' @ show_int a @ '', required='' @ show_int r"
| "show_storage_error (InvalidAddress s) = ''Invalid address: '' @ s"
| "show_storage_error (InvalidBlockHeight h) = ''Invalid block height: '' @ show_int h"
| "show_storage_error (InvalidAmount a) = ''Invalid amount: '' @ show_int a"
| "show_storage_error (SerializationFailed s) = ''Serialization failed: '' @ s"
| "show_storage_error (DeserializationFailed s) = ''Deserialization failed: '' @ s"
| "show_storage_error (UnexpectedError s) = ''Unexpected error: '' @ s"

section \<open>Models\<close>

record pending_changes =
  pc_height :: i32
  utxos_update :: "utxo list"
  utxos_insert :: "utxo list"

text \<open>
  The rows of the two CSV files: the storage key, then the fields of \<^verbatim>\<open>UtxoUpdate\<close> (its
  \<^verbatim>\<open>address\<close> is the column \<^verbatim>\<open>utxo_address\<close>).
\<close>

record utxo_row =
  ur_address :: string
  ur_utxo_id :: string
  ur_id :: string
  ur_utxo_address :: string
  ur_public_key :: "string option"
  ur_txid :: string
  ur_vout :: i32
  ur_amount :: i64
  ur_script_pub_key :: string
  ur_script_type :: string
  ur_created_at :: datetime
  ur_block_height :: i32
  ur_spent_txid :: "string option"
  ur_spent_at :: "datetime option"
  ur_spent_block :: "i32 option"

definition into_storage_entry :: "utxo_row \<Rightarrow> string \<times> string \<times> utxo" where
  "into_storage_entry r =
     (ur_address r, ur_utxo_id r,
      \<lparr>utxo_id = ur_id r, address = ur_utxo_address r, public_key = ur_public_key r,
       txid = ur_txid r, vout = ur_vout r, amount = ur_amount r,
       script_pub_key = ur_script_pub_key r, script_type = ur_script_type r,
       created_at = ur_created_at r, block_height = ur_block_height r,
       spent_txid = ur_spent_txid r, spent_at = ur_spent_at r, spent_block = ur_spent_block r\<rparr>)"

record block_row =
  br_height :: i32
  br_address :: string
  br_id :: string
  br_utxo_address :: string
  br_public_key :: "string option"
  br_txid :: string
  br_vout :: i32
  br_amount :: i64
  br_script_pub_key :: string
  br_script_type :: string
  br_created_at :: datetime
  br_block_height :: i32
  br_spent_txid :: "string option"
  br_spent_at :: "datetime option"
  br_spent_block :: "i32 option"

definition into_utxo :: "block_row \<Rightarrow> utxo" where
  "into_utxo r =
     \<lparr>utxo_id = br_id r, address = br_utxo_address r, public_key = br_public_key r,
      txid = br_txid r, vout = br_vout r, amount = br_amount r,
      script_pub_key = br_script_pub_key r, script_type = br_script_type r,
      created_at = br_created_at r, block_height = br_block_height r,
      spent_txid = br_spent_txid r, spent_at = br_spent_at r, spent_block = br_spent_block r\<rparr>"

text \<open>\<^verbatim>\<open>SignedTx\<close>; in the rows of its table the time stamp is text.\<close>

record 't signed_tx_rec =
  stx_id :: i64
  stx_txid :: string
  stx_signed_tx :: string
  stx_caller :: string
  stx_block_height :: i32
  stx_amount :: i64
  stx_destination :: string
  stx_fee :: i64
  stx_timestamp :: 't

type_synonym signed_tx = "datetime signed_tx_rec"

section \<open>Opening a database file\<close>

text \<open>
  What the operating system and the connection pool say when a service opens its files:
  the current directory, the \<^verbatim>\<open>data\<close> directory under it, whether the path is valid UTF-8,
  and the pool.
\<close>

record os_env =
  cwd_fault :: "string option"
  mkdir_fault :: "string option"
  path_is_utf8 :: bool
  pool_open_fault :: "string option"

definition open_pool :: "os_env \<Rightarrow> unit sres" where
  "open_pool os =
     and_then (map_err IoError (raise_if (cwd_fault os))) (\<lambda>_.
     and_then (map_err IoError (raise_if (mkdir_fault os))) (\<lambda>_.
     if path_is_utf8 os
     then map_err DatabaseConnectionFailed (raise_if (pool_open_fault os))
     else Err (UnexpectedError ''Invalid database path'')))"

section \<open>The trait\<close>

record 's datasource =
  ds_setup :: "'s \<Rightarrow> unit sres \<times> 's"
  ds_get_type :: string
  ds_get_latest_block :: "'s \<Rightarrow> i32 sres"
  ds_process_block_utxos :: "pending_changes \<Rightarrow> 's \<Rightarrow> unit sres \<times> 's"
  ds_bulk_upsert_utxos :: "utxo list \<Rightarrow> 's \<Rightarrow> unit sres \<times> 's"
  ds_get_spendable_utxos_at_height :: "i32 \<Rightarrow> string \<Rightarrow> 's \<Rightarrow> utxo list sres"
  ds_get_utxos_for_block_and_address :: "i32 \<Rightarrow> string \<Rightarrow> 's \<Rightarrow> utxo list sres"
  ds_get_all_utxos_for_block :: "i32 \<Rightarrow> 's \<Rightarrow> utxo list sres"
  ds_get_utxo_by_outpoint :: "string \<Rightarrow> i32 \<Rightarrow> 's \<Rightarrow> utxo option sres"
  ds_store_block :: "i32 \<Rightarrow> string \<Rightarrow> datetime \<Rightarrow> 's \<Rightarrow> unit sres \<times> 's"
  ds_get_block_hash :: "i32 \<Rightarrow> 's \<Rightarrow> string option sres"
  ds_mark_blocks_as_final :: "i32 \<Rightarrow> 's \<Rightarrow> unit sres \<times> 's"
  ds_mark_blocks_after_height_not_main_chain :: "i32 \<Rightarrow> 's \<Rightarrow> unit sres \<times> 's"
  ds_revert_utxos_after_height :: "i32 \<Rightarrow> 's \<Rightarrow> unit sres \<times> 's"

text \<open>The checks every query repeats before it touches the data.\<close>

definition check_height :: "i32 \<Rightarrow> unit sres" where
  "check_height h = (if h < 0 then Err (InvalidBlockHeight h) else Ok ())"

definition check_address :: "string \<Rightarrow> unit sres" where
  "check_address a = (if a = [] then Err (InvalidAddress ''Empty address'') else Ok ())"

definition check_utxo :: "'t utxo_rec \<Rightarrow> unit sres" where
  "check_utxo u =
     (if amount u < 0 then Err (InvalidAmount (amount u))
      else if address u = [] then Err (InvalidAddress ''Empty address'') else Ok ())"

lemma check_height_Ok [simp]: "check_height h = Ok x \<longleftrightarrow> 0 \<le> h"
  by (auto simp: check_height_def)

lemma check_address_Ok [simp]: "check_address a = Ok x \<longleftrightarrow> a \<noteq> []"
  by (auto simp: check_address_def)

lemma check_utxo_Ok [simp]: "check_utxo u = Ok x \<longleftrightarrow> 0 \<le> amount u \<and> address u \<noteq> []"
  by (auto simp: check_utxo_def)

lemma check_height_pass [simp]: "0 \<le> h \<Longrightarrow> check_height h = Ok ()"
  by (simp add: check_height_def)

lemma check_address_pass [simp]: "a \<noteq> [] \<Longrightarrow> check_address a = Ok ()"
  by (simp add: check_address_def)

lemma check_height_Panic [simp]: "check_height h \<noteq> Panic"
  by (auto simp: check_height_def)

lemma check_address_Panic [simp]: "check_address a \<noteq> Panic"
  by (auto simp: check_address_def)

lemma check_utxo_Panic [simp]: "check_utxo a \<noteq> Panic"
  by (auto simp: check_utxo_def)

end
