(* ===== verification/Json.thy ===== *)
theory Json
  imports Storage_Types
begin

text \<open>
  JSON values as both services exchange them, with the encodings serde derives for the
  records that travel in them.  chrono's serialisation of a time stamp is a parameter.
\<close>

datatype json =
    JNull | JBool bool | JNum int | JFloat string | JStr string
  | JArr "json list" | JObj "(string \<times> json) list"

record time_codec =
  time_json :: "datetime \<Rightarrow> string"
  time_of_json :: "string \<Rightarrow> datetime option"

definition time_ok :: "time_codec \<Rightarrow> bool" where
  "time_ok T \<longleftrightarrow> (\<forall>t. time_of_json T (time_json T t) = Some t)"

section \<open>Reading\<close>

fun json_get :: "string \<Rightarrow> json \<Rightarrow> json option" where
  "json_get k (JObj kvs) = map_of kvs k"
| "json_get k _ = None"

fun as_str :: "json \<Rightarrow> string option" where
  "as_str (JStr s) = Some s"
| "as_str _ = None"

fun as_i32_json :: "json \<Rightarrow> i32 option" where
  "as_i32_json (JNum n) = (if in_i32 n then Some n else None)"
| "as_i32_json _ = None"

fun as_i64_json :: "json \<Rightarrow> i64 option" where
  "as_i64_json (JNum n) = (if in_i64 n then Some n else None)"
| "as_i64_json _ = None"

fun as_u64_json :: "json \<Rightarrow> u64 option" where
  "as_u64_json (JNum n) = (if 0 \<le> n \<and> n < 18446744073709551616 then Some n else None)"
| "as_u64_json _ = None"

text \<open>An \<^verbatim>\<open>Option\<close> field: missing or \<^verbatim>\<open>null\<close> is \<^verbatim>\<open>None\<close>.\<close>

definition opt_field :: "(json \<Rightarrow> 'a option) \<Rightarrow> json option \<Rightarrow> 'a option option" where
  "opt_field f v = (case v of None \<Rightarrow> Some None | Some JNull \<Rightarrow> Some None | Some j \<Rightarrow> map_option Some (f j))"

section \<open>Records\<close>

definition json_opt :: "('a \<Rightarrow> json) \<Rightarrow> 'a option \<Rightarrow> json" where
  "json_opt f v = (case v of None \<Rightarrow> JNull | Some x \<Rightarrow> f x)"

definition json_of_utxo :: "time_codec \<Rightarrow> utxo \<Rightarrow> json" where
  "json_of_utxo T u = JObj
     [(''id'', JStr (utxo_id u)), (''address'', JStr (address u)),
      (''public_key'', json_opt JStr (public_key u)), (''txid'', JStr (txid u)),
      (''vout'', JNum (vout u)), (''amount'', JNum (amount u)),
      (''script_pub_key'', JStr (script_pub_key u)), (''script_type'', JStr (script_type u)),
      (''created_at'', JStr (time_json T (created_at u))), (''block_height'', JNum (block_height u)),
      (''spent_txid'', json_opt JStr (spent_txid u)),
      (''spent_at'', json_opt (\<lambda>t. JStr (time_json T t)) (spent_at u)),
      (''spent_block'', json_opt JNum (spent_block u))]"

definition req_field :: "(json \<Rightarrow> 'a option) \<Rightarrow> string \<Rightarrow> json \<Rightarrow> 'a option" where
  "req_field f k j = Option.bind (json_get k j) f"

definition as_time :: "time_codec \<Rightarrow> json \<Rightarrow> datetime option" where
  "as_time T j = Option.bind (as_str j) (time_of_json T)"

definition utxo_of_json :: "time_codec \<Rightarrow> json \<Rightarrow> utxo option" where
  "utxo_of_json T j =
     Option.bind (req_field as_str ''id'' j) (\<lambda>i.
     Option.bind (req_field as_str ''address'' j) (\<lambda>a.
     Option.bind (opt_field as_str (json_get ''public_key'' j)) (\<lambda>pk.
     Option.bind (req_field as_str ''txid'' j) (\<lambda>t.
     Option.bind (req_field as_i32_json ''vout'' j) (\<lambda>v.
     Option.bind (req_field as_i64_json ''amount'' j) (\<lambda>am.
     Option.bind (req_field as_str ''script_pub_key'' j) (\<lambda>spk.
     Option.bind (req_field as_str ''script_type'' j) (\<lambda>ty.
     Option.bind (req_field (as_time T) ''created_at'' j) (\<lambda>c.
     Option.bind (req_field as_i32_json ''block_height'' j) (\<lambda>h.
     Option.bind (opt_field as_str (json_get ''spent_txid'' j)) (\<lambda>st.
     Option.bind (opt_field (as_time T) (json_get ''spent_at'' j)) (\<lambda>sa.
     Option.bind (opt_field as_i32_json (json_get ''spent_block'' j)) (\<lambda>sb.
       Some \<lparr>utxo_id = i, address = a, public_key = pk, txid = t, vout = v, amount = am,
             script_pub_key = spk, script_type = ty, created_at = c, block_height = h,
             spent_txid = st, spent_at = sa, spent_block = sb\<rparr>)))))))))))))"

fun all_some :: "'a option list \<Rightarrow> 'a list option" where
  "all_some [] = Some []"
| "all_some (x # xs) = Option.bind x (\<lambda>y. Option.bind (all_some xs) (\<lambda>ys. Some (y # ys)))"

fun utxos_of_json :: "time_codec \<Rightarrow> json \<Rightarrow> utxo list option" where
  "utxos_of_json T (JArr js) = all_some (map (utxo_of_json T) js)"
| "utxos_of_json T _ = None"

definition json_of_signed :: "time_codec \<Rightarrow> signed_tx \<Rightarrow> json" where
  "json_of_signed T x = JObj
     [(''id'', JNum (stx_id x)), (''txid'', JStr (stx_txid x)), (''signed_tx'', JStr (stx_signed_tx x)),
      (''caller'', JStr (stx_caller x)), (''block_height'', JNum (stx_block_height x)),
      (''amount'', JNum (stx_amount x)), (''destination'', JStr (stx_destination x)),
      (''fee'', JNum (stx_fee x)), (''timestamp'', JStr (time_json T (stx_timestamp x)))]"

definition json_of_store_request :: "store_signed_tx_request \<Rightarrow> json" where
  "json_of_store_request r = JObj
     [(''txid'', JStr (rq_txid r)), (''signed_tx'', JStr (rq_signed_tx r)), (''caller'', JStr (rq_caller r)),
      (''block_height'', JNum (rq_block_height r)), (''amount'', JNum (rq_amount r)),
      (''destination'', JStr (rq_destination r)), (''fee'', JNum (rq_fee r))]"

definition store_request_of_json :: "json \<Rightarrow> store_signed_tx_request option" where
  "store_request_of_json j =
     Option.bind (req_field as_str ''txid'' j) (\<lambda>t.
     Option.bind (req_field as_str ''signed_tx'' j) (\<lambda>x.
     Option.bind (req_field as_str ''caller'' j) (\<lambda>c.
     Option.bind (req_field as_i32_json ''block_height'' j) (\<lambda>h.
     Option.bind (req_field as_i64_json ''amount'' j) (\<lambda>a.
     Option.bind (req_field as_str ''destination'' j) (\<lambda>d.
     Option.bind (req_field as_i64_json ''fee'' j) (\<lambda>f.
       Some \<lparr>rq_txid = t, rq_signed_tx = x, rq_caller = c, rq_block_height = h, rq_amount = a,
             rq_destination = d, rq_fee = f\<rparr>)))))))"

section \<open>Round trips\<close>

text \<open>The integers of a record are within the ranges of their types.\<close>

definition utxo_in_range :: "'t utxo_rec \<Rightarrow> bool" where
  "utxo_in_range u \<longleftrightarrow> in_i32 (vout u) \<and> in_i64 (amount u) \<and> in_i32 (block_height u)
     \<and> (case spent_block u of None \<Rightarrow> True | Some b \<Rightarrow> in_i32 b)"

lemma opt_field_present: "j \<noteq> JNull \<Longrightarrow> opt_field f (Some j) = map_option Some (f j)"
  by (cases j) (simp_all add: opt_field_def)

lemma opt_field_json [simp]:
  "(\<And>x. f (g x) = Some x) \<Longrightarrow> (\<And>x. g x \<noteq> JNull) \<Longrightarrow> opt_field f (Some (json_opt g v)) = Some v"
  by (cases v) (simp_all add: json_opt_def opt_field_present, simp add: opt_field_def)

lemma opt_field_i32 [simp]:
  "(case v of None \<Rightarrow> True | Some b \<Rightarrow> in_i32 b) \<Longrightarrow> opt_field as_i32_json (Some (json_opt JNum v)) = Some v"
  by (cases v) (simp_all add: opt_field_def json_opt_def)

lemma utxo_of_json_of:
  assumes "time_ok T" and "utxo_in_range u"
  shows "utxo_of_json T (json_of_utxo T u) = Some u"
  using assms
  by (simp add: utxo_of_json_def json_of_utxo_def req_field_def as_time_def time_ok_def utxo_in_range_def)

lemma utxos_of_json_of:
  "time_ok T \<Longrightarrow> \<forall>u \<in> set us. utxo_in_range u \<Longrightarrow> utxos_of_json T (JArr (map (json_of_utxo T) us)) = Some us"
  by (induction us) (simp_all add: utxo_of_json_of)

lemma store_request_of_json_of:
  "in_i32 (rq_block_height r) \<Longrightarrow> in_i64 (rq_amount r) \<Longrightarrow> in_i64 (rq_fee r) \<Longrightarrow>
   store_request_of_json (json_of_store_request r) = Some r"
  by (simp add: store_request_of_json_def json_of_store_request_def req_field_def)

end
