(* ===== verification/Bitcoin_Types.thy ===== *)
theory Bitcoin_Types
  imports Prelude
begin

text \<open>
  What the services use of the \<^verbatim>\<open>bitcoin\<close> crate: the data of its public structures, and its
  functions as a record of parameters.  A transaction or block id is its hex string; a
  script is its bytes.  \<open>'u\<close> is an address whose network is not checked yet
  (\<^verbatim>\<open>Address<NetworkUnchecked>\<close>), \<open>'a\<close> a checked one.
\<close>

datatype network = Bitcoin | Testnet | Signet | Regtest

record txin =
  prev_txid :: string
  prev_vout :: u32
  script_sig :: string
  sequence :: u32
  witness :: "string list"

record txout =
  txo_value :: u64
  script_pubkey :: string

record transaction =
  tx_version :: i32
  lock_time :: u32
  tx_input :: "txin list"
  tx_output :: "txout list"

record ('u, 'a) bitcoin_lib =
  addr_from_str :: "string \<Rightarrow> ('u, string) outcome"
  addr_require_network :: "'u \<Rightarrow> network \<Rightarrow> ('a, string) outcome"
  addr_to_string :: "'a \<Rightarrow> string"
  addr_from_script :: "string \<Rightarrow> network \<Rightarrow> 'a option"
  addr_script_pubkey :: "'a \<Rightarrow> string"
  txid_from_str :: "string \<Rightarrow> string option"
  compute_txid :: "transaction \<Rightarrow> string"
  outpoint_is_null :: "string \<Rightarrow> u32 \<Rightarrow> bool"
  is_p2pkh :: "string \<Rightarrow> bool"
  is_p2sh :: "string \<Rightarrow> bool"
  is_p2wpkh :: "string \<Rightarrow> bool"
  is_p2wsh :: "string \<Rightarrow> bool"
  is_op_return :: "string \<Rightarrow> bool"
  is_witness_program :: "string \<Rightarrow> bool"
  hex_encode :: "string \<Rightarrow> string"
  hex_decode :: "string \<Rightarrow> string option"

text \<open>\<^verbatim>\<open>str::to_lowercase\<close> on ASCII; other characters never become the ASCII names compared with.\<close>

definition lower_char :: "char \<Rightarrow> char" where
  "lower_char c = (let n = of_char c :: nat in if 65 \<le> n \<and> n \<le> 90 then char_of (n + 32) else c)"

definition to_lowercase :: "string \<Rightarrow> string" where
  "to_lowercase s = map lower_char s"

section \<open>An instance\<close>

text \<open>Addresses that are their own text and script, for instances of the theorems.\<close>

definition small_lib :: "(string, string) bitcoin_lib" where
  "small_lib =
     \<lparr>addr_from_str = (\<lambda>a. if a = [] then Err ''empty'' else Ok a),
      addr_require_network = (\<lambda>u n. Ok u), addr_to_string = (\<lambda>a. a),
      addr_from_script = (\<lambda>s n. if s = [] then None else Some s), addr_script_pubkey = (\<lambda>a. a),
      txid_from_str = (\<lambda>t. if t = [] then None else Some t),
      compute_txid = (\<lambda>tx. concat (map prev_txid (tx_input tx)) @ ''-'' @ concat (map script_pubkey (tx_output tx))),
      outpoint_is_null = (\<lambda>t v. t = []),
      is_p2pkh = (\<lambda>_. False), is_p2sh = (\<lambda>_. False), is_p2wpkh = (\<lambda>_. True), is_p2wsh = (\<lambda>_. False),
      is_op_return = (\<lambda>_. False), is_witness_program = (\<lambda>_. True),
      hex_encode = (\<lambda>s. s), hex_decode = (\<lambda>s. Some s)\<rparr>"

end
