(* ===== verification/Indexer_Types.thy ===== *)
theory Indexer_Types
  imports Messages Json Bitcoin_Types
begin

text \<open>
  Data and helpers of the indexer: its errors (\<^verbatim>\<open>indexer/src/error.rs\<close>), the classification of
  scripts and the public key of a witness (\<^verbatim>\<open>indexer/src/utils.rs\<close>), and what it uses of the
  blocks and RPC results of the \<^verbatim>\<open>bitcoincore-rpc\<close> crate.
\<close>

section \<open>Errors\<close>

datatype indexer_error =
    BitcoinRPC string
  | RpcClientError string
  | Network transport_error
  | InvalidTimestamp
  | InvalidStartBlock string
  | InvalidConfiguration string

type_synonym 'a ires = "('a, indexer_error) outcome"

fun show_indexer_error :: "indexer_error \<Rightarrow> string" where
  "show_indexer_error (BitcoinRPC e) = ''Bitcoin RPC error: '' @ e"
| "show_indexer_error (RpcClientError e) = ''RPC client error: '' @ e"
| "show_indexer_error (Network e) = ''Network error: '' @ show_transport_error e"
| "show_indexer_error InvalidTimestamp = ''Invalid timestamp''"
| "show_indexer_error (InvalidStartBlock m) = ''Invalid start block: '' @ m"
| "show_indexer_error (InvalidConfiguration m) = ''Invalid configuration: '' @ m"

section \<open>Blocks and RPC results\<close>

record block =
  header_time :: u32
  txdata :: "transaction list"

text \<open>\<^verbatim>\<open>GetTxOutResult\<close>: the amount, and the bytes of the field \<^verbatim>\<open>script_pub_key.hex\<close>.\<close>

record tx_out_result =
  gto_value :: u64
  gto_hex :: string

section \<open>Scripts and witnesses\<close>

definition determine_script_type :: "('u, 'a) bitcoin_lib \<Rightarrow> string \<Rightarrow> string" where
  "determine_script_type L script =
     (if is_p2pkh L script then ''P2PKH''
      else if is_p2sh L script then ''P2SH''
      else if is_p2wpkh L script then ''P2WPKH''
      else if is_p2wsh L script then ''P2WSH''
      else if is_op_return L script then ''OP_RETURN''
      else if is_witness_program L script then ''WITNESS''
      else ''UNKNOWN'')"

definition extract_public_key :: "('u, 'a) bitcoin_lib \<Rightarrow> string list \<Rightarrow> string option" where
  "extract_public_key L w =
     (case w of _ # k # _ \<Rightarrow> Some (hex_encode L k) | _ \<Rightarrow> None)"

end
