(* ===== verification/Rpc_Client.thy ===== *)
theory Rpc_Client
  imports Indexer_Types "HOL-Library.AList"
begin

text \<open>
  The RPC clients of \<^verbatim>\<open>indexer/src/indexer.rs\<close>: the trait \<^verbatim>\<open>BitcoinRpcClient\<close> over the
  \<^verbatim>\<open>bitcoincore-rpc\<close> client and over an external HTTP service with retries and batches.  The
  node is a state \<open>'n\<close> that every call may change; a hash map is an association list with
  distinct keys.  Pauses between attempts have no effect on the model.
\<close>

section \<open>Parameters\<close>

text \<open>An HTTP response: status, and the outcome of reading its body as JSON or as text.\<close>

record rpc_response =
  rr_status :: nat
  rr_json :: "(json, string) outcome"
  rr_text :: "(string, string) outcome"

record 'n core_client =
  core_block_count :: "'n \<Rightarrow> (u64, string) outcome \<times> 'n"
  core_block_hash :: "u64 \<Rightarrow> 'n \<Rightarrow> (string, string) outcome \<times> 'n"
  core_block :: "string \<Rightarrow> 'n \<Rightarrow> (block, string) outcome \<times> 'n"
  core_block_info :: "string \<Rightarrow> 'n \<Rightarrow> (u64, string) outcome \<times> 'n" \<comment> \<open>its height\<close>
  core_tx_out :: "string \<Rightarrow> u32 \<Rightarrow> bool option \<Rightarrow> 'n \<Rightarrow> (tx_out_result option, string) outcome \<times> 'n"
  core_raw_transaction :: "string \<Rightarrow> string option \<Rightarrow> 'n \<Rightarrow> (transaction, string) outcome \<times> 'n"

record 'n external_client =
  ext_post :: "(string \<times> string option) option \<Rightarrow> json \<Rightarrow> 'n \<Rightarrow> (rpc_response, string) outcome \<times> 'n"
  ext_user :: "string option"
  ext_password :: "string option"
  ext_batch_size :: nat
  parse_json :: "string \<Rightarrow> (json, string) outcome"
  json_text :: "json \<Rightarrow> string"
  value_error :: "json \<Rightarrow> string" \<comment> \<open>serde's message for a value of the wrong shape\<close>
  block_hash_from_str :: "string \<Rightarrow> (string, string) outcome"
  decode_hex :: "string \<Rightarrow> (string, string) outcome"
  decode_block :: "string \<Rightarrow> (block, string) outcome"
  decode_tx :: "string \<Rightarrow> (transaction, string) outcome"
  block_info_of_json :: "json \<Rightarrow> (u64, string) outcome"
  tx_out_of_json :: "json \<Rightarrow> (tx_out_result, string) outcome"

datatype 'n rpc_client = Core "'n core_client" | External "'n external_client"

section \<open>Calls with retries\<close>

definition basic_auth :: "'n external_client \<Rightarrow> (string \<times> string option) option" where
  "basic_auth X = map_option (\<lambda>u. (u, ext_password X)) (ext_user X)"

definition attempts :: "nat list" where
  "attempts = [0, 1, 2]"

text \<open>
  Each attempt posts once.  A transport error is final on the third attempt, status 429 is
  retried on every attempt, and any other response ends the loop with \<open>finish\<close>.
\<close>

fun retry :: "'n external_client \<Rightarrow> json \<Rightarrow> (rpc_response \<Rightarrow> 'a ires) \<Rightarrow> string \<Rightarrow> nat list
    \<Rightarrow> 'n \<Rightarrow> 'a ires \<times> 'n" where
  "retry X body finish failed [] n = (Err (RpcClientError failed), n)"
| "retry X body finish failed (attempt # rest) n =
     (case ext_post X (basic_auth X) body n of
        (Panic, n') \<Rightarrow> (Panic, n')
      | (Err e, n') \<Rightarrow>
          if attempt = 2 then (Err (RpcClientError e), n') else retry X body finish failed rest n'
      | (Ok resp, n') \<Rightarrow>
          if rr_status resp = 429 then retry X body finish failed rest n' else (finish resp, n'))"

text \<open>An \<^verbatim>\<open>error\<close> member that is not \<^verbatim>\<open>null\<close>.\<close>

definition has_error :: "json \<Rightarrow> bool" where
  "has_error j = (case json_get ''error'' j of None \<Rightarrow> False | Some e \<Rightarrow> e \<noteq> JNull)"

definition call_result :: "'n external_client \<Rightarrow> rpc_response \<Rightarrow> json ires" where
  "call_result X resp =
     and_then (map_err RpcClientError (rr_json resp)) (\<lambda>j.
       if has_error j then Err (RpcClientError (''RPC error: '' @ json_text X (the (json_get ''error'' j))))
       else case json_get ''result'' j of Some r \<Rightarrow> Ok r | None \<Rightarrow> Err (RpcClientError ''missing result''))"

definition rpc_request :: "nat \<Rightarrow> string \<Rightarrow> json list \<Rightarrow> json" where
  "rpc_request i method params =
     JObj [(''jsonrpc'', JStr ''2.0''), (''id'', JNum (int i)), (''method'', JStr method),
           (''params'', JArr params)]"

definition make_rpc_call_optimized :: "'n external_client \<Rightarrow> string \<Rightarrow> json list \<Rightarrow> 'n \<Rightarrow> json ires \<times> 'n" where
  "make_rpc_call_optimized X method params =
     retry X (rpc_request 1 method params) (call_result X) ''RPC call failed'' attempts"

definition batch_result :: "'n external_client \<Rightarrow> rpc_response \<Rightarrow> json list ires" where
  "batch_result X resp =
     and_then (map_err RpcClientError (rr_text resp)) (\<lambda>t.
     and_then (map_err (\<lambda>e. RpcClientError (''Failed to parse JSON: '' @ e)) (parse_json X t)) (\<lambda>j.
       case j of
         JArr results \<Rightarrow> Ok results
       | _ \<Rightarrow> Err (RpcClientError (''Expected array response but got: '' @ json_text X j))))"

definition send_batch :: "'n external_client \<Rightarrow> json list \<Rightarrow> 'n \<Rightarrow> json list ires \<times> 'n" where
  "send_batch X batch = retry X (JArr batch) (batch_result X) ''batch request failed'' attempts"

section \<open>Batches\<close>

text \<open>
  A response is used when its error is absent or \<^verbatim>\<open>null\<close>, its id is one of the batch, and its
  result decodes; all others are skipped.
\<close>

definition response_entry :: "(json \<Rightarrow> 'v option) \<Rightarrow> 'k list \<Rightarrow> json \<Rightarrow> ('k \<times> 'v) option" where
  "response_entry dec ks resp =
     (if has_error resp then None
      else case (json_get ''id'' resp, json_get ''result'' resp) of
          (Some i, Some r) \<Rightarrow>
            (case as_u64_json i of
               Some n \<Rightarrow> if nat n < length ks then map_option (Pair (ks ! nat n)) (dec r) else None
             | None \<Rightarrow> None)
        | _ \<Rightarrow> None)"

fun add_responses :: "(json \<Rightarrow> 'v option) \<Rightarrow> 'k list \<Rightarrow> json list \<Rightarrow> ('k \<times> 'v) list \<Rightarrow> ('k \<times> 'v) list" where
  "add_responses dec ks [] acc = acc"
| "add_responses dec ks (r # rs) acc =
     add_responses dec ks rs
       (case response_entry dec ks r of None \<Rightarrow> acc | Some (k, v) \<Rightarrow> AList.update k v acc)"

fun batch_loop :: "'n external_client \<Rightarrow> ('k \<Rightarrow> nat \<Rightarrow> json) \<Rightarrow> (json \<Rightarrow> 'v option) \<Rightarrow> 'k list list
    \<Rightarrow> ('k \<times> 'v) list \<Rightarrow> 'n \<Rightarrow> ('k \<times> 'v) list ires \<times> 'n" where
  "batch_loop X mk dec [] acc n = (Ok acc, n)"
| "batch_loop X mk dec (ks # rest) acc n =
     then_do (send_batch X (map (\<lambda>(i, k). mk k i) (enumerate 0 ks)))
       (\<lambda>responses. batch_loop X mk dec rest (add_responses dec ks responses acc)) n"

text \<open>\<^verbatim>\<open>chunks(0)\<close> panics.\<close>

definition in_batches :: "'n external_client \<Rightarrow> ('k \<Rightarrow> nat \<Rightarrow> json) \<Rightarrow> (json \<Rightarrow> 'v option) \<Rightarrow> 'k list
    \<Rightarrow> 'n \<Rightarrow> ('k \<times> 'v) list ires \<times> 'n" where
  "in_batches X mk dec ks n =
     (if ext_batch_size X = 0 then (Panic, n) else batch_loop X mk dec (chunks (ext_batch_size X) ks) [] n)"

definition raw_tx_of_json :: "'n external_client \<Rightarrow> json \<Rightarrow> transaction option" where
  "raw_tx_of_json X r =
     (case r of
        JStr h \<Rightarrow>
          (case decode_hex X h of
             Ok bytes \<Rightarrow> (case decode_tx X bytes of Ok tx \<Rightarrow> Some tx | _ \<Rightarrow> None)
           | _ \<Rightarrow> None)
      | _ \<Rightarrow> None)"

definition get_raw_transactions_batch :: "'n external_client \<Rightarrow> string list \<Rightarrow> 'n
    \<Rightarrow> (string \<times> transaction) list ires \<times> 'n" where
  "get_raw_transactions_batch X =
     in_batches X (\<lambda>t i. rpc_request i ''getrawtransaction'' [JStr t, JBool False]) (raw_tx_of_json X)"

definition present_tx_out :: "'n external_client \<Rightarrow> json \<Rightarrow> tx_out_result option" where
  "present_tx_out X r =
     (if r = JNull then None else case tx_out_of_json X r of Ok x \<Rightarrow> Some x | _ \<Rightarrow> None)"

definition get_tx_outs_batch :: "'n external_client \<Rightarrow> (string \<times> u32) list \<Rightarrow> 'n
    \<Rightarrow> ((string \<times> u32) \<times> tx_out_result) list ires \<times> 'n" where
  "get_tx_outs_batch X =
     in_batches X (\<lambda>(t, v) i. rpc_request i ''gettxout'' [JStr t, JNum v]) (present_tx_out X)"

section \<open>The trait\<close>

definition expect_string :: "'n external_client \<Rightarrow> json \<Rightarrow> string ires" where
  "expect_string X r = (case as_str r of Some s \<Rightarrow> Ok s | None \<Rightarrow> Err (RpcClientError (value_error X r)))"

definition core_call :: "('n \<Rightarrow> ('a, string) outcome \<times> 'n) \<Rightarrow> 'n \<Rightarrow> 'a ires \<times> 'n" where
  "core_call f n = (case f n of (r, n') \<Rightarrow> (map_err BitcoinRPC r, n'))"

fun get_block_count :: "'n rpc_client \<Rightarrow> 'n \<Rightarrow> u64 ires \<times> 'n" where
  "get_block_count (Core C) n = core_call (core_block_count C) n"
| "get_block_count (External X) n =
     then_do (make_rpc_call_optimized X ''getblockcount'' []) (\<lambda>r.
       lift_result (case as_u64_json r of Some c \<Rightarrow> Ok c | None \<Rightarrow> Err (RpcClientError (value_error X r)))) n"

fun get_block_hash :: "'n rpc_client \<Rightarrow> u64 \<Rightarrow> 'n \<Rightarrow> string ires \<times> 'n" where
  "get_block_hash (Core C) h n = core_call (core_block_hash C h) n"
| "get_block_hash (External X) h n =
     then_do (make_rpc_call_optimized X ''getblockhash'' [JNum h]) (\<lambda>r.
       lift_result (and_then (expect_string X r) (\<lambda>s. map_err RpcClientError (block_hash_from_str X s)))) n"

fun get_block :: "'n rpc_client \<Rightarrow> string \<Rightarrow> 'n \<Rightarrow> block ires \<times> 'n" where
  "get_block (Core C) b n = core_call (core_block C b) n"
| "get_block (External X) b n =
     then_do (make_rpc_call_optimized X ''getblock'' [JStr b, JNum 0]) (\<lambda>r.
       lift_result (and_then (expect_string X r) (\<lambda>h.
         and_then (map_err RpcClientError (decode_hex X h)) (\<lambda>bytes.
           map_err RpcClientError (decode_block X bytes))))) n"

fun get_block_info :: "'n rpc_client \<Rightarrow> string \<Rightarrow> 'n \<Rightarrow> u64 ires \<times> 'n" where
  "get_block_info (Core C) b n = core_call (core_block_info C b) n"
| "get_block_info (External X) b n =
     then_do (make_rpc_call_optimized X ''getblock'' [JStr b, JNum 1]) (\<lambda>r.
       lift_result (map_err RpcClientError (block_info_of_json X r))) n"

fun get_tx_out :: "'n rpc_client \<Rightarrow> string \<Rightarrow> u32 \<Rightarrow> bool option \<Rightarrow> 'n \<Rightarrow> tx_out_result option ires \<times> 'n" where
  "get_tx_out (Core C) t v mem n = core_call (core_tx_out C t v mem) n"
| "get_tx_out (External X) t v mem n =
     then_do (make_rpc_call_optimized X ''gettxout''
                ([JStr t, JNum v] @ (case mem of None \<Rightarrow> [] | Some b \<Rightarrow> [JBool b]))) (\<lambda>r.
       lift_result (if r = JNull then Ok None
         else and_then (map_err RpcClientError (tx_out_of_json X r)) (\<lambda>x. Ok (Some x)))) n"

fun get_raw_transaction :: "'n rpc_client \<Rightarrow> string \<Rightarrow> string option \<Rightarrow> 'n \<Rightarrow> transaction ires \<times> 'n" where
  "get_raw_transaction (Core C) t b n = core_call (core_raw_transaction C t b) n"
| "get_raw_transaction (External X) t b n =
     then_do (make_rpc_call_optimized X ''getrawtransaction''
                ([JStr t, JBool False] @ (case b of None \<Rightarrow> [] | Some x \<Rightarrow> [JStr x]))) (\<lambda>r.
       lift_result (and_then (expect_string X r) (\<lambda>h.
         and_then (map_err RpcClientError (decode_hex X h)) (\<lambda>bytes.
           map_err RpcClientError (decode_tx X bytes))))) n"

section \<open>Retries\<close>

text \<open>A transport error, or status 429.\<close>

fun retryable :: "(rpc_response, string) outcome \<Rightarrow> bool" where
  "retryable (Ok resp) = (rr_status resp = 429)"
| "retryable (Err e) = True"
| "retryable Panic = False"

text \<open>A node that answers the posts in turn from a list, whatever they ask.\<close>

definition scripted :: "(rpc_response, string) outcome list external_client \<Rightarrow> bool" where
  "scripted X \<longleftrightarrow> (\<forall>a b r rs. ext_post X a b (r # rs) = (r, rs))"

lemma retry_skip:
  assumes "scripted X" and "retryable r" and "attempt \<noteq> 2"
  shows "retry X body fin msg (attempt # rest) (r # rs) = retry X body fin msg rest rs"
  using assms by (cases r) (auto simp: scripted_def)

lemma retry_done:
  assumes "scripted X" and "rr_status resp \<noteq> 429"
  shows "retry X body fin msg (attempt # rest) (Ok resp # rs) = (fin resp, rs)"
  using assms by (simp add: scripted_def)

lemma retry_last:
  assumes "scripted X" and "retryable r"
  shows "retry X body fin msg [2] (r # rs) = (Err (RpcClientError (case r of Err e \<Rightarrow> e | _ \<Rightarrow> msg)), rs)"
  using assms by (cases r) (auto simp: scripted_def)

lemma retry_three:
  assumes "scripted X" and "retryable r1" and "retryable r2" and "retryable r3"
  shows "retry X body fin msg attempts (r1 # r2 # r3 # rs)
     = (Err (RpcClientError (case r3 of Err e \<Rightarrow> e | _ \<Rightarrow> msg)), rs)"
  using assms by (simp add: attempts_def retry_skip retry_last del: retry.simps)

lemma retry_first_decisive:
  assumes "scripted X" and "\<forall>r \<in> set bad. retryable r" and "length bad \<le> 2" and "rr_status resp \<noteq> 429"
  shows "retry X body fin msg attempts (bad @ Ok resp # rs) = (fin resp, rs)"
proof -
  consider "bad = []" | r where "bad = [r]" | r1 r2 where "bad = [r1, r2]"
    using assms(3) by (cases bad; cases "tl bad") (auto simp: length_Suc_conv le_Suc_eq)
  then show ?thesis
    using assms by cases (simp_all add: attempts_def retry_skip retry_done del: retry.simps)
qed

section \<open>Batches\<close>

text \<open>
  A service that answers batches: every request body of at most the batch size is answered at once by a JSON array, in
  any order, whose usable entries are those of \<open>f\<close> for the keys asked.
\<close>

definition serves_batches :: "'n external_client \<Rightarrow> ('k \<Rightarrow> nat \<Rightarrow> json) \<Rightarrow> (json \<Rightarrow> 'v option)
    \<Rightarrow> ('k \<Rightarrow> 'v option) \<Rightarrow> bool" where
  "serves_batches X mk dec f \<longleftrightarrow>
     (\<forall>ks n. length ks \<le> ext_batch_size X \<longrightarrow> (\<exists>resp rs n'.
        ext_post X (basic_auth X) (JArr (map (\<lambda>(i, k). mk k i) (enumerate 0 ks))) n = (Ok resp, n')
        \<and> rr_status resp \<noteq> 429 \<and> batch_result X resp = Ok rs
        \<and> (\<forall>r \<in> set rs. \<forall>k v. response_entry dec ks r = Some (k, v) \<longrightarrow> f k = Some v)
        \<and> (\<forall>k \<in> set ks. \<forall>v. f k = Some v \<longrightarrow> (\<exists>r \<in> set rs. response_entry dec ks r = Some (k, v)))))"

lemma response_entry_key: "response_entry dec ks r = Some (k, v) \<Longrightarrow> k \<in> set ks"
  by (auto simp: response_entry_def split: if_splits option.splits)

lemma alist_lookup_update: "map_of (AList.update k v al) = (map_of al)(k \<mapsto> v)"
  by (induction al) auto

lemma add_responses_lookup:
  assumes "\<forall>r \<in> set rs. \<forall>k v. response_entry dec ks r = Some (k, v) \<longrightarrow> f k = Some v"
  shows "map_of (add_responses dec ks rs acc) k =
     (if \<exists>r \<in> set rs. \<exists>v. response_entry dec ks r = Some (k, v) then f k else map_of acc k)"
  using assms
proof (induction rs arbitrary: acc)
  case Nil
  then show ?case by simp
next
  case (Cons r rs)
  then show ?case
    by (cases "response_entry dec ks r") (auto simp: alist_lookup_update)
qed

lemma batch_loop_lookup:
  assumes "serves_batches X mk dec f" and "\<forall>ks \<in> set kss. length ks \<le> ext_batch_size X"
  shows "\<exists>acc' n'. batch_loop X mk dec kss acc n = (Ok acc', n')
     \<and> (\<forall>k. map_of acc' k = (if k \<in> set (concat kss) \<and> f k \<noteq> None then f k else map_of acc k))"
  using assms(2)
proof (induction kss arbitrary: acc n)
  case Nil
  then show ?case by simp
next
  case (Cons ks kss)
  obtain resp rs n1 where
    post: "ext_post X (basic_auth X) (JArr (map (\<lambda>(i, k). mk k i) (enumerate 0 ks))) n = (Ok resp, n1)"
      "rr_status resp \<noteq> 429" "batch_result X resp = Ok rs"
    and sound: "\<forall>r \<in> set rs. \<forall>k v. response_entry dec ks r = Some (k, v) \<longrightarrow> f k = Some v"
    and complete: "\<forall>k \<in> set ks. \<forall>v. f k = Some v \<longrightarrow> (\<exists>r \<in> set rs. response_entry dec ks r = Some (k, v))"
    using assms(1) Cons.prems unfolding serves_batches_def by (metis list.set_intros(1))
  have sent: "send_batch X (map (\<lambda>(i, k). mk k i) (enumerate 0 ks)) n = (Ok rs, n1)"
    using post by (simp add: send_batch_def attempts_def)
  have step: "map_of (add_responses dec ks rs acc) k = (if k \<in> set ks \<and> f k \<noteq> None then f k else map_of acc k)" for k
    using add_responses_lookup [OF sound, of acc k] sound complete response_entry_key by fastforce
  obtain acc' n' where "batch_loop X mk dec kss (add_responses dec ks rs acc) n1 = (Ok acc', n')"
    "\<forall>k. map_of acc' k = (if k \<in> set (concat kss) \<and> f k \<noteq> None then f k
        else map_of (add_responses dec ks rs acc) k)"
    using Cons.IH Cons.prems by (metis list.set_intros(2))
  then show ?case
    using sent step by (intro exI [of _ acc'] exI [of _ n']) auto
qed

lemma add_responses_distinct: "distinct (map fst acc) \<Longrightarrow> distinct (map fst (add_responses dec ks rs acc))"
  by (induction rs arbitrary: acc) (auto simp: distinct_update split: option.splits)

lemma batch_loop_distinct:
  "batch_loop X mk dec kss acc n = (Ok acc', n') \<Longrightarrow> distinct (map fst acc) \<Longrightarrow> distinct (map fst acc')"
proof (induction kss arbitrary: acc n)
  case (Cons ks kss)
  from Cons.prems(1) obtain rs n1 where "batch_loop X mk dec kss (add_responses dec ks rs acc) n1 = (Ok acc', n')"
    by (auto simp: then_do_eq_Ok)
  then show ?case by (rule Cons.IH) (rule add_responses_distinct [OF Cons.prems(2)])
qed simp

lemma in_batches_distinct: "in_batches X mk dec ks n = (Ok acc, n') \<Longrightarrow> distinct (map fst acc)"
  by (auto simp: in_batches_def split: if_splits dest: batch_loop_distinct)

lemma in_batches_lookup:
  assumes "serves_batches X mk dec f" and "0 < ext_batch_size X"
  shows "\<exists>acc n'. in_batches X mk dec ks n = (Ok acc, n')
     \<and> (\<forall>k. map_of acc k = (if k \<in> set ks then f k else None))"
proof -
  obtain acc n' where "batch_loop X mk dec (chunks (ext_batch_size X) ks) [] n = (Ok acc, n')"
    "\<forall>k. map_of acc k = (if k \<in> set (concat (chunks (ext_batch_size X) ks)) \<and> f k \<noteq> None then f k else map_of [] k)"
    using batch_loop_lookup [OF assms(1), of "chunks (ext_batch_size X) ks" "[]" n] length_in_chunks [OF assms(2)]
    by blast
  then show ?thesis
    using assms(2) by (intro exI [of _ acc] exI [of _ n']) (auto simp: in_batches_def concat_chunks simp del: set_concat)
qed

section \<open>Instances\<close>

definition tx_named :: "string \<Rightarrow> transaction" where
  "tx_named t = \<lparr>tx_version = 2, lock_time = 0, tx_input = [],
     tx_output = [\<lparr>txo_value = 50, script_pubkey = t\<rparr>]\<rparr>"

text \<open>A node that plays back a list, and a service that knows the one transaction \<open>t1\<close>.\<close>

definition asks_t1 :: "json \<Rightarrow> bool" where
  "asks_t1 j \<longleftrightarrow> json_get ''params'' j = Some (JArr [JStr ''t1'', JBool False])"

definition t1_answer :: "json \<Rightarrow> string" where
  "t1_answer body =
     (case body of
        JArr reqs \<Rightarrow> (case filter asks_t1 reqs of
            [] \<Rightarrow> ''none''
          | j # _ \<Rightarrow> (case json_get ''id'' j of Some (JNum i) \<Rightarrow> show_int i | _ \<Rightarrow> ''none''))
      | _ \<Rightarrow> ''none'')"

definition small_external :: "((string \<times> string option) option \<Rightarrow> json \<Rightarrow> 'n \<Rightarrow> (rpc_response, string) outcome \<times> 'n)
    \<Rightarrow> 'n external_client" where
  "small_external answer =
     \<lparr>ext_post = answer, ext_user = Some ''user'', ext_password = None, ext_batch_size = 10,
      parse_json = (\<lambda>t. Ok (JArr (if t = ''none'' then []
        else [JObj [(''id'', JNum (read_int t)), (''result'', JStr ''t1'')]]))),
      json_text = (\<lambda>_. ''?''), value_error = (\<lambda>_. ''invalid type''), block_hash_from_str = Ok,
      decode_hex = Ok, decode_block = (\<lambda>_. Err ''no block''), decode_tx = (\<lambda>b. Ok (tx_named b)),
      block_info_of_json = (\<lambda>_. Err ''no block''), tx_out_of_json = (\<lambda>_. Err ''no output'')\<rparr>"

definition playback :: "(rpc_response, string) outcome list external_client" where
  "playback = small_external (\<lambda>a b rs. case rs of [] \<Rightarrow> (Err ''end'', []) | r # rs' \<Rightarrow> (r, rs'))"

definition t1_service :: "unit external_client" where
  "t1_service = small_external
     (\<lambda>a b n. (Ok \<lparr>rr_status = 200, rr_json = Err ''array'', rr_text = Ok (t1_answer b)\<rparr>, n))"

lemma playback_scripted [simp]: "scripted playback"
  by (simp add: scripted_def playback_def small_external_def)

lemma show_int_not_none: "show_int (int i) \<noteq> ''none''"
  using show_nat_chars [of "CHR ''n''" i] by (auto simp: show_int_def)

lemma t1_service_serves:
  "serves_batches t1_service (\<lambda>t i. rpc_request i ''getrawtransaction'' [JStr t, JBool False])
     (raw_tx_of_json t1_service) [''t1'' \<mapsto> tx_named ''t1'']"
  unfolding serves_batches_def
proof (intro allI impI)
  fix ks :: "string list" and n :: unit
  assume "length ks \<le> ext_batch_size t1_service"
  then have small: "length ks \<le> 10" by (simp add: t1_service_def small_external_def)
  let ?reqs = "map (\<lambda>(i, k). rpc_request i ''getrawtransaction'' [JStr k, JBool False]) (enumerate 0 ks)"
  let ?post = "\<lambda>t. \<lparr>rr_status = 200, rr_json = Err ''array'', rr_text = Ok t\<rparr> :: rpc_response"
  have post: "ext_post t1_service (basic_auth t1_service) (JArr ?reqs) n = (Ok (?post (t1_answer (JArr ?reqs))), n)"
    by (simp add: t1_service_def small_external_def)
  have asks: "asks_t1 (rpc_request i ''getrawtransaction'' [JStr k, JBool False]) \<longleftrightarrow> k = ''t1''" for i k
    by (simp add: asks_t1_def rpc_request_def)
  show "\<exists>resp rs n'. ext_post t1_service (basic_auth t1_service) (JArr ?reqs) n = (Ok resp, n')
     \<and> rr_status resp \<noteq> 429 \<and> batch_result t1_service resp = Ok rs
     \<and> (\<forall>r \<in> set rs. \<forall>k v. response_entry (raw_tx_of_json t1_service) ks r = Some (k, v)
          \<longrightarrow> [''t1'' \<mapsto> tx_named ''t1''] k = Some v)
     \<and> (\<forall>k \<in> set ks. \<forall>v. [''t1'' \<mapsto> tx_named ''t1''] k = Some v
          \<longrightarrow> (\<exists>r \<in> set rs. response_entry (raw_tx_of_json t1_service) ks r = Some (k, v)))"
  proof (cases "filter asks_t1 ?reqs")
    case Nil
    then have none: "''t1'' \<notin> set ks"
      by (auto simp: filter_empty_conv asks in_set_conv_nth enumerate_eq_zip set_zip)
    have "t1_answer (JArr ?reqs) = ''none''" using Nil by (simp add: t1_answer_def)
    then show ?thesis
      using post none by (auto simp: batch_result_def t1_service_def small_external_def)
  next
    case (Cons j js)
    then have "j \<in> set (filter asks_t1 ?reqs)" by (simp only: list.set_intros)
    then obtain i where i: "i < length ks" "ks ! i = ''t1''"
      and j: "j = rpc_request i ''getrawtransaction'' [JStr ''t1'', JBool False]"
      by (auto simp: asks in_set_enumerate_eq)
    have "t1_answer (JArr ?reqs) = show_int (int i)"
      using Cons by (simp add: t1_answer_def j rpc_request_def)
    then have "batch_result t1_service (?post (t1_answer (JArr ?reqs)))
        = Ok [JObj [(''id'', JNum (int i)), (''result'', JStr ''t1'')]]"
      by (simp add: batch_result_def t1_service_def small_external_def show_int_not_none)
    moreover have "response_entry (raw_tx_of_json t1_service) ks (JObj [(''id'', JNum (int i)), (''result'', JStr ''t1'')])
        = Some (''t1'', tx_named ''t1'')"
      using i small by (simp add: response_entry_def has_error_def raw_tx_of_json_def t1_service_def small_external_def)
    ultimately show ?thesis
      using post by (intro exI [of _ "?post (t1_answer (JArr ?reqs))"]
          exI [of _ "[JObj [(''id'', JNum (int i)), (''result'', JStr ''t1'')]]"] exI [of _ n]) simp
  qed
qed

section \<open>Properties\<close>

text \<open>
  C40. Retries: against a node that answers in turn, a call skips at most two transport
  errors or 429s and returns what the first other response says; after three of them it
  fails, with the third's error or the fixed message, and posts no fourth time.
\<close>

theorem rpc_retries:
  assumes "scripted X" and "\<forall>r \<in> set bad. retryable r"
  shows "(length bad \<le> 2 \<and> rr_status resp \<noteq> 429 \<longrightarrow>
       make_rpc_call_optimized X method params (bad @ Ok resp # rest) = (call_result X resp, rest))
     \<and> (length bad = 3 \<longrightarrow>
       make_rpc_call_optimized X method params (bad @ rest)
         = (Err (RpcClientError (case last bad of Err e \<Rightarrow> e | _ \<Rightarrow> ''RPC call failed'')), rest))"
proof (intro conjI impI)
  assume "length bad \<le> 2 \<and> rr_status resp \<noteq> 429"
  then show "make_rpc_call_optimized X method params (bad @ Ok resp # rest) = (call_result X resp, rest)"
    by (simp add: make_rpc_call_optimized_def retry_first_decisive [OF assms])
next
  assume "length bad = 3"
  then obtain r1 r2 r3 where "bad = [r1, r2, r3]"
    by (auto simp: length_Suc_conv numeral_3_eq_3)
  then show "make_rpc_call_optimized X method params (bad @ rest)
         = (Err (RpcClientError (case last bad of Err e \<Rightarrow> e | _ \<Rightarrow> ''RPC call failed'')), rest)"
    using assms(2) by (simp add: make_rpc_call_optimized_def retry_three [OF assms(1)])
qed

theorem rpc_retries_witness:
  "make_rpc_call_optimized playback ''getblockcount'' []
      [Err ''timeout'', Ok \<lparr>rr_status = 429, rr_json = Err ''x'', rr_text = Err ''x''\<rparr>,
       Ok \<lparr>rr_status = 200, rr_json = Ok (JObj [(''result'', JNum 7)]), rr_text = Err ''x''\<rparr>, Err ''unused'']
     = (Ok (JNum 7), [Err ''unused''])"
  using rpc_retries [OF playback_scripted,
      of "[Err ''timeout'', Ok \<lparr>rr_status = 429, rr_json = Err ''x'', rr_text = Err ''x''\<rparr>]"
        "\<lparr>rr_status = 200, rr_json = Ok (JObj [(''result'', JNum 7)]), rr_text = Err ''x''\<rparr>"
        "''getblockcount''" "[]" "[Err ''unused'']"]
  by (simp add: call_result_def has_error_def)

text \<open>
  Batching is invisible: for every positive batch size, against a service that answers
  each batch in any order, the batched fetch of transactions returns exactly the
  transactions the service has for the ids asked.
\<close>

lemma raw_transactions_batched:
  assumes "serves_batches X (\<lambda>t i. rpc_request i ''getrawtransaction'' [JStr t, JBool False]) (raw_tx_of_json X) f"
    and "0 < ext_batch_size X"
  shows "\<exists>acc n'. get_raw_transactions_batch X ts n = (Ok acc, n')
     \<and> (\<forall>t. map_of acc t = (if t \<in> set ts then f t else None))"
  using in_batches_lookup [OF assms] by (simp add: get_raw_transactions_batch_def)

lemma raw_transactions_batched_witness:
  "\<exists>acc n'. get_raw_transactions_batch t1_service [''t0'', ''t1''] () = (Ok acc, n')
     \<and> (\<forall>t. map_of acc t = (if t \<in> set [''t0'', ''t1''] then [''t1'' \<mapsto> tx_named ''t1''] t else None))"
  by (rule raw_transactions_batched [OF t1_service_serves]) (simp add: t1_service_def small_external_def)

end
