(* ===== verification/Indexer.thy ===== *)
theory Indexer
  imports Rpc_Client
begin

text \<open>
  The block processing of \<^verbatim>\<open>BitcoinIndexer\<close> (\<^verbatim>\<open>indexer/src/indexer.rs\<close>): from a block of the
  node to the updates for the watched addresses.  The LRU cache of the \<^verbatim>\<open>lru\<close> crate, the order
  in which hash sets and maps are visited and chrono's calendar are parameters; what is
  relied on of the cache and of the node is stated as locales.
\<close>

section \<open>Configuration and state\<close>

record 'c cache_ops =
  cache_new :: "nat \<Rightarrow> 'c"
  cache_get :: "string \<Rightarrow> 'c \<Rightarrow> transaction option \<times> 'c"
  cache_put :: "string \<Rightarrow> transaction \<Rightarrow> 'c \<Rightarrow> 'c"

record ('u, 'a, 'c) ix_env =
  ie_lib :: "('u, 'a) bitcoin_lib"
  ie_cache :: "'c cache_ops"
  txid_order :: "string \<Rightarrow> nat"
  outpoint_order :: "string \<times> u32 \<Rightarrow> nat"
  fetched_order :: "string \<Rightarrow> nat"
  datetime_from_timestamp :: "int \<Rightarrow> datetime option"

record indexer_config =
  cf_network :: network
  cf_rpc_user :: string
  cf_rpc_password :: string
  cf_rpc_host :: string
  cf_connection_type :: string
  cf_socket_path :: string
  cf_start_height :: i32
  cf_max_blocks_per_batch :: i32
  cf_batch_size :: nat

record ('a, 'n, 'c) indexer =
  ix_rpc :: "'n rpc_client"
  ix_network :: network
  ix_last_processed_height :: i32
  ix_start_height :: i32
  ix_max_blocks_per_batch :: i32
  ix_watched :: "'a set"
  ix_cache :: 'c

text \<open>
  \<open>connect_core\<close> and \<open>connect_external\<close> build the clients from url and credentials; an empty
  user or password is none.
\<close>

record 'n connector =
  connect_core :: "string \<Rightarrow> (string \<times> string) option \<Rightarrow> ('n core_client, string) outcome"
  connect_external :: "string \<Rightarrow> string option \<Rightarrow> string option \<Rightarrow> nat \<Rightarrow> 'n external_client"

definition non_empty :: "string \<Rightarrow> string option" where
  "non_empty s = (if s = [] then None else Some s)"

definition make_client :: "'n connector \<Rightarrow> indexer_config \<Rightarrow> 'n rpc_client ires" where
  "make_client N cf =
     (if cf_connection_type cf = ''bitcoincore'' then
        and_then (map_err RpcClientError (connect_core N (cf_rpc_host cf)
            (if cf_rpc_user cf = [] \<and> cf_rpc_password cf = [] then None
             else Some (cf_rpc_user cf, cf_rpc_password cf))))
          (\<lambda>C. Ok (Core C))
      else if cf_connection_type cf = ''external'' then
        Ok (External (connect_external N (cf_rpc_host cf) (non_empty (cf_rpc_user cf))
              (non_empty (cf_rpc_password cf)) (cf_batch_size cf)))
      else Err (InvalidConfiguration (''Unknown connection type: '' @ cf_connection_type cf)))"

definition indexer_new :: "('u, 'a, 'c) ix_env \<Rightarrow> 'n connector \<Rightarrow> indexer_config \<Rightarrow> 'n
    \<Rightarrow> ('a, 'n, 'c) indexer ires \<times> 'n" where
  "indexer_new I N cf =
     then_do (lift_result (make_client N cf)) (\<lambda>rpc.
     then_do (\<lambda>n. case get_block_count rpc n of
                (r, n') \<Rightarrow> (map_err (\<lambda>e. RpcClientError (show_indexer_error e)) r, n')) (\<lambda>count.
       let chain_height = as_i32 count
       in lift_result
         (if cf_start_height cf < 0 \<or> chain_height < cf_start_height cf
          then Err (InvalidStartBlock (''Start block '' @ show_int (cf_start_height cf)
                 @ '' is invalid. Chain height is '' @ show_int chain_height))
          else Ok \<lparr>ix_rpc = rpc, ix_network = cf_network cf,
                   ix_last_processed_height = cf_start_height cf - 1,
                   ix_start_height = cf_start_height cf,
                   ix_max_blocks_per_batch = cf_max_blocks_per_batch cf, ix_watched = {},
                   ix_cache = cache_new (ie_cache I) 100000\<rparr>)))"

section \<open>Fetching\<close>

text \<open>
  Over bitcoincore-rpc one call per key, all awaited together; failed calls are dropped.
\<close>

fun fetch_each :: "('k \<Rightarrow> 'n \<Rightarrow> 'v option ires \<times> 'n) \<Rightarrow> 'k list \<Rightarrow> ('k \<times> 'v) list \<Rightarrow> 'n
    \<Rightarrow> ('k \<times> 'v) list ires \<times> 'n" where
  "fetch_each call [] acc n = (Ok acc, n)"
| "fetch_each call (k # ks) acc n =
     (case call k n of
        (Panic, n') \<Rightarrow> (Panic, n')
      | (Ok (Some v), n') \<Rightarrow> fetch_each call ks (AList.update k v acc) n'
      | (_, n') \<Rightarrow> fetch_each call ks acc n')"

fun get_transactions_batch :: "'n rpc_client \<Rightarrow> string list \<Rightarrow> 'n \<Rightarrow> (string \<times> transaction) list ires \<times> 'n" where
  "get_transactions_batch (External X) ts n = get_raw_transactions_batch X ts n"
| "get_transactions_batch (Core C) ts n =
     fetch_each (\<lambda>t. then_do (get_raw_transaction (Core C) t None) (\<lambda>tx. lift_result (Ok (Some tx)))) ts [] n"

fun get_utxo_batch :: "'n rpc_client \<Rightarrow> (string \<times> u32) list \<Rightarrow> 'n
    \<Rightarrow> ((string \<times> u32) \<times> tx_out_result) list ires \<times> 'n" where
  "get_utxo_batch (External X) os n = get_tx_outs_batch X os n"
| "get_utxo_batch (Core C) os n = fetch_each (\<lambda>(t, v). get_tx_out (Core C) t v None) os [] n"

section \<open>One transaction\<close>

text \<open>\<^verbatim>\<open>TransactionProcessingContext\<close>.\<close>

record 'a tx_ctx =
  tc_height :: i32
  tc_block_time :: datetime
  tc_watch_set :: "'a set"
  tc_tx_map :: "string \<Rightarrow> transaction option"
  tc_utxo_map :: "string \<times> u32 \<Rightarrow> tx_out_result option"
  tc_network :: network

text \<open>\<^verbatim>\<open>tx.output.get(i)\<close>.\<close>

definition nth_opt :: "'b list \<Rightarrow> nat \<Rightarrow> 'b option" where
  "nth_opt xs i = (if i < length xs then Some (xs ! i) else None)"

definition watched_script :: "('u, 'a) bitcoin_lib \<Rightarrow> 'a tx_ctx \<Rightarrow> string \<Rightarrow> 'a option" where
  "watched_script L ctx script =
     (case addr_from_script L script (tc_network ctx) of
        Some a \<Rightarrow> if a \<in> tc_watch_set ctx then Some a else None
      | None \<Rightarrow> None)"

definition created_update :: "('u, 'a) bitcoin_lib \<Rightarrow> 'a tx_ctx \<Rightarrow> transaction \<Rightarrow> nat \<Rightarrow> txout \<Rightarrow> 'a \<Rightarrow> utxo" where
  "created_update L ctx tx i o' a =
     \<lparr>utxo_id = outpoint_key (compute_txid L tx) (int i), address = addr_to_string L a, public_key = None,
      txid = compute_txid L tx, vout = as_i32 (int i), amount = wrap_i64 (txo_value o'),
      script_pub_key = hex_encode L (script_pubkey o'),
      script_type = determine_script_type L (script_pubkey o'), created_at = tc_block_time ctx,
      block_height = tc_height ctx, spent_txid = None, spent_at = None, spent_block = None\<rparr>"

definition spent_update :: "('u, 'a) bitcoin_lib \<Rightarrow> 'a tx_ctx \<Rightarrow> transaction \<Rightarrow> txin \<Rightarrow> u64 \<Rightarrow> string \<Rightarrow> 'a \<Rightarrow> utxo" where
  "spent_update L ctx tx input value script a =
     \<lparr>utxo_id = outpoint_key (prev_txid input) (prev_vout input), address = addr_to_string L a,
      public_key = extract_public_key L (witness input), txid = prev_txid input,
      vout = as_i32 (prev_vout input), amount = wrap_i64 value, script_pub_key = hex_encode L script,
      script_type = determine_script_type L script, created_at = tc_block_time ctx,
      block_height = tc_height ctx, spent_txid = Some (compute_txid L tx),
      spent_at = Some (tc_block_time ctx), spent_block = Some (tc_height ctx)\<rparr>"

definition output_updates :: "('u, 'a) bitcoin_lib \<Rightarrow> 'a tx_ctx \<Rightarrow> transaction \<Rightarrow> utxo list" where
  "output_updates L ctx tx =
     List.map_filter (\<lambda>(i, o'). map_option (created_update L ctx tx i o') (watched_script L ctx (script_pubkey o')))
       (enumerate 0 (tx_output tx))"

text \<open>The spent output, looked up in the previous transaction first, then in the fetched outputs.\<close>

definition spend_by_transaction :: "('u, 'a) bitcoin_lib \<Rightarrow> 'a tx_ctx \<Rightarrow> transaction \<Rightarrow> txin \<Rightarrow> utxo option" where
  "spend_by_transaction L ctx tx input =
     Option.bind (tc_tx_map ctx (prev_txid input)) (\<lambda>ptx.
     Option.bind (nth_opt (tx_output ptx) (nat (prev_vout input))) (\<lambda>o'.
     map_option (spent_update L ctx tx input (txo_value o') (script_pubkey o'))
       (watched_script L ctx (script_pubkey o'))))"

definition spend_by_tx_out :: "('u, 'a) bitcoin_lib \<Rightarrow> 'a tx_ctx \<Rightarrow> transaction \<Rightarrow> txin \<Rightarrow> utxo option" where
  "spend_by_tx_out L ctx tx input =
     Option.bind (tc_utxo_map ctx (prev_txid input, prev_vout input)) (\<lambda>o'.
     Option.bind (hex_decode L (gto_hex o')) (\<lambda>script.
     map_option (spent_update L ctx tx input (gto_value o') script) (watched_script L ctx script)))"

definition input_update :: "('u, 'a) bitcoin_lib \<Rightarrow> 'a tx_ctx \<Rightarrow> transaction \<Rightarrow> txin \<Rightarrow> utxo option" where
  "input_update L ctx tx input =
     (if outpoint_is_null L (prev_txid input) (prev_vout input) then None
      else case spend_by_transaction L ctx tx input of
          Some u \<Rightarrow> Some u
        | None \<Rightarrow> spend_by_tx_out L ctx tx input)"

definition process_transaction :: "('u, 'a) bitcoin_lib \<Rightarrow> 'a tx_ctx \<Rightarrow> bool \<Rightarrow> transaction \<Rightarrow> utxo list" where
  "process_transaction L ctx is_coinbase tx =
     output_updates L ctx tx
     @ (if is_coinbase then [] else List.map_filter (input_update L ctx tx) (tx_input tx))"

text \<open>The parallel iterator collects in the order of the slice.\<close>

definition process_transaction_chunk :: "('u, 'a) bitcoin_lib \<Rightarrow> transaction list \<Rightarrow> nat \<Rightarrow> 'a tx_ctx \<Rightarrow> utxo list" where
  "process_transaction_chunk L chunk start_index ctx =
     concat (map (\<lambda>(i, tx). process_transaction L ctx (start_index + i = 0) tx) (enumerate 0 chunk))"

section \<open>A block\<close>

record 'c scan =
  sc_cache :: 'c
  sc_needed :: "string list"
  sc_outpoints :: "(string \<times> u32) list"
  sc_cached :: "(string \<times> transaction) list"

definition scan_input :: "('u, 'a, 'c) ix_env \<Rightarrow> txin \<Rightarrow> 'c scan \<Rightarrow> 'c scan" where
  "scan_input I input sc =
     (let t = prev_txid input; v = prev_vout input
      in if outpoint_is_null (ie_lib I) t v then sc
         else case cache_get (ie_cache I) t (sc_cache sc) of
             (Some ptx, c) \<Rightarrow> sc\<lparr>sc_cache := c, sc_cached := AList.update t ptx (sc_cached sc)\<rparr>
           | (None, c) \<Rightarrow> sc\<lparr>sc_cache := c, sc_needed := List.insert t (sc_needed sc),
                             sc_outpoints := List.insert (t, v) (sc_outpoints sc)\<rparr>)"

definition scan_block :: "('u, 'a, 'c) ix_env \<Rightarrow> block \<Rightarrow> 'c \<Rightarrow> 'c scan" where
  "scan_block I b c =
     fold (scan_input I) (concat (map tx_input (drop 1 (txdata b))))
       \<lparr>sc_cache = c, sc_needed = [], sc_outpoints = [], sc_cached = []\<rparr>"

definition missing_utxos :: "(string \<times> transaction) list \<Rightarrow> (string \<times> u32) list \<Rightarrow> (string \<times> u32) list" where
  "missing_utxos all_txs os =
     filter (\<lambda>(t, v). case map_of all_txs t of
         Some tx \<Rightarrow> nth_opt (tx_output tx) (nat v) = None | None \<Rightarrow> True) os"

definition process_chunks :: "('u, 'a) bitcoin_lib \<Rightarrow> 'a tx_ctx \<Rightarrow> transaction list \<Rightarrow> utxo list" where
  "process_chunks L ctx txs =
     concat (map (\<lambda>(chunk_index, chunk). process_transaction_chunk L chunk (chunk_index * 500) ctx)
       (enumerate 0 (chunks 500 txs)))"

definition process_transactions :: "('u, 'a, 'c) ix_env \<Rightarrow> ('a, 'n, 'c) indexer \<Rightarrow> block \<Rightarrow> i32 \<Rightarrow> datetime
    \<Rightarrow> 'c \<times> 'n \<Rightarrow> utxo list ires \<times> 'c \<times> 'n" where
  "process_transactions I ix b height time cn =
     (case cn of (c, n) \<Rightarrow>
      if ix_watched ix = {} then (Ok [], c, n)
      else let sc = scan_block I b c
      in case get_transactions_batch (ix_rpc ix) (sort_key (txid_order I) (sc_needed sc)) n of
          (Err e, n1) \<Rightarrow> (Err e, sc_cache sc, n1)
        | (Panic, n1) \<Rightarrow> (Panic, sc_cache sc, n1)
        | (Ok fetched, n1) \<Rightarrow>
           (let c1 = fold (\<lambda>(t, tx). cache_put (ie_cache I) t tx)
                       (sort_key (\<lambda>e. fetched_order I (fst e)) fetched) (sc_cache sc);
                all_txs = fetched @ sc_cached sc;
                missing = missing_utxos all_txs (sort_key (outpoint_order I) (sc_outpoints sc))
            in case get_utxo_batch (ix_rpc ix) missing n1 of
                (Err e, n2) \<Rightarrow> (Err e, c1, n2)
              | (Panic, n2) \<Rightarrow> (Panic, c1, n2)
              | (Ok utxo_map, n2) \<Rightarrow>
                 (Ok (process_chunks (ie_lib I)
                    \<lparr>tc_height = height, tc_block_time = time, tc_watch_set = ix_watched ix,
                     tc_tx_map = map_of all_txs, tc_utxo_map = map_of utxo_map,
                     tc_network = ix_network ix\<rparr> (txdata b)), c1, n2)))"

definition get_block_data :: "('u, 'a, 'c) ix_env \<Rightarrow> ('a, 'n, 'c) indexer \<Rightarrow> string \<Rightarrow> 'c \<times> 'n
    \<Rightarrow> block_update ires \<times> 'c \<times> 'n" where
  "get_block_data I ix block_hash =
     then_do (\<lambda>(c, n). case get_block (ix_rpc ix) block_hash n of (r, n') \<Rightarrow> (r, c, n')) (\<lambda>b.
     then_do (\<lambda>(c, n). case get_block_info (ix_rpc ix) block_hash n of (r, n') \<Rightarrow> (r, c, n')) (\<lambda>info.
     then_do (lift_result (case datetime_from_timestamp I (header_time b) of
         Some t \<Rightarrow> Ok t | None \<Rightarrow> Err InvalidTimestamp)) (\<lambda>timestamp.
     then_do (process_transactions I ix b (as_i32 info) timestamp) (\<lambda>updates.
       lift_result (Ok \<lparr>bu_height = as_i32 info, bu_hash = block_hash, bu_timestamp = timestamp,
                       utxo_updates = updates\<rparr>)))))"

end
