(* ===== verification/Indexer_Correct.thy ===== *)
theory Indexer_Correct
  imports Indexer
begin

text \<open>
  Correctness of the indexer's block processing: neither the division into chunks, nor the
  transaction cache, nor the batching of requests is visible in the updates of a block, and
  the updates are those of the block's watched outputs and spends.
\<close>

section \<open>Contracts of the cache and of the node\<close>

text \<open>
  A cache answers with what it holds and holds only what was put; it may forget at any
  \<open>cache_put\<close>.
\<close>

locale tx_cache =
  fixes K :: "'c cache_ops" and content :: "'c \<Rightarrow> string \<Rightarrow> transaction option"
  assumes get_content: "cache_get K t c = (r, c') \<Longrightarrow> r = content c t \<and> content c' = content c"
    and put_content: "content (cache_put K t tx c) t' = Some tx' \<Longrightarrow>
      (t' = t \<and> tx' = tx) \<or> content c t' = Some tx'"
    and new_content: "content (cache_new K n) t = None"

text \<open>The fetches the indexer makes, over a node whose transactions are \<open>tx_of\<close>.\<close>

locale tx_source = tx_cache K content
  for K :: "'c cache_ops" and content :: "'c \<Rightarrow> string \<Rightarrow> transaction option" +
  fixes fetch :: "string list \<Rightarrow> 'n \<Rightarrow> (string \<times> transaction) list ires \<times> 'n"
    and fetch_outs :: "(string \<times> u32) list \<Rightarrow> 'n \<Rightarrow> ((string \<times> u32) \<times> tx_out_result) list ires \<times> 'n"
    and tx_of :: "string \<Rightarrow> transaction option"
    and healthy :: bool
  assumes fetch_complete: "healthy \<Longrightarrow>
      \<exists>m n'. fetch ts n = (Ok m, n') \<and> distinct (map fst m) \<and> (\<forall>t. map_of m t = (if t \<in> set ts then tx_of t else None))"
    and fetch_no_outs: "healthy \<Longrightarrow> fetch_outs [] n = (Ok [], n)"

section \<open>A least-recently-used cache\<close>

type_synonym lru = "nat \<times> (string \<times> transaction) list"

definition lru_get :: "string \<Rightarrow> lru \<Rightarrow> transaction option \<times> lru" where
  "lru_get t c =
     (case map_of (snd c) t of
        None \<Rightarrow> (None, c)
      | Some tx \<Rightarrow> (Some tx, fst c, (t, tx) # filter (\<lambda>e. fst e \<noteq> t) (snd c)))"

definition lru_put :: "string \<Rightarrow> transaction \<Rightarrow> lru \<Rightarrow> lru" where
  "lru_put t tx c = (fst c, take (fst c) ((t, tx) # filter (\<lambda>e. fst e \<noteq> t) (snd c)))"

definition lru_ops :: "lru cache_ops" where
  "lru_ops = \<lparr>cache_new = (\<lambda>n. (n, [])), cache_get = lru_get, cache_put = lru_put\<rparr>"

definition lru_content :: "lru \<Rightarrow> string \<Rightarrow> transaction option" where
  "lru_content c = map_of (snd c)"

lemma map_of_without: "map_of (filter (\<lambda>e. fst e \<noteq> t) es) t' = (if t' = t then None else map_of es t')"
  by (induction es) auto

lemma map_of_take: "map_of (take n es) t = Some v \<Longrightarrow> map_of es t = Some v"
proof -
  assume "map_of (take n es) t = Some v"
  then have "(map_of (drop n es) ++ map_of (take n es)) t = Some v" by (rule map_add_find_right)
  then show ?thesis by (simp flip: map_of_append)
qed

interpretation lru: tx_cache lru_ops lru_content
proof
  fix t c r c' assume "cache_get lru_ops t c = (r, c')"
  then show "r = lru_content c t \<and> lru_content c' = lru_content c"
    by (auto simp: lru_ops_def lru_get_def lru_content_def map_of_without fun_eq_iff split: option.splits)
next
  fix t tx c t' tx' assume "lru_content (cache_put lru_ops t tx c) t' = Some tx'"
  then have "map_of ((t, tx) # filter (\<lambda>e. fst e \<noteq> t) (snd c)) t' = Some tx'"
    unfolding lru_ops_def lru_put_def lru_content_def by (auto dest: map_of_take)
  then show "(t' = t \<and> tx' = tx) \<or> lru_content c t' = Some tx'"
    by (auto simp: lru_content_def map_of_without split: if_splits)
next
  fix n t show "lru_content (cache_new lru_ops n) t = None"
    by (simp add: lru_ops_def lru_content_def)
qed

section \<open>Chunks of transactions\<close>

lemma process_transaction_chunk_shift:
  "process_transaction_chunk L chunk s ctx =
     concat (map (\<lambda>(i, tx). process_transaction L ctx (i = 0) tx) (enumerate s chunk))"
  by (induction chunk arbitrary: s rule: rev_induct)
    (auto simp: process_transaction_chunk_def enumerate_append_eq)

lemma process_transaction_chunk_append:
  "process_transaction_chunk L (xs @ ys) s ctx =
     process_transaction_chunk L xs s ctx @ process_transaction_chunk L ys (s + length xs) ctx"
  by (simp add: process_transaction_chunk_shift enumerate_append_eq)

lemma process_transaction_chunk_Nil [simp]: "process_transaction_chunk L [] s ctx = []"
  by (simp add: process_transaction_chunk_def)

lemma process_chunks_from:
  "concat (map (\<lambda>(k, chunk). process_transaction_chunk L chunk (k * 500) ctx) (enumerate k (chunks 500 txs)))
     = process_transaction_chunk L txs (k * 500) ctx"
proof (induction "length txs" arbitrary: txs k rule: less_induct)
  case less
  show ?case
  proof (cases "txs = []")
    case False
    have "process_transaction_chunk L txs (k * 500) ctx
        = process_transaction_chunk L (take 500 txs @ drop 500 txs) (k * 500) ctx" by simp
    also have "\<dots> = process_transaction_chunk L (take 500 txs) (k * 500) ctx
        @ process_transaction_chunk L (drop 500 txs) (Suc k * 500) ctx"
      unfolding process_transaction_chunk_append by (cases "length txs \<le> 500") (auto simp: min_def add.commute)
    finally show ?thesis
      using less [of "drop 500 txs" "Suc k"] False by (simp add: chunks_step)
  qed simp
qed

text \<open>
  The division of a block into chunks of 500 transactions, processed with their start
  index, is invisible: the updates are those of the whole block processed at once, in order,
  with only its very first transaction treated as the coinbase.
\<close>

lemma chunks_invisible:
  "process_chunks L ctx txs = process_transaction_chunk L txs 0 ctx"
  using process_chunks_from [of L ctx 0 txs] by (simp add: process_chunks_def)

section \<open>Updates and the lookup of previous transactions\<close>

definition same_block :: "'a tx_ctx \<Rightarrow> 'a tx_ctx \<Rightarrow> bool" where
  "same_block ctx ctx' \<longleftrightarrow> tc_height ctx = tc_height ctx' \<and> tc_block_time ctx = tc_block_time ctx'
     \<and> tc_watch_set ctx = tc_watch_set ctx' \<and> tc_network ctx = tc_network ctx'
     \<and> tc_utxo_map ctx = tc_utxo_map ctx'"

lemma same_block_parts:
  assumes "same_block ctx ctx'"
  shows "watched_script L ctx = watched_script L ctx'" "spent_update L ctx = spent_update L ctx'"
    "created_update L ctx = created_update L ctx'" "tc_utxo_map ctx = tc_utxo_map ctx'"
proof -
  note eqs = assms [unfolded same_block_def]
  show "watched_script L ctx = watched_script L ctx'" by (rule ext) (simp only: watched_script_def eqs)
  show "spent_update L ctx = spent_update L ctx'" by (intro ext) (simp only: spent_update_def eqs)
  show "created_update L ctx = created_update L ctx'" by (intro ext) (simp only: created_update_def eqs)
  show "tc_utxo_map ctx = tc_utxo_map ctx'" by (simp only: eqs)
qed

lemma input_update_cong:
  assumes "same_block ctx ctx'" and "\<not> outpoint_is_null L (prev_txid input) (prev_vout input) \<Longrightarrow>
      tc_tx_map ctx (prev_txid input) = tc_tx_map ctx' (prev_txid input)"
  shows "input_update L ctx tx input = input_update L ctx' tx input"
proof -
  have "spend_by_tx_out L ctx tx input = spend_by_tx_out L ctx' tx input"
    by (simp only: spend_by_tx_out_def same_block_parts [OF assms(1)])
  moreover have "spend_by_transaction L ctx tx input = spend_by_transaction L ctx' tx input"
    if "\<not> outpoint_is_null L (prev_txid input) (prev_vout input)"
    by (simp only: spend_by_transaction_def assms(2) [OF that] same_block_parts [OF assms(1)])
  ultimately show ?thesis by (simp add: input_update_def split: option.split)
qed

lemma output_updates_cong: "same_block ctx ctx' \<Longrightarrow> output_updates L ctx tx = output_updates L ctx' tx"
  by (simp only: output_updates_def same_block_parts)

text \<open>What the block's updates are, given the transactions \<open>f\<close> of the chain.\<close>

definition block_ctx :: "network \<Rightarrow> 'a set \<Rightarrow> (string \<Rightarrow> transaction option) \<Rightarrow> i32 \<Rightarrow> datetime \<Rightarrow> 'a tx_ctx" where
  "block_ctx N W f height time =
     \<lparr>tc_height = height, tc_block_time = time, tc_watch_set = W, tc_tx_map = f,
      tc_utxo_map = (\<lambda>_. None), tc_network = N\<rparr>"

definition block_updates :: "('u, 'a) bitcoin_lib \<Rightarrow> network \<Rightarrow> 'a set \<Rightarrow> (string \<Rightarrow> transaction option)
    \<Rightarrow> i32 \<Rightarrow> datetime \<Rightarrow> block \<Rightarrow> utxo list" where
  "block_updates L N W f height time b =
     process_transaction_chunk L (txdata b) 0 (block_ctx N W f height time)"

text \<open>Every input but the coinbase's spends an existing output of a transaction of the chain.\<close>

definition inputs_known :: "('u, 'a) bitcoin_lib \<Rightarrow> (string \<Rightarrow> transaction option) \<Rightarrow> block \<Rightarrow> bool" where
  "inputs_known L f b \<longleftrightarrow>
     (\<forall>tx \<in> set (drop 1 (txdata b)). \<forall>input \<in> set (tx_input tx).
        \<not> outpoint_is_null L (prev_txid input) (prev_vout input) \<longrightarrow>
        (\<exists>ptx. f (prev_txid input) = Some ptx \<and> nat (prev_vout input) < length (tx_output ptx)))"

lemma map_filter_cong: "(\<And>x. x \<in> set xs \<Longrightarrow> f x = g x) \<Longrightarrow> List.map_filter f xs = List.map_filter g xs"
  by (simp add: List.map_filter_def cong: map_cong filter_cong)

lemma same_block_ctx: "same_block (block_ctx N W g height time) (block_ctx N W f height time)"
  by (simp add: same_block_def block_ctx_def)

lemma block_updates_lookup:
  assumes "\<And>tx input. tx \<in> set (drop 1 (txdata b)) \<Longrightarrow> input \<in> set (tx_input tx) \<Longrightarrow>
      \<not> outpoint_is_null L (prev_txid input) (prev_vout input) \<Longrightarrow> g (prev_txid input) = f (prev_txid input)"
  shows "process_transaction_chunk L (txdata b) 0 (block_ctx N W g height time)
     = block_updates L N W f height time b"
proof -
  note out = output_updates_cong [OF same_block_ctx [of N W g height time f], of L]
  have "process_transaction L (block_ctx N W g height time) (i = 0) tx
      = process_transaction L (block_ctx N W f height time) (i = 0) tx"
    if "(i, tx) \<in> set (enumerate 0 (txdata b))" for i tx
  proof (cases "i = 0")
    case True
    then show ?thesis by (simp add: process_transaction_def out)
  next
    case False
    then obtain j where "i = Suc j" by (cases i) auto
    moreover have "i < length (txdata b)" "txdata b ! i = tx"
      using that by (simp_all add: in_set_enumerate_eq)
    ultimately have "tx \<in> set (drop 1 (txdata b))"
      by (auto simp: in_set_conv_nth intro!: exI [of _ j])
    then have "List.map_filter (input_update L (block_ctx N W g height time) tx) (tx_input tx)
        = List.map_filter (input_update L (block_ctx N W f height time) tx) (tx_input tx)"
      using assms by (intro map_filter_cong input_update_cong [OF same_block_ctx]) (auto simp: block_ctx_def)
    then show ?thesis
      using False by (simp add: process_transaction_def out)
  qed
  then show ?thesis
    unfolding block_updates_def process_transaction_chunk_shift by (intro arg_cong [where f = concat] map_cong) auto
qed

lemma no_watch_no_updates:
  assumes "tc_watch_set ctx = {}"
  shows "process_transaction_chunk L txs s ctx = []"
proof -
  have W: "watched_script L ctx script = None" for script
    using assms by (simp add: watched_script_def split: option.splits)
  have "input_update L ctx tx input = None" for tx input
    by (simp add: input_update_def spend_by_transaction_def spend_by_tx_out_def W split: Option.bind_splits)
  then have "process_transaction L ctx c tx = []" for c tx
    by (simp add: process_transaction_def output_updates_def W List.map_filter_def split_def)
  then show ?thesis by (simp add: process_transaction_chunk_def split_def)
qed

section \<open>Scanning the inputs\<close>

definition live_input :: "('u, 'a) bitcoin_lib \<Rightarrow> txin \<Rightarrow> bool" where
  "live_input L input \<longleftrightarrow> \<not> outpoint_is_null L (prev_txid input) (prev_vout input)"

context tx_cache
begin

text \<open>What one input and then all inputs of a block leave in the scan.\<close>

lemma scan_input_facts:
  assumes "ie_cache I = K" and "\<forall>t tx. content (sc_cache sc) t = Some tx \<longrightarrow> f t = Some tx"
    and "\<forall>t tx. map_of (sc_cached sc) t = Some tx \<longrightarrow> f t = Some tx"
  shows "content (sc_cache (scan_input I i sc)) = content (sc_cache sc)"
    and "\<forall>t tx. map_of (sc_cached (scan_input I i sc)) t = Some tx \<longrightarrow> f t = Some tx"
    and "live_input (ie_lib I) i \<Longrightarrow> prev_txid i \<in> set (sc_needed (scan_input I i sc))
          \<union> dom (map_of (sc_cached (scan_input I i sc)))"
    and "set (sc_needed sc) \<union> dom (map_of (sc_cached sc))
          \<subseteq> set (sc_needed (scan_input I i sc)) \<union> dom (map_of (sc_cached (scan_input I i sc)))"
    and "set (sc_outpoints (scan_input I i sc)) \<subseteq> set (sc_outpoints sc)
          \<union> (if live_input (ie_lib I) i then {(prev_txid i, prev_vout i)} else {})"
proof -
  let ?s' = "scan_input I i sc"
  obtain r c where g: "cache_get K (prev_txid i) (sc_cache sc) = (r, c)" by force
  then have r: "r = content (sc_cache sc) (prev_txid i)" "content c = content (sc_cache sc)"
    using get_content by blast+
  consider (null) "\<not> live_input (ie_lib I) i" "?s' = sc"
    | (hit) tx where "content (sc_cache sc) (prev_txid i) = Some tx" "live_input (ie_lib I) i"
        "?s' = sc\<lparr>sc_cache := c, sc_cached := AList.update (prev_txid i) tx (sc_cached sc)\<rparr>"
    | (miss) "live_input (ie_lib I) i"
        "?s' = sc\<lparr>sc_cache := c, sc_needed := List.insert (prev_txid i) (sc_needed sc),
                 sc_outpoints := List.insert (prev_txid i, prev_vout i) (sc_outpoints sc)\<rparr>"
    using g r(1) [symmetric] assms(1) by (cases r; cases "live_input (ie_lib I) i") (auto simp: scan_input_def live_input_def Let_def)
  note cases = this
  show "content (sc_cache ?s') = content (sc_cache sc)"
    by (rule cases) (simp_all add: r(2))
  show "\<forall>t tx. map_of (sc_cached ?s') t = Some tx \<longrightarrow> f t = Some tx"
    by (rule cases) (use assms(2,3) in \<open>simp_all add: alist_lookup_update\<close>)
  show "live_input (ie_lib I) i \<Longrightarrow> prev_txid i \<in> set (sc_needed ?s') \<union> dom (map_of (sc_cached ?s'))"
    by (rule cases) (simp_all add: alist_lookup_update)
  show "set (sc_needed sc) \<union> dom (map_of (sc_cached sc)) \<subseteq> set (sc_needed ?s') \<union> dom (map_of (sc_cached ?s'))"
    by (rule cases) (auto simp: alist_lookup_update)
  show "set (sc_outpoints ?s') \<subseteq> set (sc_outpoints sc)
          \<union> (if live_input (ie_lib I) i then {(prev_txid i, prev_vout i)} else {})"
    by (rule cases) auto
qed

lemma scan_inputs_facts:
  assumes "ie_cache I = K" and "\<forall>t tx. content (sc_cache sc) t = Some tx \<longrightarrow> f t = Some tx"
    and "\<forall>t tx. map_of (sc_cached sc) t = Some tx \<longrightarrow> f t = Some tx"
  shows "content (sc_cache (fold (scan_input I) is sc)) = content (sc_cache sc)
     \<and> (\<forall>t tx. map_of (sc_cached (fold (scan_input I) is sc)) t = Some tx \<longrightarrow> f t = Some tx)
     \<and> set (sc_needed sc) \<union> dom (map_of (sc_cached sc)) \<union> prev_txid ` {i \<in> set is. live_input (ie_lib I) i}
         \<subseteq> set (sc_needed (fold (scan_input I) is sc)) \<union> dom (map_of (sc_cached (fold (scan_input I) is sc)))
     \<and> set (sc_outpoints (fold (scan_input I) is sc)) \<subseteq> set (sc_outpoints sc)
         \<union> (\<lambda>i. (prev_txid i, prev_vout i)) ` {i \<in> set is. live_input (ie_lib I) i}"
  using assms(2,3)
proof (induction "is" arbitrary: sc)
  case Nil
  then show ?case by simp
next
  case (Cons i "is")
  note step = scan_input_facts [OF assms(1) Cons.prems, of i]
  have c: "\<forall>t tx. content (sc_cache (scan_input I i sc)) t = Some tx \<longrightarrow> f t = Some tx"
    unfolding step(1) by (rule Cons.prems(1))
  note IH = Cons.IH [OF c step(2)]
  have here: "prev_txid ` {j \<in> set (i # is). live_input (ie_lib I) j}
      \<subseteq> set (sc_needed (scan_input I i sc)) \<union> dom (map_of (sc_cached (scan_input I i sc)))
        \<union> prev_txid ` {j \<in> set is. live_input (ie_lib I) j}"
    using step(3) by auto
  have there: "set (sc_outpoints (scan_input I i sc)) \<subseteq> set (sc_outpoints sc)
      \<union> (\<lambda>j. (prev_txid j, prev_vout j)) ` {j \<in> set (i # is). live_input (ie_lib I) j}"
    using step(5) by (auto split: if_splits)
  have rest: "(\<lambda>j. (prev_txid j, prev_vout j)) ` {j \<in> set is. live_input (ie_lib I) j}
      \<subseteq> (\<lambda>j. (prev_txid j, prev_vout j)) ` {j \<in> set (i # is). live_input (ie_lib I) j}"
    by auto
  have up: "set (sc_needed sc) \<union> dom (map_of (sc_cached sc)) \<union> prev_txid ` {j \<in> set (i # is). live_input (ie_lib I) j}
      \<subseteq> set (sc_needed (scan_input I i sc)) \<union> dom (map_of (sc_cached (scan_input I i sc)))
        \<union> prev_txid ` {j \<in> set is. live_input (ie_lib I) j}"
    using step(4) here by (simp add: le_supI1)
  have down: "set (sc_outpoints (scan_input I i sc))
      \<union> (\<lambda>j. (prev_txid j, prev_vout j)) ` {j \<in> set is. live_input (ie_lib I) j}
      \<subseteq> set (sc_outpoints sc) \<union> (\<lambda>j. (prev_txid j, prev_vout j)) ` {j \<in> set (i # is). live_input (ie_lib I) j}"
    using there rest by (meson Un_least le_supI2)
  show ?case
    unfolding fold_simps
  proof (intro conjI)
    show "content (sc_cache (fold (scan_input I) is (scan_input I i sc))) = content (sc_cache sc)"
      using IH [THEN conjunct1] step(1) by simp
    show "\<forall>t tx. map_of (sc_cached (fold (scan_input I) is (scan_input I i sc))) t = Some tx \<longrightarrow> f t = Some tx"
      using IH [THEN conjunct2, THEN conjunct1] .
  qed (rule order_trans [OF up IH [THEN conjunct2, THEN conjunct2, THEN conjunct1]],
      rule order_trans [OF IH [THEN conjunct2, THEN conjunct2, THEN conjunct2] down])
qed

lemma put_all_sound:
  assumes "\<forall>t tx. content c t = Some tx \<longrightarrow> f t = Some tx" and "\<forall>(t, tx) \<in> set es. f t = Some tx"
  shows "content (fold (\<lambda>(t, tx). cache_put K t tx) es c) t = Some tx \<Longrightarrow> f t = Some tx"
  using assms
proof (induction es arbitrary: c)
  case Nil
  then show ?case by simp
next
  case (Cons e es)
  obtain t' tx' where e: "e = (t', tx')" by (cases e)
  have "\<forall>t tx. content (cache_put K t' tx' c) t = Some tx \<longrightarrow> f t = Some tx"
    using Cons.prems(2,3) by (auto simp: e dest!: put_content)
  with Cons.IH [OF _ this] Cons.prems show ?case by (simp add: e)
qed

end

section \<open>A block over a complete node\<close>

lemma inputs_of_block:
  "inputs_known L f b \<Longrightarrow> i \<in> set (concat (map tx_input (drop 1 (txdata b)))) \<Longrightarrow> live_input L i \<Longrightarrow>
   \<exists>ptx. f (prev_txid i) = Some ptx \<and> nat (prev_vout i) < length (tx_output ptx)"
  by (auto simp: inputs_known_def live_input_def)

context tx_source
begin

lemma process_exact:
  assumes H: "healthy" and K: "ie_cache I = K"
    and R: "get_transactions_batch (ix_rpc ix) = fetch" "get_utxo_batch (ix_rpc ix) = fetch_outs"
    and C: "\<forall>t tx. content c t = Some tx \<longrightarrow> tx_of t = Some tx"
    and B: "inputs_known (ie_lib I) tx_of b"
  shows "\<exists>c' n'. process_transactions I ix b height time (c, n)
       = (Ok (block_updates (ie_lib I) (ix_network ix) (ix_watched ix) tx_of height time b), c', n')
     \<and> (\<forall>t tx. content c' t = Some tx \<longrightarrow> tx_of t = Some tx)"
proof (cases "ix_watched ix = {}")
  case True
  then have "block_updates (ie_lib I) (ix_network ix) (ix_watched ix) tx_of height time b = []"
    unfolding block_updates_def by (intro no_watch_no_updates) (simp add: block_ctx_def)
  with True C show ?thesis by (simp add: process_transactions_def)
next
  case False
  let ?L = "ie_lib I" and ?sc = "scan_block I b c" and ?ins = "concat (map tx_input (drop 1 (txdata b)))"
  have S: "content (sc_cache ?sc) = content c"
    "\<forall>t tx. map_of (sc_cached ?sc) t = Some tx \<longrightarrow> tx_of t = Some tx"
    "prev_txid ` {i \<in> set ?ins. live_input ?L i} \<subseteq> set (sc_needed ?sc) \<union> dom (map_of (sc_cached ?sc))"
    "set (sc_outpoints ?sc) \<subseteq> (\<lambda>i. (prev_txid i, prev_vout i)) ` {i \<in> set ?ins. live_input ?L i}"
    using scan_inputs_facts [OF K, of "\<lparr>sc_cache = c, sc_needed = [], sc_outpoints = [], sc_cached = []\<rparr>" tx_of ?ins] C
    unfolding scan_block_def by simp_all
  obtain m n1 where m: "fetch (sort_key (txid_order I) (sc_needed ?sc)) n = (Ok m, n1)"
    and D: "distinct (map fst m)" and m2: "\<forall>t. map_of m t = (if t \<in> set (sc_needed ?sc) then tx_of t else None)"
    using fetch_complete [OF H, of "sort_key (txid_order I) (sc_needed ?sc)" n] by auto
  let ?all = "m @ sc_cached ?sc"
  have look: "map_of ?all (prev_txid i) = tx_of (prev_txid i)"
    if "i \<in> set ?ins" "live_input ?L i" for i
  proof -
    have "prev_txid i \<in> set (sc_needed ?sc) \<union> dom (map_of (sc_cached ?sc))" using S(3) that by blast
    then show ?thesis
      using m2 S(2) inputs_of_block [OF B that] by (auto simp: map_add_def)
  qed
  have none: "missing_utxos ?all (sort_key (outpoint_order I) (sc_outpoints ?sc)) = []"
  proof -
    have "(case map_of ?all t of Some tx \<Rightarrow> nth_opt (tx_output tx) (nat v) = None | None \<Rightarrow> True) = False"
      if "(t, v) \<in> set (sc_outpoints ?sc)" for t v
    proof -
      from that S(4) obtain i where i: "i \<in> set ?ins" "live_input ?L i" "t = prev_txid i" "v = prev_vout i"
        by blast
      then show ?thesis using look [OF i(1,2)] inputs_of_block [OF B i(1,2)] by (auto simp: nth_opt_def)
    qed
    then show ?thesis unfolding missing_utxos_def by (auto simp: filter_empty_conv)
  qed
  define c' where "c' = fold (\<lambda>(t, tx). cache_put K t tx) (sort_key (\<lambda>e. fetched_order I (fst e)) m) (sc_cache ?sc)"
  have run: "process_transactions I ix b height time (c, n)
      = (Ok (process_chunks ?L (block_ctx (ix_network ix) (ix_watched ix) (map_of ?all) height time) (txdata b)), c', n1)"
    using False m none fetch_no_outs [OF H]
    by (simp add: process_transactions_def R K Let_def block_ctx_def c'_def [symmetric] map_of_append fun_eq_iff)
  have "process_chunks ?L (block_ctx (ix_network ix) (ix_watched ix) (map_of ?all) height time) (txdata b)
      = block_updates ?L (ix_network ix) (ix_watched ix) tx_of height time b"
    unfolding process_chunks_def process_chunks_from [of ?L _ 0, simplified]
    by (rule block_updates_lookup) (use look in \<open>auto simp: live_input_def\<close>)
  moreover have entries: "\<forall>(t, tx) \<in> set (sort_key (\<lambda>e. fetched_order I (fst e)) m). tx_of t = Some tx"
  proof clarify
    fix t tx assume "(t, tx) \<in> set (sort_key (\<lambda>e. fetched_order I (fst e)) m)"
    then have "map_of m t = Some tx" using D by (simp add: map_of_is_SomeI)
    with m2 show "tx_of t = Some tx" by (metis option.distinct(1))
  qed
  moreover have "tx_of t = Some tx" if "content c' t = Some tx" for t tx
    by (rule put_all_sound [OF _ entries that [unfolded c'_def]]) (simp add: S(1) C)
  ultimately show ?thesis
    using run by (intro exI [of _ c'] exI [of _ n1]) simp
qed

end

text \<open>A node that has the transactions \<open>f\<close>, through either client.\<close>

fun serves_transactions :: "'n rpc_client \<Rightarrow> (string \<Rightarrow> transaction option) \<Rightarrow> bool" where
  "serves_transactions (Core C) f \<longleftrightarrow>
     (\<forall>t n. \<exists>n'. case f t of
        Some tx \<Rightarrow> core_raw_transaction C t None n = (Ok tx, n')
      | None \<Rightarrow> \<exists>e. core_raw_transaction C t None n = (Err e, n'))"
| "serves_transactions (External X) f \<longleftrightarrow>
     serves_batches X (\<lambda>t i. rpc_request i ''getrawtransaction'' [JStr t, JBool False]) (raw_tx_of_json X) f
     \<and> 0 < ext_batch_size X"

lemma fetch_each_lookup:
  assumes "\<And>k n. \<exists>r n'. call k n = (r, n') \<and> r \<noteq> Panic \<and> (case r of Ok v \<Rightarrow> v | _ \<Rightarrow> None) = f k"
  shows "\<exists>m n'. fetch_each call ks acc n = (Ok m, n') \<and> (distinct (map fst acc) \<longrightarrow> distinct (map fst m))
     \<and> (\<forall>k. map_of m k = (if k \<in> set ks \<and> f k \<noteq> None then f k else map_of acc k))"
proof (induction ks arbitrary: acc n)
  case Nil
  then show ?case by simp
next
  case (Cons k ks)
  obtain r n1 where r: "call k n = (r, n1)" "r \<noteq> Panic" "(case r of Ok v \<Rightarrow> v | _ \<Rightarrow> None) = f k"
    using assms by blast
  define acc1 where "acc1 = (case f k of Some v \<Rightarrow> AList.update k v acc | None \<Rightarrow> acc)"
  have "fetch_each call (k # ks) acc n = fetch_each call ks acc1 n1"
    using r by (cases r) (auto simp: acc1_def split: option.splits)
  moreover have "distinct (map fst acc) \<longrightarrow> distinct (map fst acc1)"
    by (auto simp: acc1_def distinct_update split: option.splits)
  moreover have "map_of acc1 k' = (if k' = k \<and> f k \<noteq> None then f k else map_of acc k')" for k'
    by (auto simp: acc1_def alist_lookup_update split: option.splits)
  ultimately show ?case using Cons.IH [of acc1 n1] by auto
qed

lemma serves_fetch:
  assumes "serves_transactions rpc f"
  shows "\<exists>m n'. get_transactions_batch rpc ts n = (Ok m, n') \<and> distinct (map fst m)
     \<and> (\<forall>t. map_of m t = (if t \<in> set ts then f t else None))"
proof (cases rpc)
  case (External X)
  then have "serves_batches X (\<lambda>t i. rpc_request i ''getrawtransaction'' [JStr t, JBool False]) (raw_tx_of_json X) f"
    "0 < ext_batch_size X" using assms by simp_all
  from in_batches_lookup [OF this, of ts n] obtain m n' where
    m: "get_raw_transactions_batch X ts n = (Ok m, n')" "\<forall>t. map_of m t = (if t \<in> set ts then f t else None)"
    unfolding get_raw_transactions_batch_def by blast
  then have "distinct (map fst m)"
    unfolding get_raw_transactions_batch_def by (intro in_batches_distinct)
  with m External show ?thesis by (intro exI [of _ m] exI [of _ n']) simp
next
  case (Core C)
  let ?call = "\<lambda>t. then_do (get_raw_transaction (Core C) t None) (\<lambda>tx. lift_result (Ok (Some tx)))"
  have "\<exists>r n'. ?call t n = (r, n') \<and> r \<noteq> Panic \<and> (case r of Ok v \<Rightarrow> v | _ \<Rightarrow> None) = f t" for t n
    using assms [unfolded Core serves_transactions.simps, rule_format, of t n]
    by (cases "f t") (auto simp: then_do_def core_call_def lift_result_def)
  from fetch_each_lookup [of ?call f ts "[]" n, OF this] obtain m n' where
    m: "fetch_each ?call ts [] n = (Ok m, n')" "distinct (map fst m)"
    and look: "\<forall>k. map_of m k = (if k \<in> set ts \<and> f k \<noteq> None then f k else map_of [] k)" by auto
  have "map_of m t = (if t \<in> set ts then f t else None)" for t
    using spec [OF look, of t] by (cases "f t") simp_all
  with m show ?thesis unfolding Core get_transactions_batch.simps by blast
qed

lemma serves_no_outs: "serves_transactions rpc f \<Longrightarrow> get_utxo_batch rpc [] n = (Ok [], n)"
  by (cases rpc) (simp_all add: get_tx_outs_batch_def in_batches_def)

interpretation src: tx_source lru_ops lru_content "get_transactions_batch rpc" "get_utxo_batch rpc" f
    "serves_transactions rpc f" for rpc f
  by unfold_locales (rule serves_fetch serves_no_outs, assumption)+

section \<open>Properties\<close>

text \<open>An indexer over the service that knows one transaction, and a block that spends it.\<close>

definition small_ix_env :: "(string, string, lru) ix_env" where
  "small_ix_env =
     \<lparr>ie_lib = small_lib, ie_cache = lru_ops, txid_order = (\<lambda>_. 0), outpoint_order = (\<lambda>_. 0),
      fetched_order = (\<lambda>_. 0), datetime_from_timestamp = Some\<rparr>"

definition small_indexer :: "'n rpc_client \<Rightarrow> (string, 'n, lru) indexer" where
  "small_indexer rpc =
     \<lparr>ix_rpc = rpc, ix_network = Regtest, ix_last_processed_height = 0, ix_start_height = 1,
      ix_max_blocks_per_batch = 200, ix_watched = {''alice'', ''t1''}, ix_cache = (100000, [])\<rparr>"

definition spending_block :: block where
  "spending_block = \<lparr>header_time = 9, txdata =
     [\<lparr>tx_version = 2, lock_time = 0, tx_input = [], tx_output = [\<lparr>txo_value = 50, script_pubkey = ''miner''\<rparr>]\<rparr>,
      \<lparr>tx_version = 2, lock_time = 0,
       tx_input = [\<lparr>prev_txid = ''t1'', prev_vout = 0, script_sig = [], sequence = 0, witness = [''s'', ''k'']\<rparr>],
       tx_output = [\<lparr>txo_value = 40, script_pubkey = ''alice''\<rparr>]\<rparr>]\<rparr>"

text \<open>
  C9. Over a node that has the transactions \<open>f\<close>, through either RPC client, with any batch
  size, any cache that keeps its contract and holds only transactions of \<open>f\<close>, and any order of
  visiting hash sets, processing a block whose inputs are known succeeds and yields exactly
  the updates of the block under \<open>f\<close>; the cache stays consistent with \<open>f\<close>.
\<close>

theorem process_transactions_exact:
  assumes "tx_cache (ie_cache I) content" and "serves_transactions (ix_rpc ix) f"
    and "\<forall>t tx. content c t = Some tx \<longrightarrow> f t = Some tx" and "inputs_known (ie_lib I) f b"
  shows "\<exists>c' n'. process_transactions I ix b height time (c, n)
       = (Ok (block_updates (ie_lib I) (ix_network ix) (ix_watched ix) f height time b), c', n')
     \<and> (\<forall>t tx. content c' t = Some tx \<longrightarrow> f t = Some tx)"
proof -
  have "tx_source (ie_cache I) content (get_transactions_batch (ix_rpc ix)) (get_utxo_batch (ix_rpc ix)) f
      (serves_transactions (ix_rpc ix) f)"
    by (intro tx_source.intro assms(1) tx_source_axioms.intro serves_fetch serves_no_outs)
  from tx_source.process_exact [OF this assms(2) refl refl refl assms(3,4)] show ?thesis .
qed

theorem process_transactions_exact_witness:
  "\<exists>c' n'. process_transactions small_ix_env (small_indexer (External t1_service)) spending_block 7 9 ((100000, []), ())
       = (Ok (block_updates small_lib Regtest {''alice'', ''t1''} [''t1'' \<mapsto> tx_named ''t1''] 7 9 spending_block), c', n')
     \<and> (\<forall>t tx. lru_content c' t = Some tx \<longrightarrow> [''t1'' \<mapsto> tx_named ''t1''] t = Some tx)"
proof -
  have K: "tx_cache (ie_cache small_ix_env) lru_content"
    using lru.tx_cache_axioms by (simp add: small_ix_env_def)
  have S: "serves_transactions (ix_rpc (small_indexer (External t1_service))) [''t1'' \<mapsto> tx_named ''t1'']"
    using t1_service_serves by (simp add: small_indexer_def) (simp add: t1_service_def small_external_def)
  have B: "inputs_known (ie_lib small_ix_env) [''t1'' \<mapsto> tx_named ''t1''] spending_block"
    by (simp add: inputs_known_def spending_block_def tx_named_def)
  show ?thesis
    using process_transactions_exact [OF K S _ B, of "(100000, [])" 7 9 "()"]
    by (simp add: lru_content_def small_ix_env_def small_indexer_def)
qed

lemma in_map_filter: "y \<in> set (List.map_filter f xs) \<longleftrightarrow> (\<exists>x \<in> set xs. f x = Some y)"
  by (induction xs) (auto simp: List.map_filter_simps split: option.splits)

lemma created_spent_txid [simp]:
  "spent_txid (created_update L ctx tx i o' a) = None" "spent_txid (spent_update L ctx tx input v s a) = Some (compute_txid L tx)"
  by (simp_all add: created_update_def spent_update_def)

lemma in_output_updates:
  "u \<in> set (output_updates L ctx tx) \<longleftrightarrow>
     (\<exists>i < length (tx_output tx). \<exists>a \<in> tc_watch_set ctx.
        addr_from_script L (script_pubkey (tx_output tx ! i)) (tc_network ctx) = Some a
        \<and> u = created_update L ctx tx i (tx_output tx ! i) a)"
proof -
  have "u \<in> set (output_updates L ctx tx) \<longleftrightarrow> (\<exists>i < length (tx_output tx).
      map_option (created_update L ctx tx i (tx_output tx ! i)) (watched_script L ctx (script_pubkey (tx_output tx ! i))) = Some u)"
    by (simp add: output_updates_def in_map_filter) (auto simp: in_set_enumerate_eq Bex_def)
  then show ?thesis
    by (auto simp: watched_script_def split: option.splits if_splits)
qed

lemma in_concat_enumerate:
  "u \<in> set (concat (map (\<lambda>(i, x). g i x) (enumerate 0 xs))) \<longleftrightarrow> (\<exists>k < length xs. u \<in> set (g k (xs ! k)))"
proof
  assume "u \<in> set (concat (map (\<lambda>(i, x). g i x) (enumerate 0 xs)))"
  then obtain i x where "(i, x) \<in> set (enumerate 0 xs)" "u \<in> set (g i x)" by auto
  then show "\<exists>k < length xs. u \<in> set (g k (xs ! k))"
    by (intro exI [of _ i]) (simp add: in_set_enumerate_eq)
next
  assume "\<exists>k < length xs. u \<in> set (g k (xs ! k))"
  then obtain k where "k < length xs" "u \<in> set (g k (xs ! k))" by blast
  then show "u \<in> set (concat (map (\<lambda>(i, x). g i x) (enumerate 0 xs)))"
    by (auto simp: in_set_enumerate_eq intro!: bexI [of _ "(k, xs ! k)"])
qed

lemma in_process_transaction:
  "u \<in> set (process_transaction L ctx c tx) \<longleftrightarrow> u \<in> set (output_updates L ctx tx)
     \<or> (\<not> c \<and> (\<exists>input \<in> set (tx_input tx). input_update L ctx tx input = Some u))"
  by (cases c) (simp_all add: process_transaction_def in_map_filter)

lemma in_process_transaction_chunk:
  "u \<in> set (process_transaction_chunk L txs 0 ctx) \<longleftrightarrow>
     (\<exists>k < length txs. u \<in> set (output_updates L ctx (txs ! k))
        \<or> (k \<noteq> 0 \<and> (\<exists>input \<in> set (tx_input (txs ! k)). input_update L ctx (txs ! k) input = Some u)))"
  unfolding process_transaction_chunk_def in_concat_enumerate in_process_transaction by simp

lemma watched_script_Some:
  "watched_script L ctx s = Some a \<longleftrightarrow> a \<in> tc_watch_set ctx \<and> addr_from_script L s (tc_network ctx) = Some a"
  by (auto simp: watched_script_def split: option.splits if_splits)

lemma nth_opt_Some: "nth_opt xs i = Some x \<longleftrightarrow> i < length xs \<and> x = xs ! i"
  by (auto simp: nth_opt_def)

lemma in_input_update:
  "input_update L (block_ctx N W f h time) tx input = Some u \<longleftrightarrow>
     live_input L input \<and>
     (\<exists>ptx. f (prev_txid input) = Some ptx \<and> nat (prev_vout input) < length (tx_output ptx) \<and>
        (\<exists>a \<in> W. addr_from_script L (script_pubkey (tx_output ptx ! nat (prev_vout input))) N = Some a
           \<and> u = spent_update L (block_ctx N W f h time) tx input
                (txo_value (tx_output ptx ! nat (prev_vout input)))
                (script_pubkey (tx_output ptx ! nat (prev_vout input))) a))"
proof -
  let ?c = "block_ctx N W f h time"
  have c: "tc_tx_map ?c = f" "tc_watch_set ?c = W" "tc_network ?c = N" by (simp_all add: block_ctx_def)
  have none: "spend_by_tx_out L ?c tx input = None"
    by (simp add: spend_by_tx_out_def block_ctx_def)
  have "input_update L ?c tx input = Some u \<longleftrightarrow> live_input L input \<and> spend_by_transaction L ?c tx input = Some u"
    by (simp add: input_update_def none live_input_def split: option.split)
  then show ?thesis
    unfolding spend_by_transaction_def bind_eq_Some_conv map_option_eq_Some watched_script_Some nth_opt_Some c
    by blast
qed

lemma block_updates_iff:
  "u \<in> set (block_updates L N W f h time b) \<longleftrightarrow>
     (if spent_txid u = None
      then \<exists>k < length (txdata b). \<exists>i < length (tx_output (txdata b ! k)). \<exists>a \<in> W.
          addr_from_script L (script_pubkey (tx_output (txdata b ! k) ! i)) N = Some a
          \<and> u = created_update L (block_ctx N W f h time) (txdata b ! k) i (tx_output (txdata b ! k) ! i) a
      else \<exists>k < length (txdata b). k \<noteq> 0 \<and> (\<exists>input \<in> set (tx_input (txdata b ! k)). live_input L input \<and>
          (\<exists>ptx. f (prev_txid input) = Some ptx \<and> nat (prev_vout input) < length (tx_output ptx) \<and>
            (\<exists>a \<in> W. addr_from_script L (script_pubkey (tx_output ptx ! nat (prev_vout input))) N = Some a
               \<and> u = spent_update L (block_ctx N W f h time) (txdata b ! k) input
                    (txo_value (tx_output ptx ! nat (prev_vout input)))
                    (script_pubkey (tx_output ptx ! nat (prev_vout input))) a))))"
proof -
  let ?c = "block_ctx N W f h time"
  have ctx: "tc_watch_set ?c = W" "tc_network ?c = N" by (simp_all add: block_ctx_def)
  have "spent_txid u = None" if "u \<in> set (output_updates L ?c tx)" for tx
    using that by (auto simp: in_output_updates)
  moreover have "spent_txid u \<noteq> None" if "input_update L ?c tx input = Some u" for tx input
    using that by (auto simp: in_input_update)
  ultimately have "u \<in> set (block_updates L N W f h time b) \<longleftrightarrow>
     (if spent_txid u = None then \<exists>k < length (txdata b). u \<in> set (output_updates L ?c (txdata b ! k))
      else \<exists>k < length (txdata b). k \<noteq> 0 \<and> (\<exists>input \<in> set (tx_input (txdata b ! k)).
          input_update L ?c (txdata b ! k) input = Some u))"
    unfolding block_updates_def in_process_transaction_chunk 
    by (cases "spent_txid u = None") (simp only: if_True simp_thms, blast, simp only: if_False simp_thms, blast)
  then show ?thesis
    unfolding in_input_update in_output_updates ctx .
qed

text \<open>
  C10. The updates of a block are complete and sound.  Those without a spender are exactly
  the outputs, of any transaction of the block, whose script is that of a watched address;
  those with a spender are exactly the inputs, of any transaction but the first, that spend
  an output of a chain transaction whose script is that of a watched address.
\<close>

theorem block_updates_spec:
  "u \<in> set (block_updates L N W f h time b) \<longleftrightarrow>
     (if spent_txid u = None
      then \<exists>k < length (txdata b). \<exists>i < length (tx_output (txdata b ! k)). \<exists>a \<in> W.
          addr_from_script L (script_pubkey (tx_output (txdata b ! k) ! i)) N = Some a
          \<and> u = created_update L (block_ctx N W f h time) (txdata b ! k) i (tx_output (txdata b ! k) ! i) a
      else \<exists>k < length (txdata b). k \<noteq> 0 \<and> (\<exists>input \<in> set (tx_input (txdata b ! k)). live_input L input \<and>
          (\<exists>ptx. f (prev_txid input) = Some ptx \<and> nat (prev_vout input) < length (tx_output ptx) \<and>
            (\<exists>a \<in> W. addr_from_script L (script_pubkey (tx_output ptx ! nat (prev_vout input))) N = Some a
               \<and> u = spent_update L (block_ctx N W f h time) (txdata b ! k) input
                    (txo_value (tx_output ptx ! nat (prev_vout input)))
                    (script_pubkey (tx_output ptx ! nat (prev_vout input))) a))))"
  by (rule block_updates_iff)

definition plausible_tx :: "transaction \<Rightarrow> bool" where
  "plausible_tx tx \<longleftrightarrow> (\<forall>o' \<in> set (tx_output tx). 0 \<le> txo_value o' \<and> txo_value o' < 9223372036854775808)
     \<and> length (tx_output tx) < 2147483648"

text \<open>
  C22. What the indexer sends, the storage service accepts: when all amounts are below 2^63,
  output indexes below 2^31 and addresses have non-empty text, every update of a block passes
  the storage's validation, is keyed by its own outpoint, and carries the block's height as
  the height of its creation or, when it has a spender, of its spend.
\<close>

theorem block_updates_accepted:
  assumes "u \<in> set (block_updates L N W f h time b)"
    and "\<forall>tx \<in> set (txdata b). plausible_tx tx" and "\<forall>t tx. f t = Some tx \<longrightarrow> plausible_tx tx"
    and "\<forall>tx \<in> set (txdata b). \<forall>input \<in> set (tx_input tx). 0 \<le> prev_vout input"
    and "\<forall>a \<in> W. addr_to_string L a \<noteq> []"
  shows "check_utxo u = Ok () \<and> utxo_id u = outpoint_key (txid u) (vout u) \<and> block_height u = h
     \<and> (spent_txid u \<noteq> None \<longrightarrow> spent_block u = Some h) \<and> (spent_txid u = None \<longrightarrow> spent_block u = None)"
proof (cases "spent_txid u")
  case None
  then obtain k i a where k: "k < length (txdata b)" "i < length (tx_output (txdata b ! k))" "a \<in> W"
    and u: "u = created_update L (block_ctx N W f h time) (txdata b ! k) i (tx_output (txdata b ! k) ! i) a"
    using assms(1) unfolding block_updates_iff by auto
  have "plausible_tx (txdata b ! k)" using assms(2) k(1) by simp
  then have "0 \<le> txo_value (tx_output (txdata b ! k) ! i)"
    "txo_value (tx_output (txdata b ! k) ! i) < 9223372036854775808" "int i < 2147483648"
    using k(2) by (auto simp: plausible_tx_def)
  then show ?thesis
    using u k(3) assms(5) by (simp add: created_update_def block_ctx_def wrap_i64_id wrap_i32_id in_i64_def in_i32_def)
next
  case (Some t)
  then obtain k input ptx a where k: "k < length (txdata b)" "input \<in> set (tx_input (txdata b ! k))"
      "f (prev_txid input) = Some ptx" "nat (prev_vout input) < length (tx_output ptx)" "a \<in> W"
    and u: "u = spent_update L (block_ctx N W f h time) (txdata b ! k) input
                    (txo_value (tx_output ptx ! nat (prev_vout input)))
                    (script_pubkey (tx_output ptx ! nat (prev_vout input))) a"
    using assms(1) unfolding block_updates_iff by auto
  have "plausible_tx ptx" using assms(3) k(3) by blast
  moreover have "0 \<le> prev_vout input" using assms(4) k(1,2) by (meson nth_mem)
  ultimately have "0 \<le> txo_value (tx_output ptx ! nat (prev_vout input))"
    "txo_value (tx_output ptx ! nat (prev_vout input)) < 9223372036854775808"
    "0 \<le> prev_vout input" "prev_vout input < 2147483648"
    using k(4) by (auto simp: plausible_tx_def)
  then show ?thesis
    using u k(5) assms(5) by (simp add: spent_update_def block_ctx_def wrap_i64_id wrap_i32_id in_i64_def in_i32_def)
qed

definition spending_updates :: "utxo list" where
  "spending_updates =
     block_updates small_lib Regtest {''alice'', ''t1''} [''t1'' \<mapsto> tx_named ''t1''] 7 9 spending_block"

lemma spending_updates_first: "spending_updates \<noteq> [] \<and> spent_txid (hd spending_updates) = None"
  by code_simp

theorem block_updates_accepted_witness:
  "check_utxo (hd spending_updates) = Ok ()
     \<and> utxo_id (hd spending_updates) = outpoint_key (txid (hd spending_updates)) (vout (hd spending_updates))
     \<and> block_height (hd spending_updates) = 7 \<and> spent_block (hd spending_updates) = None"
proof -
  have "hd spending_updates \<in> set (block_updates small_lib Regtest {''alice'', ''t1''} [''t1'' \<mapsto> tx_named ''t1''] 7 9
      spending_block)"
    using spending_updates_first unfolding spending_updates_def by (metis list.set_sel(1))
  then show ?thesis
    using block_updates_accepted [of "hd spending_updates" small_lib Regtest] spending_updates_first
    by (auto simp: plausible_tx_def spending_block_def tx_named_def small_lib_def split: if_splits)
qed

end
