(* ===== verification/Indexer_Sync.thy ===== *)
theory Indexer_Sync
  imports Indexer_Correct
begin

text \<open>
  The synchronisation loop of \<^verbatim>\<open>BitcoinIndexer\<close> (\<^verbatim>\<open>indexer/src/indexer.rs\<close>): new blocks, the check
  for reorganisations, the fork point.  The world of the indexer is its own state, the node
  and the storage service at the other end of the socket.
\<close>

section \<open>World\<close>

record ('a, 'n, 'c, 's) world =
  w_indexer :: "('a, 'n, 'c) indexer"
  w_node :: 'n
  w_storage :: 's

type_synonym ('r, 'a, 'n, 'c, 's) action = "('a, 'n, 'c, 's) world \<Rightarrow> 'r ires \<times> ('a, 'n, 'c, 's) world"

definition ask_node :: "('n rpc_client \<Rightarrow> 'n \<Rightarrow> 'r ires \<times> 'n) \<Rightarrow> ('r, 'a, 'n, 'c, 's) action" where
  "ask_node f w = (case f (ix_rpc (w_indexer w)) (w_node w) of (r, n) \<Rightarrow> (r, w\<lparr>w_node := n\<rparr>))"

text \<open>A call of the transport; its error becomes \<^verbatim>\<open>IndexerError::Network\<close>.\<close>

definition ask_storage :: "('s \<Rightarrow> ('r, transport_error) outcome \<times> 's) \<Rightarrow> ('r, 'a, 'n, 'c, 's) action" where
  "ask_storage f w = (case f (w_storage w) of (r, s) \<Rightarrow> (map_err Network r, w\<lparr>w_storage := s\<rparr>))"

definition block_data :: "('u, 'a, 'c) ix_env \<Rightarrow> string \<Rightarrow> (block_update, 'a, 'n, 'c, 's) action" where
  "block_data I h w =
     (case get_block_data I (w_indexer w) h (ix_cache (w_indexer w), w_node w) of
        (r, c, n) \<Rightarrow> (r, w\<lparr>w_indexer := (w_indexer w)\<lparr>ix_cache := c\<rparr>, w_node := n\<rparr>))"

definition set_last :: "i32 \<Rightarrow> ('a, 'n, 'c, 's) world \<Rightarrow> ('a, 'n, 'c, 's) world" where
  "set_last h w = w\<lparr>w_indexer := (w_indexer w)\<lparr>ix_last_processed_height := h\<rparr>\<rparr>"

abbreviation last_height :: "('a, 'n, 'c, 's) world \<Rightarrow> i32" where
  "last_height w \<equiv> ix_last_processed_height (w_indexer w)"

section \<open>Reorganisations\<close>

text \<open>The two hashes of a height: the node's and the one the storage service answers.\<close>

definition hashes_at :: "codec \<Rightarrow> 's wire \<Rightarrow> i32 \<Rightarrow> (string \<times> string, 'a, 'n, 'c, 's) action" where
  "hashes_at C W h =
     then_do (ask_node (\<lambda>rpc. get_block_hash rpc (as_u64 h))) (\<lambda>chain_hash.
     then_do (ask_storage (transport_get_block_hash C W h)) (\<lambda>stored_hash.
       lift_result (Ok (chain_hash, stored_hash))))"

function fork_loop :: "codec \<Rightarrow> 's wire \<Rightarrow> i32 \<Rightarrow> i32 \<Rightarrow> (i32, 'a, 'n, 'c, 's) action" where
  "fork_loop C W height min_height w =
     (if height < min_height then (Ok (wrap_i32 (min_height - 1)), w)
      else then_do (hashes_at C W height) (\<lambda>(chain_hash, stored_hash) w'.
        if chain_hash = stored_hash then (Ok height, w')
        else fork_loop C W (height - 1) min_height w') w)"
  by auto
termination
  by (relation "measure (\<lambda>(C, W, height, min_height, w). nat (height - min_height + 1))") auto

declare fork_loop.simps [simp del]

definition find_fork_point :: "codec \<Rightarrow> 's wire \<Rightarrow> i32 \<Rightarrow> i32 \<Rightarrow> (i32, 'a, 'n, 'c, 's) action" where
  "find_fork_point C W start_height min_height = fork_loop C W (wrap_i32 (start_height - 1)) min_height"

text \<open>The loop over \<^verbatim>\<open>start_check_height..=last_processed_height\<close>.\<close>

fun check_heights :: "codec \<Rightarrow> 's wire \<Rightarrow> i32 \<Rightarrow> i32 list \<Rightarrow> (bool, 'a, 'n, 'c, 's) action" where
  "check_heights C W start [] w = (Ok False, w)"
| "check_heights C W start (h # hs) w =
     then_do (hashes_at C W h) (\<lambda>(chain_hash, stored_hash).
       if chain_hash \<noteq> stored_hash
       then then_do (find_fork_point C W h start) (\<lambda>fork.
            then_do (ask_storage (send_reorg_event C W fork)) (\<lambda>_ w'. (Ok True, set_last fork w')))
       else check_heights C W start hs) w"

definition check_start :: "i32 \<Rightarrow> i32" where
  "check_start current_height = max (wrap_i32 (wrap_i32 (current_height - FINALITY_CONFIRMATIONS) + 1)) 0"

definition check_for_reorg :: "codec \<Rightarrow> 's wire \<Rightarrow> (bool, 'a, 'n, 'c, 's) action" where
  "check_for_reorg C W =
     then_do (ask_node get_block_count) (\<lambda>count w.
       let start = check_start (as_i32 count)
       in if last_height w < start then (Ok False, w)
          else check_heights C W start [start..last_height w] w)"

section \<open>New blocks\<close>

definition send_block_update :: "codec \<Rightarrow> 's wire \<Rightarrow> block_update \<Rightarrow> (unit, 'a, 'n, 'c, 's) action" where
  "send_block_update C W u = ask_storage (send_update C W u)"

fun send_heights :: "('u, 'a, 'c) ix_env \<Rightarrow> codec \<Rightarrow> 's wire \<Rightarrow> i32 list \<Rightarrow> (unit, 'a, 'n, 'c, 's) action" where
  "send_heights I C W [] w = (Ok (), w)"
| "send_heights I C W (h # hs) w =
     then_do (ask_node (\<lambda>rpc. get_block_hash rpc (as_u64 h))) (\<lambda>block_hash.
     then_do (block_data I block_hash) (\<lambda>data.
     then_do (send_block_update C W data) (\<lambda>_. send_heights I C W hs))) w"

definition batch_limit :: "('a, 'n, 'c) indexer \<Rightarrow> i32" where
  "batch_limit ix = (if ix_network ix = Bitcoin then 1 else ix_max_blocks_per_batch ix)"

definition send_finality :: "codec \<Rightarrow> 's wire \<Rightarrow> i32 \<Rightarrow> (unit, 'a, 'n, 'c, 's) action" where
  "send_finality C W current_height =
     (if 0 < wrap_i32 (wrap_i32 (current_height - FINALITY_CONFIRMATIONS) + 1)
      then ask_storage (send_update_finality_status C W current_height)
      else lift_result (Ok ()))"

definition send_new_blocks :: "('u, 'a, 'c) ix_env \<Rightarrow> codec \<Rightarrow> 's wire \<Rightarrow> i32 \<Rightarrow> (i32, 'a, 'n, 'c, 's) action" where
  "send_new_blocks I C W current_height w =
     (let last_h = last_height w;
          blocks = min (wrap_i32 (current_height - last_h)) (batch_limit (w_indexer w))
      in if blocks = 0 then (Ok 0, w)
         else then_do (send_heights I C W [last_h + 1..wrap_i32 (last_h + blocks)]) (\<lambda>_ w1.
           then_do (send_finality C W current_height) (\<lambda>_. lift_result (Ok blocks))
             (set_last (wrap_i32 (last_h + blocks)) w1)) w)"

text \<open>An error of the check for reorganisations is dropped (\<^verbatim>\<open>if let Ok(true)\<close>).\<close>

definition process_new_blocks :: "('u, 'a, 'c) ix_env \<Rightarrow> codec \<Rightarrow> 's wire \<Rightarrow> (i32, 'a, 'n, 'c, 's) action" where
  "process_new_blocks I C W =
     then_do (ask_node get_block_count) (\<lambda>count w.
       let current_height = as_i32 count
       in if current_height \<le> last_height w then (Ok 0, w)
          else case check_for_reorg C W w of
              (Panic, w1) \<Rightarrow> (Panic, w1)
            | (Ok True, w1) \<Rightarrow> (Ok 0, w1)
            | (_, w1) \<Rightarrow> send_new_blocks I C W current_height w1)"

text \<open>
  \<^verbatim>\<open>run\<close>: cycle after cycle, whatever error a cycle returned (a panic ends it); \<open>pause\<close> is what happens to the node and
  the storage service while the indexer sleeps.
\<close>

fun run_cycles :: "('u, 'a, 'c) ix_env \<Rightarrow> codec \<Rightarrow> 's wire \<Rightarrow> ('n \<times> 's \<Rightarrow> 'n \<times> 's) \<Rightarrow> nat
    \<Rightarrow> ('a, 'n, 'c, 's) world \<Rightarrow> ('a, 'n, 'c, 's) world" where
  "run_cycles I C W pause 0 w = w"
| "run_cycles I C W pause (Suc k) w =
     (case process_new_blocks I C W w of
        (Panic, w1) \<Rightarrow> w1
      | (_, w1) \<Rightarrow>
          (let (n, s) = pause (w_node w1, w_storage w1)
           in run_cycles I C W pause k (w1\<lparr>w_node := n, w_storage := s\<rparr>)))"

section \<open>Stable answers\<close>

text \<open>
  The node answers \<open>hash h\<close> for the heights of an interval, whatever its state, and the
  storage service answers \<open>stored h\<close> in its present state.
\<close>

definition node_hashes :: "'n rpc_client \<Rightarrow> (i32 \<Rightarrow> string) \<Rightarrow> i32 \<Rightarrow> i32 \<Rightarrow> bool" where
  "node_hashes rpc hash lo hi \<longleftrightarrow>
     (\<forall>h n. lo \<le> h \<longrightarrow> h \<le> hi \<longrightarrow> (\<exists>n'. get_block_hash rpc (as_u64 h) n = (Ok (hash h), n')))"

definition stored_hashes :: "codec \<Rightarrow> 's wire \<Rightarrow> 's \<Rightarrow> (i32 \<Rightarrow> string) \<Rightarrow> i32 \<Rightarrow> i32 \<Rightarrow> bool" where
  "stored_hashes C W s stored lo hi \<longleftrightarrow>
     (\<forall>h. lo \<le> h \<longrightarrow> h \<le> hi \<longrightarrow> transport_get_block_hash C W h s = (Ok (stored h), s))"

lemma hashes_at_stable:
  assumes "node_hashes (ix_rpc (w_indexer w)) hash lo hi" and "stored_hashes C W (w_storage w) stored lo hi"
    and "lo \<le> h" and "h \<le> hi"
  obtains n' where "hashes_at C W h w = (Ok (hash h, stored h), w\<lparr>w_node := n'\<rparr>)"
proof -
  obtain n' where "get_block_hash (ix_rpc (w_indexer w)) (as_u64 h) (w_node w) = (Ok (hash h), n')"
    using assms(1,3,4) unfolding node_hashes_def by blast
  moreover have "transport_get_block_hash C W h (w_storage w) = (Ok (stored h), w_storage w)"
    using assms(2-4) unfolding stored_hashes_def by blast
  ultimately have "hashes_at C W h w = (Ok (hash h, stored h), w\<lparr>w_node := n'\<rparr>)"
    by (simp add: hashes_at_def then_do_def ask_node_def ask_storage_def lift_result_def)
  then show ?thesis by (rule that)
qed

text \<open>Below the first mismatch the very first candidate of the search agrees.\<close>

lemma find_fork_point_first:
  assumes "node_hashes (ix_rpc (w_indexer w)) hash start hi" and "stored_hashes C W (w_storage w) stored start hi"
    and "start \<le> m" and "m \<le> hi" and "\<forall>h. start \<le> h \<longrightarrow> h < m \<longrightarrow> hash h = stored h"
    and "0 \<le> start" and "hi < 2147483648"
  obtains n' where "find_fork_point C W m start w = (Ok (m - 1), w\<lparr>w_node := n'\<rparr>)"
proof (cases "m = start")
  case True
  have "wrap_i32 (start - 1) = start - 1" using assms(3,4,6,7) by (intro wrap_i32_id) (simp add: in_i32_def)
  then have "find_fork_point C W m start w = (Ok (m - 1), w\<lparr>w_node := w_node w\<rparr>)"
    using True by (simp add: find_fork_point_def fork_loop.simps)
  then show ?thesis by (rule that)
next
  case False
  have wrap: "wrap_i32 (m - 1) = m - 1" using assms(3,4,6,7) by (intro wrap_i32_id) (simp add: in_i32_def)
  obtain n' where h: "hashes_at C W (m - 1) w = (Ok (hash (m - 1), stored (m - 1)), w\<lparr>w_node := n'\<rparr>)"
    using hashes_at_stable [OF assms(1,2), of "m - 1"] assms(3,4) False by auto
  moreover have "hash (m - 1) = stored (m - 1)" using assms(3,5) False by simp
  ultimately have "find_fork_point C W m start w = (Ok (m - 1), w\<lparr>w_node := n'\<rparr>)"
    using False assms(3) by (simp add: find_fork_point_def wrap fork_loop.simps)
  then show ?thesis by (rule that)
qed

lemma check_heights_stable:
  assumes "node_hashes (ix_rpc (w_indexer w)) hash start hi" and "stored_hashes C W (w_storage w) stored start hi"
    and "start \<le> h" and "\<forall>i. start \<le> i \<longrightarrow> i < h \<longrightarrow> hash i = stored i"
    and "0 \<le> start" and "hi < 2147483648"
  shows "if \<forall>i \<in> {h..hi}. hash i = stored i
     then \<exists>n'. check_heights C W start [h..hi] w = (Ok False, w\<lparr>w_node := n'\<rparr>)
     else \<exists>n' m. h \<le> m \<and> m \<le> hi \<and> hash m \<noteq> stored m \<and> (\<forall>i. start \<le> i \<longrightarrow> i < m \<longrightarrow> hash i = stored i)
        \<and> check_heights C W start [h..hi] w
          = then_do (ask_storage (send_reorg_event C W (m - 1))) (\<lambda>_ w'. (Ok True, set_last (m - 1) w'))
              (w\<lparr>w_node := n'\<rparr>)"
  using assms(1-4)
proof (induction "nat (hi + 1 - h)" arbitrary: h w)
  case 0
  then have "[h..hi] = []" "{h..hi} = {}" by auto
  then show ?case by (auto intro: exI [of _ "w_node w"])
next
  case (Suc k)
  then have h: "h \<le> hi" "[h..hi] = h # [h + 1..hi]" by (auto simp: upto_rec1)
  obtain n1 where at: "hashes_at C W h w = (Ok (hash h, stored h), w\<lparr>w_node := n1\<rparr>)"
    using hashes_at_stable [OF Suc.prems(1,2)] Suc.prems(3) h(1) by blast
  let ?w1 = "w\<lparr>w_node := n1\<rparr>"
  show ?case
  proof (cases "hash h = stored h")
    case True
    have step: "check_heights C W start [h..hi] w = check_heights C W start [h + 1..hi] ?w1"
      using at True by (simp add: h(2))
    have "k = nat (hi + 1 - (h + 1))" using Suc.hyps(2) by simp
    moreover have "\<forall>i. start \<le> i \<longrightarrow> i < h + 1 \<longrightarrow> hash i = stored i"
      using Suc.prems(4) True by (metis zle_add1_eq_le order_le_less)
    ultimately have IH: "if \<forall>i \<in> {h + 1..hi}. hash i = stored i
     then \<exists>n'. check_heights C W start [h + 1..hi] ?w1 = (Ok False, ?w1\<lparr>w_node := n'\<rparr>)
     else \<exists>n' m. h + 1 \<le> m \<and> m \<le> hi \<and> hash m \<noteq> stored m \<and> (\<forall>i. start \<le> i \<longrightarrow> i < m \<longrightarrow> hash i = stored i)
        \<and> check_heights C W start [h + 1..hi] ?w1
          = then_do (ask_storage (send_reorg_event C W (m - 1))) (\<lambda>_ w'. (Ok True, set_last (m - 1) w'))
              (?w1\<lparr>w_node := n'\<rparr>)"
      using Suc.hyps(1) [of "h + 1" ?w1] Suc.prems(1-3) by simp
    have "(\<forall>i \<in> {h..hi}. hash i = stored i) \<longleftrightarrow> (\<forall>i \<in> {h + 1..hi}. hash i = stored i)"
      using True h(1) by (force simp: order_le_less)
    with IH step show ?thesis by (auto split: if_splits) (metis add1_zle_eq order_less_imp_le)
  next
    case False
    obtain n2 where "find_fork_point C W h start ?w1 = (Ok (h - 1), ?w1\<lparr>w_node := n2\<rparr>)"
      using find_fork_point_first [of ?w1 hash start hi C W stored h] Suc.prems h(1) assms(5,6) by auto
    then have "check_heights C W start [h..hi] w
        = then_do (ask_storage (send_reorg_event C W (h - 1))) (\<lambda>_ w'. (Ok True, set_last (h - 1) w'))
            (w\<lparr>w_node := n2\<rparr>)"
      using at False by (simp add: h(2))
    with False h(1) Suc.prems(4) show ?thesis by auto
  qed
qed

section \<open>What a cycle changes\<close>

lemma then_do_cases:
  assumes "then_do m k s = (r, s')"
  obtains (ok) x s1 where "m s = (Ok x, s1)" "k x s1 = (r, s')"
    | (err) e where "m s = (Err e, s')" "r = Err e"
    | (panic) "m s = (Panic, s')" "r = Panic"
  using assms by (auto simp: then_do_def split: prod.splits outcome.splits)

text \<open>The indexer's fields other than its cache and its last height.\<close>

definition same_config :: "('a, 'n, 'c, 's) world \<Rightarrow> ('a, 'n, 'c, 's) world \<Rightarrow> bool" where
  "same_config w w' \<longleftrightarrow> ix_rpc (w_indexer w') = ix_rpc (w_indexer w)
     \<and> ix_network (w_indexer w') = ix_network (w_indexer w)
     \<and> ix_start_height (w_indexer w') = ix_start_height (w_indexer w)
     \<and> ix_max_blocks_per_batch (w_indexer w') = ix_max_blocks_per_batch (w_indexer w)
     \<and> ix_watched (w_indexer w') = ix_watched (w_indexer w)"

definition quiet :: "('a, 'n, 'c, 's) world \<Rightarrow> ('a, 'n, 'c, 's) world \<Rightarrow> bool" where
  "quiet w w' \<longleftrightarrow> same_config w w' \<and> last_height w' = last_height w"

lemma quiet_refl [simp]: "quiet w w"
  by (simp add: quiet_def same_config_def)

lemma quiet_trans: "quiet w w1 \<Longrightarrow> quiet w1 w2 \<Longrightarrow> quiet w w2"
  by (simp add: quiet_def same_config_def)

lemma ask_node_quiet: "ask_node f w = (r, w') \<Longrightarrow> quiet w w' \<and> w_storage w' = w_storage w"
  by (auto simp: ask_node_def quiet_def same_config_def split: prod.splits)

lemma ask_storage_quiet: "ask_storage f w = (r, w') \<Longrightarrow> quiet w w'"
  by (auto simp: ask_storage_def quiet_def same_config_def split: prod.splits)

lemma block_data_quiet: "block_data I h w = (r, w') \<Longrightarrow> quiet w w' \<and> w_storage w' = w_storage w"
  by (auto simp: block_data_def quiet_def same_config_def split: prod.splits)

lemma then_do_quiet:
  assumes "then_do m k w = (r, w')" and "\<And>r1 w1. m w = (r1, w1) \<Longrightarrow> quiet w w1"
    and "\<And>x w1. m w = (Ok x, w1) \<Longrightarrow> k x w1 = (r, w') \<Longrightarrow> quiet w1 w'"
  shows "quiet w w'"
  using assms(1)
proof (cases rule: then_do_cases)
  case (ok x s1)
  then show ?thesis using assms(2,3) quiet_trans by blast
qed (use assms(2) in blast)+

lemma hashes_at_quiet: "hashes_at C W h w = (r, w') \<Longrightarrow> quiet w w'"
  unfolding hashes_at_def
  by (erule then_do_quiet, blast dest: ask_node_quiet, erule then_do_quiet, blast dest: ask_storage_quiet, simp)

lemma fork_loop_quiet: "fork_loop C W h m w = (r, w') \<Longrightarrow> quiet w w'"
proof (induction "nat (h - m + 1)" arbitrary: h w)
  case 0
  then show ?case by (simp add: fork_loop.simps [of C W h])
next
  case (Suc k)
  then have "\<not> h < m" and k: "k = nat (h - 1 - m + 1)" by auto
  with Suc.prems have "then_do (hashes_at C W h) (\<lambda>(a, b) w'. if a = b then (Ok h, w')
      else fork_loop C W (h - 1) m w') w = (r, w')" by (simp add: fork_loop.simps [of C W h])
  then show ?case
  proof (rule then_do_quiet)
    fix r1 w1 assume "hashes_at C W h w = (r1, w1)"
    then show "quiet w w1" by (rule hashes_at_quiet)
  next
    fix x :: "string \<times> string" and w1
    assume "(case x of (a, b) \<Rightarrow> \<lambda>w'. if a = b then (Ok h, w') else fork_loop C W (h - 1) m w') w1 = (r, w')"
    then show "quiet w1 w'" using Suc.hyps(1) [OF k] by (auto simp: split_def split: if_splits)
  qed
qed

lemma check_heights_quiet:
  "check_heights C W start hs w = (r, w') \<Longrightarrow> r \<noteq> Ok True \<Longrightarrow> quiet w w'"
proof (induction hs arbitrary: w)
  case (Cons h hs)
  from Cons.prems(1) show ?case
    unfolding check_heights.simps
  proof (rule then_do_quiet)
    fix r1 w1 assume "hashes_at C W h w = (r1, w1)"
    then show "quiet w w1" by (rule hashes_at_quiet)
  next
    fix x :: "string \<times> string" and w1
    assume k: "(case x of (a, b) \<Rightarrow> if a \<noteq> b then then_do (find_fork_point C W h start) (\<lambda>fork.
           then_do (ask_storage (send_reorg_event C W fork)) (\<lambda>_ w'. (Ok True, set_last fork w')))
         else check_heights C W start hs) w1 = (r, w')"
    show "quiet w1 w'"
    proof (cases "fst x \<noteq> snd x")
      case True
      with k have "then_do (find_fork_point C W h start) (\<lambda>fork. then_do (ask_storage (send_reorg_event C W fork))
            (\<lambda>_ w'. (Ok True, set_last fork w'))) w1 = (r, w')" by (simp add: split_def)
      then show ?thesis
      proof (rule then_do_quiet)
        fix r2 w2 assume "find_fork_point C W h start w1 = (r2, w2)"
        then show "quiet w1 w2" unfolding find_fork_point_def by (rule fork_loop_quiet)
      next
        fix f w2 assume "then_do (ask_storage (send_reorg_event C W f)) (\<lambda>_ w'. (Ok True, set_last f w')) w2 = (r, w')"
        then show "quiet w2 w'"
        proof (rule then_do_quiet)
          fix r3 w3 assume "ask_storage (send_reorg_event C W f) w2 = (r3, w3)"
          then show "quiet w2 w3" by (rule ask_storage_quiet)
        qed (use Cons.prems(2) in simp)
      qed
    next
      case False
      with k have "check_heights C W start hs w1 = (r, w')" by (simp add: split_def)
      then show ?thesis using Cons.IH Cons.prems(2) by blast
    qed
  qed
qed simp

lemma check_for_reorg_quiet:
  assumes "check_for_reorg C W w = (r, w')" and "r \<noteq> Ok True"
  shows "quiet w w'"
  using assms(1) unfolding check_for_reorg_def
proof (rule then_do_quiet)
  fix r1 w1 assume "ask_node get_block_count w = (r1, w1)"
  then show "quiet w w1" by (auto dest: ask_node_quiet)
next
  fix count w1
  assume "(let start = check_start (as_i32 count) in if last_height w1 < start then (Ok False, w1)
       else check_heights C W start [start..last_height w1] w1) = (r, w')"
  then show "quiet w1 w'" using check_heights_quiet assms(2) by (auto simp: Let_def split: if_splits)
qed

text \<open>Updates the storage service acknowledged one after the other.\<close>

fun acked :: "codec \<Rightarrow> 's wire \<Rightarrow> block_update list \<Rightarrow> 's \<Rightarrow> 's \<Rightarrow> bool" where
  "acked C W [] s s' \<longleftrightarrow> s' = s"
| "acked C W (u # us) s s' \<longleftrightarrow> (\<exists>s1. send_update C W u s = (Ok (), s1) \<and> acked C W us s1 s')"

lemma send_heights_acked:
  "send_heights I C W hs w = (r, w') \<Longrightarrow>
   quiet w w' \<and> (r = Ok () \<longrightarrow> (\<exists>us. length us = length hs \<and> acked C W us (w_storage w) (w_storage w')))"
proof (induction hs arbitrary: w)
  case Nil
  then show ?case by auto
next
  case (Cons h hs)
  from Cons.prems show ?case
    unfolding send_heights.simps
  proof (cases rule: then_do_cases)
    case (ok bh w1)
    note q1 = ask_node_quiet [OF ok(1)]
    from ok(2) show ?thesis
    proof (cases rule: then_do_cases)
      case (ok u w2)
      note q2 = block_data_quiet [OF ok(1)]
      from ok(2) show ?thesis
      proof (cases rule: then_do_cases)
        case (ok x w3)
        then have sent: "send_update C W u (w_storage w2) = (Ok (), w_storage w3)" "quiet w2 w3"
          using ask_storage_quiet [OF ok(1) [unfolded send_block_update_def]]
          by (auto simp: send_block_update_def ask_storage_def split: prod.splits)
        have q: "quiet w w3" using q1 q2 sent(2) quiet_trans by blast
        from Cons.IH [OF ok(2)] have "quiet w3 w'"
          and us: "r = Ok () \<longrightarrow> (\<exists>us. length us = length hs \<and> acked C W us (w_storage w3) (w_storage w'))" by auto
        moreover have "\<exists>us. length us = length (h # hs) \<and> acked C W us (w_storage w) (w_storage w')" if "r = Ok ()"
        proof -
          from us that obtain us where "length us = length hs" "acked C W us (w_storage w3) (w_storage w')" by blast
          then show ?thesis
            using sent(1) q1 q2 by (intro exI [of _ "u # us"]) auto
        qed
        ultimately show ?thesis using q quiet_trans by blast
      qed (use q1 q2 in \<open>auto simp: send_block_update_def dest!: ask_storage_quiet intro: quiet_trans\<close>)
    qed (use q1 in \<open>auto dest!: block_data_quiet intro: quiet_trans\<close>)
  qed (auto dest!: ask_node_quiet)
qed


section \<open>The check for reorganisations\<close>

definition node_count :: "'n rpc_client \<Rightarrow> u64 \<Rightarrow> bool" where
  "node_count rpc tip \<longleftrightarrow> (\<forall>n. \<exists>n'. get_block_count rpc n = (Ok tip, n'))"

lemma ask_count:
  assumes "node_count (ix_rpc (w_indexer w)) tip"
  obtains n' where "ask_node get_block_count w = (Ok tip, w\<lparr>w_node := n'\<rparr>)"
proof -
  obtain n' where "get_block_count (ix_rpc (w_indexer w)) (w_node w) = (Ok tip, n')"
    using assms unfolding node_count_def by blast
  then show ?thesis by (intro that [of n']) (simp add: ask_node_def)
qed

lemma check_start_nonneg: "0 \<le> check_start h"
  by (simp add: check_start_def)

lemma check_for_reorg_stable:
  assumes "node_count (ix_rpc (w_indexer w)) tip"
    and "node_hashes (ix_rpc (w_indexer w)) hash (check_start (as_i32 tip)) (last_height w)"
    and "stored_hashes C W (w_storage w) stored (check_start (as_i32 tip)) (last_height w)"
    and "last_height w < 2147483648"
  shows "if \<forall>i \<in> {check_start (as_i32 tip)..last_height w}. hash i = stored i
     then \<exists>n'. check_for_reorg C W w = (Ok False, w\<lparr>w_node := n'\<rparr>)
     else \<exists>n' m. check_start (as_i32 tip) \<le> m \<and> m \<le> last_height w \<and> hash m \<noteq> stored m
        \<and> (\<forall>i. check_start (as_i32 tip) \<le> i \<longrightarrow> i < m \<longrightarrow> hash i = stored i)
        \<and> check_for_reorg C W w
          = then_do (ask_storage (send_reorg_event C W (m - 1))) (\<lambda>_ w'. (Ok True, set_last (m - 1) w'))
              (w\<lparr>w_node := n'\<rparr>)"
proof -
  let ?s = "check_start (as_i32 tip)"
  obtain n1 where c: "ask_node get_block_count w = (Ok tip, w\<lparr>w_node := n1\<rparr>)"
    using ask_count [OF assms(1)] .
  have step: "check_for_reorg C W w = (if last_height w < ?s then (Ok False, w\<lparr>w_node := n1\<rparr>)
      else check_heights C W ?s [?s..last_height w] (w\<lparr>w_node := n1\<rparr>))"
    by (simp add: check_for_reorg_def c Let_def)
  show ?thesis
  proof (cases "last_height w < ?s")
    case True
    then have "{?s..last_height w} = {}" by simp
    with step True show ?thesis by auto
  next
    case False
    then have "check_for_reorg C W w = check_heights C W ?s [?s..last_height w] (w\<lparr>w_node := n1\<rparr>)"
      using step by simp
    then show ?thesis
      using check_heights_stable [of "w\<lparr>w_node := n1\<rparr>" hash ?s "last_height w" C W stored ?s]
        assms(2-4) check_start_nonneg by (simp cong: if_cong)
  qed
qed

lemma Min_first:
  fixes m :: int
  assumes "s \<le> m" "m \<le> l" "P m" "\<forall>i. s \<le> i \<longrightarrow> i < m \<longrightarrow> \<not> P i"
  shows "Min {i \<in> {s..l}. P i} = m"
proof (rule Min_eqI)
  show "finite {i \<in> {s..l}. P i}" by (rule finite_Collect_conjI) simp
qed (use assms in \<open>auto simp: not_less [symmetric]\<close>)

text \<open>
  C11. The check for reorganisations is exact.  While the node and the storage service answer
  stably, it compares those of the node's six latest heights that are at or below the last
  processed one: if all hashes agree it changes nothing, and otherwise it sends one \<^verbatim>\<open>ReorgEvent\<close> whose fork height is the one just
  below the first disagreement, and continues from there.
\<close>

theorem reorg_check:
  assumes "node_count (ix_rpc (w_indexer w)) tip"
    and "node_hashes (ix_rpc (w_indexer w)) hash (check_start (as_i32 tip)) (last_height w)"
    and "stored_hashes C W (w_storage w) stored (check_start (as_i32 tip)) (last_height w)"
    and "last_height w < 2147483648" and "connect_fault W = None" and "write_fault W = None"
    and "\<forall>h. \<exists>d. serialize C (ReorgEvent h) = Ok d"
  shows "let differ = {i \<in> {check_start (as_i32 tip)..last_height w}. hash i \<noteq> stored i}
     in if differ = {} then \<exists>n'. check_for_reorg C W w = (Ok False, w\<lparr>w_node := n'\<rparr>)
        else \<exists>n' d. serialize C (ReorgEvent (Min differ - 1)) = Ok d
          \<and> check_for_reorg C W w
            = (Ok True, set_last (Min differ - 1) (w\<lparr>w_node := n', w_storage := post W (frame d) (w_storage w)\<rparr>))"
proof -
  let ?s = "check_start (as_i32 tip)" and ?l = "last_height w"
  show ?thesis
  proof (cases "\<forall>i \<in> {?s..?l}. hash i = stored i")
    case True
    then have "{i \<in> {?s..?l}. hash i \<noteq> stored i} = {}" by auto
    then show ?thesis using check_for_reorg_stable [OF assms(1-4)] True by simp
  next
    case False
    then obtain n' m where m: "?s \<le> m" "m \<le> ?l" "hash m \<noteq> stored m" "\<forall>i. ?s \<le> i \<longrightarrow> i < m \<longrightarrow> hash i = stored i"
      and run: "check_for_reorg C W w
          = then_do (ask_storage (send_reorg_event C W (m - 1))) (\<lambda>_ w'. (Ok True, set_last (m - 1) w'))
              (w\<lparr>w_node := n'\<rparr>)"
      using check_for_reorg_stable [OF assms(1-4)] by (simp only: if_False) blast
    have "Min {i \<in> {?s..?l}. hash i \<noteq> stored i} = m" using m by (intro Min_first) auto
    moreover obtain d where d: "serialize C (ReorgEvent (m - 1)) = Ok d" using assms(7) by blast
    moreover have "ask_storage (send_reorg_event C W (m - 1)) (w\<lparr>w_node := n'\<rparr>)
        = (Ok (), w\<lparr>w_node := n', w_storage := post W (frame d) (w_storage w)\<rparr>)"
      using assms(5,6) d by (simp add: ask_storage_def send_reorg_event_def notify_def)
    moreover have "{i \<in> {?s..?l}. hash i \<noteq> stored i} \<noteq> {}" using False by auto
    ultimately show ?thesis using run by (auto simp: Let_def)
  qed
qed


text \<open>A node whose hash at every height is \<^verbatim>\<open>n\<close>, a storage service that answers \<^verbatim>\<open>n\<close> below 12 and \<^verbatim>\<open>s\<close> above.\<close>

definition still_core :: "unit core_client" where
  "still_core =
     \<lparr>core_block_count = (\<lambda>n. (Ok 14, n)), core_block_hash = (\<lambda>h n. (Ok ''n'', n)),
      core_block = (\<lambda>b n. (Err ''x'', n)), core_block_info = (\<lambda>b n. (Err ''x'', n)),
      core_tx_out = (\<lambda>t v b n. (Ok None, n)), core_raw_transaction = (\<lambda>t b n. (Err ''x'', n))\<rparr>"

definition tag_codec :: codec where
  "tag_codec =
     \<lparr>serialize = (\<lambda>m. case m of ReorgEvent h \<Rightarrow> Ok (CHR ''R'' # show_int h) | GetBlockHash h \<Rightarrow> Ok (CHR ''G'' # show_int h)
        | BlockHashResponse x \<Rightarrow> Ok (CHR ''H'' # x) | _ \<Rightarrow> Err ''unused''),
      deserialize = (\<lambda>d. case d of [] \<Rightarrow> Err ''short'' | c # x \<Rightarrow>
        if c = CHR ''R'' then Ok (ReorgEvent (read_int x)) else if c = CHR ''G'' then Ok (GetBlockHash (read_int x))
        else Ok (BlockHashResponse x))\<rparr>"

definition still_wire :: "string list wire" where
  "still_wire =
     \<lparr>connect_fault = None, write_fault = None,
      ask = (\<lambda>b s. (frame (CHR ''H'' # (if read_int (drop 5 b) < 12 then ''n'' else ''s'')), s)),
      post = (\<lambda>b s. b # s), eof_text = ''eof''\<rparr>"

theorem reorg_check_witness:
  "\<exists>n' d. check_for_reorg tag_codec still_wire
        \<lparr>w_indexer = (small_indexer (Core still_core))\<lparr>ix_last_processed_height := 13\<rparr>, w_node = (), w_storage = []\<rparr>
     = (Ok True, set_last 11
        \<lparr>w_indexer = (small_indexer (Core still_core))\<lparr>ix_last_processed_height := 13\<rparr>, w_node = n', w_storage = [frame d]\<rparr>)"
proof -
  let ?w = "\<lparr>w_indexer = (small_indexer (Core still_core))\<lparr>ix_last_processed_height := 13\<rparr>, w_node = (), w_storage = []\<rparr>"
  have s: "check_start (as_i32 14) = 9"
    by (simp add: check_start_def wrap_i32_def FINALITY_CONFIRMATIONS_def)
  have rpc: "ix_rpc (w_indexer ?w) = Core still_core" by (simp add: small_indexer_def)
  have c: "node_count (ix_rpc (w_indexer ?w)) 14"
    by (simp only: rpc) (simp add: node_count_def still_core_def core_call_def)
  have h: "node_hashes (ix_rpc (w_indexer ?w)) (\<lambda>_. ''n'') (check_start (as_i32 14)) (last_height ?w)"
    by (simp only: rpc) (simp add: node_hashes_def still_core_def core_call_def)
  have "read_frame (frame (CHR ''H'' # x)) = Some (CHR ''H'' # x, [])" if "length x < 100" for x
    using read_frame_frame [of "CHR ''H'' # x" "[]"] that by simp
  then have st: "stored_hashes tag_codec still_wire (w_storage ?w) (\<lambda>h. if h < 12 then ''n'' else ''s'')
      (check_start (as_i32 14)) (last_height ?w)"
    by (auto simp: stored_hashes_def transport_get_block_hash_def request_def tag_codec_def still_wire_def frame_def)
  have d: "{i \<in> {check_start (as_i32 14)..last_height ?w}. ''n'' \<noteq> (if i < 12 then ''n'' else ''s'')} = {12, 13}"
    unfolding s by auto
  have W: "connect_fault still_wire = None" "write_fault still_wire = None"
    "\<forall>h. \<exists>d. serialize tag_codec (ReorgEvent h) = Ok d" "post still_wire b x = b # x" for b x
    by (simp_all add: still_wire_def tag_codec_def)
  have "last_height ?w < 2147483648" by simp
  from reorg_check [OF c h st this W(1-3)] show ?thesis
    unfolding d by (auto simp: W(4))
qed

end
