(* ===== verification/Ledger.thy ===== *)
theory Ledger
  imports Storage_Types
begin

text \<open>
  The abstract specification of a UTXO store: a partial map from outpoint keys to records,
  with the effect of a block, of a rollback and the height-indexed query on it.  The data
  sources refine it; the two facts that make reorganisations and historical queries correct
  (rolling back undoes every block above the fork, and later blocks never change the answer
  for an earlier height) are proved here once.
\<close>

type_synonym ledger = "string \<rightharpoonup> utxo"

section \<open>Operations\<close>

definition unspent_at :: "i32 \<Rightarrow> 't utxo_rec \<Rightarrow> bool" where
  "unspent_at h u \<longleftrightarrow> block_height u \<le> h \<and> (case spent_block u of None \<Rightarrow> True | Some b \<Rightarrow> h < b)"

definition mark_spent :: "'t utxo_rec \<Rightarrow> 't utxo_rec \<Rightarrow> 't utxo_rec" where
  "mark_spent s u = u\<lparr>spent_txid := spent_txid s, spent_at := spent_at s, spent_block := spent_block s\<rparr>"

definition unspend :: "'t utxo_rec \<Rightarrow> 't utxo_rec" where
  "unspend u = u\<lparr>spent_txid := None, spent_at := None, spent_block := None\<rparr>"

definition unspend_after :: "i32 \<Rightarrow> 't utxo_rec \<Rightarrow> 't utxo_rec" where
  "unspend_after h u =
     (case spent_block u of None \<Rightarrow> u | Some b \<Rightarrow> if h < b then unspend u else u)"

definition ledger_create :: "utxo list \<Rightarrow> ledger \<Rightarrow> ledger" where
  "ledger_create us L = L ++ table_of utxo_id us"

definition ledger_spend :: "utxo list \<Rightarrow> ledger \<Rightarrow> ledger" where
  "ledger_spend us L =
     (\<lambda>i. case table_of utxo_id us i of None \<Rightarrow> L i | Some s \<Rightarrow> map_option (mark_spent s) (L i))"

definition ledger_apply :: "pending_changes \<Rightarrow> ledger \<Rightarrow> ledger" where
  "ledger_apply pc L = ledger_spend (utxos_update pc) (ledger_create (utxos_insert pc) L)"

definition ledger_revert :: "i32 \<Rightarrow> ledger \<Rightarrow> ledger" where
  "ledger_revert h L =
     (\<lambda>i. case L i of None \<Rightarrow> None
        | Some u \<Rightarrow> if block_height u \<le> h then Some (unspend_after h u) else None)"

definition spendable_set :: "ledger \<Rightarrow> i32 \<Rightarrow> string \<Rightarrow> utxo set" where
  "spendable_set L h a = {u. \<exists>i. L i = Some u \<and> unspent_at h u \<and> address u = a}"

definition spendable_ids :: "ledger \<Rightarrow> i32 \<Rightarrow> string \<Rightarrow> string set" where
  "spendable_ids L h a = {i. \<exists>u. L i = Some u \<and> unspent_at h u \<and> address u = a}"

section \<open>Well-formed changes\<close>

text \<open>
  What the indexer sends for a block of the chain: every record is valid and keyed by its
  outpoint, created outputs are new, and spent outputs are in the store under the address
  the record names.  In particular an output is not both created and spent by the block.
\<close>

definition valid_utxo :: "utxo \<Rightarrow> bool" where
  "valid_utxo u \<longleftrightarrow> 0 \<le> amount u \<and> address u \<noteq> [] \<and> utxo_id u = outpoint_key (txid u) (vout u)"

definition wf_changes :: "ledger \<Rightarrow> pending_changes \<Rightarrow> bool" where
  "wf_changes L pc \<longleftrightarrow>
     0 \<le> pc_height pc
     \<and> (\<forall>u \<in> set (utxos_insert pc). valid_utxo u \<and> L (utxo_id u) = None)
     \<and> (\<forall>s \<in> set (utxos_update pc). valid_utxo s
          \<and> (\<exists>u. L (utxo_id s) = Some u \<and> address u = address s))
     \<and> distinct (map utxo_id (utxos_insert pc)) \<and> distinct (map utxo_id (utxos_update pc))"

text \<open>The same with the block's height in its records, and only unspent outputs spent.\<close>

definition wf_block :: "ledger \<Rightarrow> pending_changes \<Rightarrow> bool" where
  "wf_block L pc \<longleftrightarrow> wf_changes L pc
     \<and> (\<forall>u \<in> set (utxos_insert pc). block_height u = pc_height pc
          \<and> spent_txid u = None \<and> spent_at u = None \<and> spent_block u = None)
     \<and> (\<forall>s \<in> set (utxos_update pc). spent_block s = Some (pc_height pc)
          \<and> (\<forall>u. L (utxo_id s) = Some u \<longrightarrow> u = unspend u))"

fun wf_chain :: "ledger \<Rightarrow> pending_changes list \<Rightarrow> bool" where
  "wf_chain L [] = True"
| "wf_chain L (pc # pcs) = (wf_block L pc \<and> wf_chain (ledger_apply pc L) pcs)"

definition ledger_run :: "pending_changes list \<Rightarrow> ledger \<Rightarrow> ledger" where
  "ledger_run pcs L = fold ledger_apply pcs L"

lemma wf_chain_append: "wf_chain L (xs @ ys) \<longleftrightarrow> wf_chain L xs \<and> wf_chain (ledger_run xs L) ys"
  by (induction xs arbitrary: L) (auto simp: ledger_run_def)

text \<open>Every record is about heights up to \<open>h\<close>.\<close>

definition ledger_upto :: "i32 \<Rightarrow> ledger \<Rightarrow> bool" where
  "ledger_upto h L \<longleftrightarrow>
     (\<forall>i u. L i = Some u \<longrightarrow> block_height u \<le> h
        \<and> (case spent_block u of None \<Rightarrow> True | Some b \<Rightarrow> b \<le> h))"

lemma mark_spent_sel [simp]:
  "utxo_id (mark_spent s u) = utxo_id u" "address (mark_spent s u) = address u"
  "txid (mark_spent s u) = txid u" "vout (mark_spent s u) = vout u"
  "amount (mark_spent s u) = amount u" "block_height (mark_spent s u) = block_height u"
  "spent_txid (mark_spent s u) = spent_txid s" "spent_block (mark_spent s u) = spent_block s"
  by (simp_all add: mark_spent_def)

lemma unspend_sel [simp]:
  "utxo_id (unspend u) = utxo_id u" "address (unspend u) = address u"
  "txid (unspend u) = txid u" "vout (unspend u) = vout u"
  "amount (unspend u) = amount u" "block_height (unspend u) = block_height u"
  "spent_txid (unspend u) = None" "spent_block (unspend u) = None"
  by (simp_all add: unspend_def)

lemma unspend_after_sel [simp]:
  "utxo_id (unspend_after h u) = utxo_id u" "address (unspend_after h u) = address u"
  "txid (unspend_after h u) = txid u" "vout (unspend_after h u) = vout u"
  "amount (unspend_after h u) = amount u" "block_height (unspend_after h u) = block_height u"
  by (simp_all add: unspend_after_def split: option.splits)

lemma valid_mark_spent [simp]: "valid_utxo (mark_spent s u) = valid_utxo u"
  by (simp add: valid_utxo_def)

lemma valid_unspend_after [simp]: "valid_utxo (unspend_after h u) = valid_utxo u"
  by (simp add: valid_utxo_def)

lemma ledger_revert_Some:
  "ledger_revert h L i = Some u \<longleftrightarrow> (\<exists>v. L i = Some v \<and> block_height v \<le> h \<and> u = unspend_after h v)"
  by (auto simp: ledger_revert_def split: option.splits)

lemma check_valid [simp]: "valid_utxo u \<Longrightarrow> check_utxo u = Ok ()"
  by (simp add: valid_utxo_def)

section \<open>Rolling back\<close>

lemma unspend_after_mark [simp]:
  assumes "u = unspend u" and "spent_block s = Some b" and "h < b"
  shows "unspend_after h (mark_spent s u) = u"
  using assms by (simp add: unspend_after_def mark_spent_def unspend_def)

lemma unspend_after_unspent: "u = unspend u \<Longrightarrow> unspend_after h u = u"
  by (metis option.simps(4) unspend_after_def unspend_def utxo_rec.ext_inject utxo_rec.surjective utxo_rec.update_convs(13))

lemma ledger_revert_apply:
  assumes wf: "wf_block L pc" and h: "h < pc_height pc"
  shows "ledger_revert h (ledger_apply pc L) = ledger_revert h L"
proof
  fix i
  show "ledger_revert h (ledger_apply pc L) i = ledger_revert h L i"
  proof (cases "table_of utxo_id (utxos_update pc) i")
    case (Some s)
    then have s: "s \<in> set (utxos_update pc)" "utxo_id s = i"
      by (auto dest: table_of_SomeD)
    then obtain u where u: "L i = Some u" "u = unspend u" and b: "spent_block s = Some (pc_height pc)"
      using wf unfolding wf_block_def wf_changes_def by blast
    then have "table_of utxo_id (utxos_insert pc) i = None"
      using wf unfolding wf_block_def wf_changes_def by (auto simp: table_of_None)
    then show ?thesis
      using Some u(1) b h u(2)
      by (simp add: ledger_apply_def ledger_spend_def ledger_create_def ledger_revert_def map_add_def
          unspend_after_unspent)
  next
    case None
    then show ?thesis
    proof (cases "table_of utxo_id (utxos_insert pc) i")
      case (Some u)
      then have "u \<in> set (utxos_insert pc)" "utxo_id u = i"
        by (auto dest: table_of_SomeD)
      then have "L i = None" "block_height u = pc_height pc"
        using wf by (auto simp: wf_block_def wf_changes_def)
      with None Some h show ?thesis
        by (simp add: ledger_apply_def ledger_spend_def ledger_create_def ledger_revert_def map_add_def)
    qed (simp add: ledger_apply_def ledger_spend_def ledger_create_def ledger_revert_def map_add_def)
  qed
qed

lemma ledger_revert_upto: "ledger_upto h L \<Longrightarrow> ledger_revert h L = L"
  by (rule ext) (fastforce simp: ledger_revert_def ledger_upto_def unspend_after_def split: option.splits)

lemma ledger_upto_mono: "ledger_upto h L \<Longrightarrow> h \<le> h' \<Longrightarrow> ledger_upto h' L"
  by (fastforce simp: ledger_upto_def split: option.splits)

lemma ledger_upto_apply:
  assumes "ledger_upto h L" and "wf_block L pc" and "pc_height pc \<le> h"
  shows "ledger_upto h (ledger_apply pc L)"
proof -
  have C: "ledger_upto h (ledger_create (utxos_insert pc) L)"
    using assms by (auto simp: ledger_upto_def ledger_create_def wf_block_def map_add_Some_iff dest!: table_of_SomeD)
  then have "block_height u \<le> h" if "ledger_create (utxos_insert pc) L i = Some u" for i u
    using that by (auto simp: ledger_upto_def)
  moreover have "spent_block s = Some (pc_height pc)" if "table_of utxo_id (utxos_update pc) i = Some s" for i s
    using assms(2) table_of_SomeD [OF that] by (auto simp: wf_block_def)
  ultimately show ?thesis
    using C assms(3) by (auto simp: ledger_upto_def ledger_apply_def ledger_spend_def split: option.splits)
qed

lemma ledger_upto_run:
  assumes "ledger_upto h L" and "wf_chain L pcs" and "\<forall>pc \<in> set pcs. pc_height pc \<le> h"
  shows "ledger_upto h (ledger_run pcs L)"
  using assms
proof (induction pcs arbitrary: L)
  case (Cons pc pcs)
  then show ?case by (simp add: ledger_run_def ledger_upto_apply)
qed (simp add: ledger_run_def)

lemma ledger_revert_run:
  assumes "wf_chain L pcs" and "\<forall>pc \<in> set pcs. h < pc_height pc"
  shows "ledger_revert h (ledger_run pcs L) = ledger_revert h L"
  using assms
proof (induction pcs arbitrary: L)
  case Nil
  then show ?case by (simp add: ledger_run_def)
next
  case (Cons pc pcs)
  then have "ledger_revert h (ledger_run pcs (ledger_apply pc L)) = ledger_revert h (ledger_apply pc L)"
    by simp
  with Cons.prems show ?case
    by (simp add: ledger_run_def ledger_revert_apply)
qed

lemma ledger_revert_idem: "h \<le> h' \<Longrightarrow> ledger_revert h (ledger_revert h' L) = ledger_revert h L"
  by (rule ext) (auto simp: ledger_revert_def unspend_after_def unspend_def split: option.splits)

section \<open>Historical queries\<close>

lemma spendable_ids_revert: "spendable_ids (ledger_revert h L) h a = spendable_ids L h a"
  by (auto simp: spendable_ids_def ledger_revert_def unspend_after_def unspent_at_def unspend_def
      split: option.splits if_splits)

lemma spendable_ids_run:
  assumes "wf_chain L pcs" and "\<forall>pc \<in> set pcs. h < pc_height pc"
  shows "spendable_ids (ledger_run pcs L) h a = spendable_ids L h a"
  using ledger_revert_run [OF assms] spendable_ids_revert by metis

end
