(* ===== verification/Datasource.thy ===== *)
theory Datasource
  imports Ledger
begin

text \<open>
  The contract of the trait \<^verbatim>\<open>Datasource\<close>, as a locale: a view of the state as a ledger, a
  view of its main chain as a map from heights to hashes, an invariant, and the laws a
  client may rely on while no fault occurs (\<open>healthy\<close>).  Both data sources interpret it, and
  the database's lemmas are proved inside it.
\<close>

locale datasource_contract =
  fixes D :: "'s datasource"
    and view :: "'s \<Rightarrow> ledger"
    and chain :: "'s \<Rightarrow> i32 \<Rightarrow> string option"
    and inv :: "'s \<Rightarrow> bool"
    and hash_fresh :: "i32 \<Rightarrow> string \<Rightarrow> 's \<Rightarrow> bool"
    and healthy :: bool
  assumes process_refines:
      "healthy \<Longrightarrow> inv s \<Longrightarrow> wf_changes (view s) pc \<Longrightarrow>
       \<exists>s'. ds_process_block_utxos D pc s = (Ok (), s') \<and> inv s'
          \<and> view s' = ledger_apply pc (view s) \<and> chain s' = chain s"
    and process_negative:
      "pc_height pc < 0 \<Longrightarrow> ds_process_block_utxos D pc s = (Err (InvalidBlockHeight (pc_height pc)), s)"
    and spendable_refines:
      "healthy \<Longrightarrow> inv s \<Longrightarrow> 0 \<le> h \<Longrightarrow> a \<noteq> [] \<Longrightarrow>
       \<exists>us. ds_get_spendable_utxos_at_height D h a s = Ok us \<and> distinct us
          \<and> set us = spendable_set (view s) h a"
    and outpoint_refines:
      "healthy \<Longrightarrow> inv s \<Longrightarrow> ds_get_utxo_by_outpoint D t v s = Ok (view s (outpoint_key t v))"
    and revert_refines:
      "healthy \<Longrightarrow> inv s \<Longrightarrow>
       \<exists>s'. ds_revert_utxos_after_height D h s = (Ok (), s') \<and> inv s'
          \<and> view s' = ledger_revert h (view s) \<and> chain s' = chain s"
    and store_block_refines:
      "healthy \<Longrightarrow> inv s \<Longrightarrow> hash_fresh h x s \<Longrightarrow>
       \<exists>s'. ds_store_block D h x ts s = (Ok (), s') \<and> inv s'
          \<and> view s' = view s \<and> chain s' = (chain s)(h \<mapsto> x)"
    and off_main_refines:
      "healthy \<Longrightarrow> inv s \<Longrightarrow>
       \<exists>s'. ds_mark_blocks_after_height_not_main_chain D h s = (Ok (), s') \<and> inv s'
          \<and> view s' = view s \<and> chain s' = chain s |` {..h}"
    and final_refines:
      "healthy \<Longrightarrow> inv s \<Longrightarrow>
       \<exists>s'. ds_mark_blocks_as_final D h s = (Ok (), s') \<and> inv s'
          \<and> view s' = view s \<and> chain s' = chain s"
    and hash_refines:
      "healthy \<Longrightarrow> inv s \<Longrightarrow> 0 < h \<Longrightarrow> ds_get_block_hash D h s = Ok (chain s h)"
    and hash_fresh_store:
      "hash_fresh h x s \<Longrightarrow> x \<noteq> x' \<Longrightarrow> ds_store_block D h' x' ts s = (Ok (), s') \<Longrightarrow> hash_fresh h x s'"
    and hash_fresh_process:
      "hash_fresh h x s \<Longrightarrow> ds_process_block_utxos D pc s = (Ok (), s') \<Longrightarrow> hash_fresh h x s'"
    and hash_fresh_final:
      "hash_fresh h x s \<Longrightarrow> ds_mark_blocks_as_final D h' s = (Ok (), s') \<Longrightarrow> hash_fresh h x s'"
    and hash_fresh_off_main:
      "hash_fresh h x s \<Longrightarrow> ds_mark_blocks_after_height_not_main_chain D h' s = (Ok (), s') \<Longrightarrow> hash_fresh h x s'"
    and view_valid: "healthy \<Longrightarrow> inv s \<Longrightarrow> view s i = Some u \<Longrightarrow> valid_utxo u \<and> utxo_id u = i"
begin

text \<open>A chain of well-formed blocks, one \<^verbatim>\<open>process_block_utxos\<close> after the other.\<close>

lemma process_chain:
  assumes "healthy" and "inv s" and "wf_chain (view s) pcs"
  shows "\<exists>s'. fold (\<lambda>pc t. snd (ds_process_block_utxos D pc t)) pcs s = s' \<and> inv s'
     \<and> view s' = ledger_run pcs (view s) \<and> chain s' = chain s"
  using assms(2,3)
proof (induction pcs arbitrary: s)
  case Nil
  then show ?case by (simp add: ledger_run_def)
next
  case (Cons pc pcs)
  then have "wf_changes (view s) pc" by (simp add: wf_block_def)
  from process_refines [OF assms(1) Cons.prems(1) this] obtain t
    where t: "ds_process_block_utxos D pc s = (Ok (), t)" "inv t"
      "view t = ledger_apply pc (view s)" "chain t = chain s" by blast
  from Cons.prems t(3) have "wf_chain (view t) pcs" by simp
  from Cons.IH [OF t(2) this] show ?case
    by (simp add: t ledger_run_def)
qed

text \<open>Rolling back to \<open>h\<close> undoes every block above \<open>h\<close>.\<close>

lemma revert_undoes_chain:
  assumes "healthy" and "inv s" and "wf_chain (view s) pcs"
    and "\<forall>pc \<in> set pcs. h < pc_height pc" and "ledger_upto h (view s)"
  shows "view (snd (ds_revert_utxos_after_height D h
            (fold (\<lambda>pc t. snd (ds_process_block_utxos D pc t)) pcs s))) = view s"
proof -
  from process_chain [OF assms(1-3)] obtain t
    where t: "fold (\<lambda>pc t. snd (ds_process_block_utxos D pc t)) pcs s = t" "inv t"
      "view t = ledger_run pcs (view s)" by blast
  from revert_refines [OF assms(1) t(2), of h] have
    "view (snd (ds_revert_utxos_after_height D h t)) = ledger_revert h (view t)" by force
  then show ?thesis
    using ledger_revert_run [OF assms(3,4)] ledger_revert_upto [OF assms(5)] by (simp add: t)
qed

text \<open>Blocks above \<open>h\<close> never change which outputs were spendable at \<open>h\<close>.\<close>

lemma spendable_ids_of_answer:
  assumes "healthy" and "inv s" and "0 \<le> h" and "a \<noteq> []"
    and "ds_get_spendable_utxos_at_height D h a s = Ok us"
  shows "utxo_id ` set us = spendable_ids (view s) h a"
proof -
  from spendable_refines [OF assms(1-4)] assms(5) have "set us = spendable_set (view s) h a"
    by auto
  then show ?thesis
    using view_valid [OF assms(1,2)] by (force simp: spendable_set_def spendable_ids_def)
qed

lemma history_stable:
  assumes "healthy" and "inv s" and "wf_chain (view s) pcs"
    and "\<forall>pc \<in> set pcs. h < pc_height pc" and "0 \<le> h" and "a \<noteq> []"
    and "ds_get_spendable_utxos_at_height D h a s = Ok us"
    and "ds_get_spendable_utxos_at_height D h a
           (fold (\<lambda>pc t. snd (ds_process_block_utxos D pc t)) pcs s) = Ok us'"
  shows "utxo_id ` set us' = utxo_id ` set us"
proof -
  from process_chain [OF assms(1-3)] obtain t
    where t: "fold (\<lambda>pc t. snd (ds_process_block_utxos D pc t)) pcs s = t" "inv t"
      "view t = ledger_run pcs (view s)" by blast
  show ?thesis
    using spendable_ids_of_answer [OF assms(1,2,5-7)]
      spendable_ids_of_answer [OF assms(1) t(2) assms(5,6)] assms(8)
      spendable_ids_run [OF assms(3,4)] by (simp add: t)
qed

end

end
