(* ===== verification/Database.thy ===== *)
theory Database
  imports Datasource
begin

text \<open>
  \<^verbatim>\<open>UtxoDatabase\<close> (\<^verbatim>\<open>storage/src/database.rs\<close>): validation, coin selection, finality and the
  handling of reorganisations over any data source \<open>D\<close> with state \<open>'s\<close>.
\<close>

section \<open>Operations\<close>

definition db_get_latest_block :: "'s datasource \<Rightarrow> 's \<Rightarrow> i32 sres" where
  "db_get_latest_block D s = ds_get_latest_block D s"

text \<open>The loop of \<^verbatim>\<open>process_block\<close> over the updates of a block.\<close>

fun gather_changes :: "utxo list \<Rightarrow> pending_changes \<Rightarrow> pending_changes sres" where
  "gather_changes [] pc = Ok pc"
| "gather_changes (u # us) pc =
     and_then (check_utxo u) (\<lambda>_.
       gather_changes us
         (if spent_txid u \<noteq> None then pc\<lparr>utxos_update := utxos_update pc @ [u]\<rparr>
          else pc\<lparr>utxos_insert := utxos_insert pc @ [u]\<rparr>))"

definition process_block :: "'s datasource \<Rightarrow> block_update \<Rightarrow> 's \<Rightarrow> unit sres \<times> 's" where
  "process_block D block s =
     (if bu_height block < 0 then (Err (InvalidBlockHeight (bu_height block)), s)
      else case gather_changes (utxo_updates block)
                  \<lparr>pc_height = bu_height block, utxos_update = [], utxos_insert = []\<rparr> of
        Ok pc \<Rightarrow> ds_process_block_utxos D pc s
      | Err e \<Rightarrow> (Err e, s)
      | Panic \<Rightarrow> (Panic, s))"

definition db_get_spendable_utxos_at_height :: "'s datasource \<Rightarrow> i32 \<Rightarrow> string \<Rightarrow> 's \<Rightarrow> utxo list sres" where
  "db_get_spendable_utxos_at_height D h a s =
     and_then (check_height h) (\<lambda>_. and_then (check_address a) (\<lambda>_.
       ds_get_spendable_utxos_at_height D h a s))"

text \<open>The accumulation is in \<^verbatim>\<open>i64\<close> and wraps.\<close>

fun select_loop :: "i64 \<Rightarrow> utxo list \<Rightarrow> utxo list \<Rightarrow> i64 \<Rightarrow> utxo list \<times> i64" where
  "select_loop target [] sel acc = (sel, acc)"
| "select_loop target (u # us) sel acc =
     (if target \<le> acc then (sel, acc)
      else select_loop target us (sel @ [u]) (wrap_i64 (acc + amount u)))"

definition select_utxos_for_amount :: "'s datasource \<Rightarrow> i32 \<Rightarrow> string \<Rightarrow> i64 \<Rightarrow> 's \<Rightarrow> utxo list sres" where
  "select_utxos_for_amount D h a target s =
     and_then (check_height h) (\<lambda>_. and_then (check_address a) (\<lambda>_.
       if target \<le> 0 then Err (InvalidAmount target)
       else and_then (db_get_spendable_utxos_at_height D h a s) (\<lambda>us.
         if us = [] then Ok []
         else let (sel, acc) = select_loop target (sort_key block_height us) [] 0
              in if target \<le> acc then Ok sel else Err (InsufficientFunds acc target))))"

definition db_get_utxos_for_block_and_address :: "'s datasource \<Rightarrow> i32 \<Rightarrow> string \<Rightarrow> 's \<Rightarrow> utxo list sres" where
  "db_get_utxos_for_block_and_address D h a s =
     and_then (check_height h) (\<lambda>_. and_then (check_address a) (\<lambda>_.
       ds_get_utxos_for_block_and_address D h a s))"

definition db_get_utxo_by_outpoint :: "'s datasource \<Rightarrow> string \<Rightarrow> i32 \<Rightarrow> 's \<Rightarrow> utxo option sres" where
  "db_get_utxo_by_outpoint D t v s =
     (if t = [] then Err (InvalidAddress ''Empty txid'')
      else if v < 0 then Err (InvalidBlockHeight v)
      else ds_get_utxo_by_outpoint D t v s)"

text \<open>
  The transactions of a block: creators, and spenders in this block.  They are collected in
  a \<^verbatim>\<open>HashSet\<close>, whose iteration order is the parameter \<open>pos\<close>.
\<close>

definition txids_of :: "i32 \<Rightarrow> utxo \<Rightarrow> string list" where
  "txids_of h u = txid u # (case spent_txid u of None \<Rightarrow> []
     | Some t \<Rightarrow> if spent_block u = Some h then [t] else [])"

definition db_get_block_txids :: "'s datasource \<Rightarrow> (string \<Rightarrow> nat) \<Rightarrow> i32 \<Rightarrow> 's \<Rightarrow> string list sres" where
  "db_get_block_txids D pos h s =
     and_then (check_height h) (\<lambda>_.
     and_then (ds_get_all_utxos_for_block D h s) (\<lambda>us.
       Ok (sort_key pos (remdups (concat (map (txids_of h) us))))))"

definition finality_threshold :: "i32 \<Rightarrow> i32" where
  "finality_threshold h = wrap_i32 (wrap_i32 (h - FINALITY_CONFIRMATIONS) + 1)"

definition update_finality_status :: "'s datasource \<Rightarrow> i32 \<Rightarrow> 's \<Rightarrow> unit sres \<times> 's" where
  "update_finality_status D current_height s =
     (if 0 < finality_threshold current_height
      then ds_mark_blocks_as_final D (finality_threshold current_height) s
      else (Ok (), s))"

definition safe_revert_height :: "i32 \<Rightarrow> i32 \<Rightarrow> i32" where
  "safe_revert_height latest height =
     max (max height 0) (wrap_i32 (max (finality_threshold latest) 0 - 1))"

text \<open>\<^verbatim>\<open>unwrap_or_default\<close>: a failing query for the latest block reads as 0.\<close>

definition revert_to_height :: "'s datasource \<Rightarrow> i32 \<Rightarrow> 's \<Rightarrow> unit sres \<times> 's" where
  "revert_to_height D height s =
     (case db_get_latest_block D s of
        Panic \<Rightarrow> (Panic, s)
      | r \<Rightarrow>
         (let latest = (case r of Ok l \<Rightarrow> l | _ \<Rightarrow> 0);
              safe = safe_revert_height latest height
          in if latest = 0 then (Ok (), s)
             else case ds_mark_blocks_after_height_not_main_chain D safe s of
                    (Ok _, s1) \<Rightarrow> ds_revert_utxos_after_height D safe s1
                  | (e, s1) \<Rightarrow> (e, s1)))"

definition db_get_block_hash :: "'s datasource \<Rightarrow> i32 \<Rightarrow> 's \<Rightarrow> string sres" where
  "db_get_block_hash D h s =
     and_then (ds_get_block_hash D h s) (\<lambda>x. case x of Some hash \<Rightarrow> Ok hash | None \<Rightarrow> Err (BlockNotFound h))"

definition db_store_block :: "'s datasource \<Rightarrow> i32 \<Rightarrow> string \<Rightarrow> datetime \<Rightarrow> 's \<Rightarrow> unit sres \<times> 's" where
  "db_store_block D h x ts s = ds_store_block D h x ts s"

section \<open>Validation\<close>

definition changes_of :: "block_update \<Rightarrow> pending_changes" where
  "changes_of b =
     \<lparr>pc_height = bu_height b, utxos_update = filter (\<lambda>u. spent_txid u \<noteq> None) (utxo_updates b),
      utxos_insert = filter (\<lambda>u. spent_txid u = None) (utxo_updates b)\<rparr>"

lemma gather_changes_valid:
  "\<forall>u \<in> set us. check_utxo u = Ok () \<Longrightarrow>
   gather_changes us pc = Ok (pc\<lparr>utxos_update := utxos_update pc @ filter (\<lambda>u. spent_txid u \<noteq> None) us,
     utxos_insert := utxos_insert pc @ filter (\<lambda>u. spent_txid u = None) us\<rparr>)"
  by (induction us arbitrary: pc) (simp_all del: check_utxo_Ok)

lemma gather_changes_invalid:
  "check_utxo u = Err e \<Longrightarrow> \<forall>v \<in> set us. check_utxo v = Ok () \<Longrightarrow>
   gather_changes (us @ u # vs) pc = Err e"
  by (induction us arbitrary: pc) (simp_all del: check_utxo_Ok)

lemma process_block_valid:
  "0 \<le> bu_height b \<Longrightarrow> \<forall>u \<in> set (utxo_updates b). check_utxo u = Ok () \<Longrightarrow>
   process_block D b s = ds_process_block_utxos D (changes_of b) s"
  by (simp add: process_block_def gather_changes_valid changes_of_def del: check_utxo_Ok)

lemma process_block_invalid:
  "0 \<le> bu_height b \<Longrightarrow> utxo_updates b = us @ u # vs \<Longrightarrow> \<forall>v \<in> set us. check_utxo v = Ok () \<Longrightarrow>
   check_utxo u = Err e \<Longrightarrow> process_block D b s = (Err e, s)"
  by (simp add: process_block_def gather_changes_invalid del: check_utxo_Ok)

lemma wf_changes_checked:
  "wf_changes L (changes_of b) \<Longrightarrow> 0 \<le> bu_height b \<and> (\<forall>u \<in> set (utxo_updates b). check_utxo u = Ok ())"
proof -
  assume W: "wf_changes L (changes_of b)"
  have "valid_utxo u" if "u \<in> set (utxo_updates b)" for u
    using that W by (cases "spent_txid u") (auto simp: wf_changes_def changes_of_def)
  with W show ?thesis by (simp add: wf_changes_def changes_of_def del: check_utxo_Ok)
qed

section \<open>Coin selection\<close>

lemma select_loop_prefix:
  assumes "\<forall>u \<in> set us. 0 \<le> amount u" and "0 \<le> acc" and "acc + sum_by amount us < 9223372036854775808"
  shows "\<exists>n \<le> length us. select_loop t us sel acc = (sel @ take n us, acc + sum_by amount (take n us))
     \<and> (\<forall>m < n. acc + sum_by amount (take m us) < t)
     \<and> (n < length us \<longrightarrow> t \<le> acc + sum_by amount (take n us))"
  using assms
proof (induction us arbitrary: sel acc)
  case Nil
  then show ?case by simp
next
  case (Cons u us)
  have u: "0 \<le> amount u" "0 \<le> sum_by amount us" using Cons.prems(1) by (auto intro: sum_by_nonneg)
  then have wrap: "wrap_i64 (acc + amount u) = acc + amount u"
    using Cons.prems by (intro wrap_i64_id) (simp add: in_i64_def)
  show ?case
  proof (cases "t \<le> acc")
    case True
    then show ?thesis by (intro exI [of _ 0]) simp
  next
    case False
    have "\<forall>u \<in> set us. 0 \<le> amount u" "0 \<le> acc + amount u"
      "acc + amount u + sum_by amount us < 9223372036854775808"
      using Cons.prems u by auto
    from Cons.IH [OF this, of "sel @ [u]"] obtain n where n: "n \<le> length us"
      "select_loop t us (sel @ [u]) (acc + amount u) = (sel @ u # take n us, acc + amount u + sum_by amount (take n us))"
      "\<forall>m < n. acc + amount u + sum_by amount (take m us) < t"
      "n < length us \<longrightarrow> t \<le> acc + amount u + sum_by amount (take n us)" by auto
    have "acc + sum_by amount (take m (u # us)) < t" if "m < Suc n" for m
      using that False n(3) by (cases m) (auto simp: add.assoc)
    with n False wrap show ?thesis by (intro exI [of _ "Suc n"]) (auto simp: add.assoc)
  qed
qed

text \<open>The outcome of selection on the sorted candidates.\<close>

definition fifo_selection :: "i64 \<Rightarrow> utxo list \<Rightarrow> utxo list \<Rightarrow> bool" where
  "fifo_selection target us sel \<longleftrightarrow>
     (\<exists>n. sel = take n (sort_key block_height us) \<and> target \<le> sum_by amount sel
        \<and> (\<forall>m < n. sum_by amount (take m (sort_key block_height us)) < target))"

lemma sum_by_sort [simp]: "sum_by f (sort_key k xs) = sum_by f xs"
  by (rule sum_by_mset) simp

lemma select_loop_cases:
  assumes "\<forall>u \<in> set us. 0 \<le> amount u" and "sum_by amount us < 9223372036854775808"
    and "select_loop t (sort_key block_height us) [] 0 = (sel, acc)"
  shows "if t \<le> acc then fifo_selection t us sel else acc = sum_by amount us \<and> sum_by amount us < t"
proof -
  obtain n where n: "n \<le> length us" "sel = take n (sort_key block_height us)"
    "acc = sum_by amount (take n (sort_key block_height us))"
    "\<forall>m < n. sum_by amount (take m (sort_key block_height us)) < t"
    "n < length us \<longrightarrow> t \<le> acc"
    using select_loop_prefix [of "sort_key block_height us" 0 t "[]"] assms by auto
  show ?thesis
  proof (cases "t \<le> acc")
    case True
    with n show ?thesis by (auto simp: fifo_selection_def)
  next
    case False
    with n have "n = length us" by auto
    with n(3) False show ?thesis by simp
  qed
qed

lemma fifo_selection_subset: "fifo_selection t us sel \<Longrightarrow> set sel \<subseteq> set us"
  by (metis fifo_selection_def set_sort set_take_subset)

lemma fifo_selection_distinct: "fifo_selection t us sel \<Longrightarrow> distinct us \<Longrightarrow> distinct sel"
  by (auto simp: fifo_selection_def)

lemma fifo_selection_minimal:
  assumes "fifo_selection t us sel" and "0 < t"
  shows "sel \<noteq> [] \<and> sum_by amount (butlast sel) < t"
proof -
  obtain n where n: "sel = take n (sort_key block_height us)" "t \<le> sum_by amount sel"
    "\<forall>m < n. sum_by amount (take m (sort_key block_height us)) < t"
    using assms(1) by (auto simp: fifo_selection_def)
  from n(2) assms(2) have "sel \<noteq> []" by auto
  then have "butlast sel = take (min n (length us) - 1) (sort_key block_height us)"
    "min n (length us) - 1 < n"
    using n(1) by (auto simp: butlast_conv_take min_def)
  with n(3) \<open>sel \<noteq> []\<close> show ?thesis by auto
qed

lemma fifo_selection_oldest:
  assumes "fifo_selection t us sel" and "u \<in> set sel" and "v \<in> set us - set sel"
  shows "block_height u \<le> block_height v"
proof -
  obtain n where n: "sel = take n (sort_key block_height us)" using assms(1) by (auto simp: fifo_selection_def)
  have "v \<in> set (drop n (sort_key block_height us))"
    using assms(3) n by (metis DiffD1 DiffD2 Un_iff append_take_drop_id set_append set_sort)
  moreover have "sorted (map block_height (take n (sort_key block_height us) @ drop n (sort_key block_height us)))"
    by simp
  ultimately show ?thesis
    using assms(2) n unfolding map_append sorted_append by auto
qed

section \<open>Finality\<close>

lemma finality_threshold_eq:
  "-2147483642 \<le> h \<Longrightarrow> h < 2147483648 \<Longrightarrow> finality_threshold h = h - 5"
  by (simp add: finality_threshold_def FINALITY_CONFIRMATIONS_def wrap_i32_id in_i32_def)

lemma safe_revert_height_eq:
  "0 \<le> l \<Longrightarrow> l < 2147483648 \<Longrightarrow> safe_revert_height l h = max (max h 0) (max (l - 5) 0 - 1)"
  by (simp add: safe_revert_height_def finality_threshold_eq wrap_i32_id in_i32_def max_def)

section \<open>The database over a data source that keeps its contract\<close>

context datasource_contract
begin

lemma process_block_refines:
  assumes "healthy" and "inv s" and "wf_changes (view s) (changes_of b)"
  shows "\<exists>s'. process_block D b s = (Ok (), s') \<and> inv s'
     \<and> view s' = ledger_apply (changes_of b) (view s) \<and> chain s' = chain s"
  using process_refines [OF assms] wf_changes_checked [OF assms(3)] by (simp add: process_block_valid)

lemma db_spendable_refines:
  assumes "healthy" and "inv s" and "0 \<le> h" and "a \<noteq> []"
  shows "\<exists>us. db_get_spendable_utxos_at_height D h a s = Ok us \<and> distinct us
     \<and> set us = spendable_set (view s) h a"
  using spendable_refines [OF assms] assms by (simp add: db_get_spendable_utxos_at_height_def)

text \<open>Selection over any order in which the data source lists the candidates.\<close>

lemma select_refines:
  assumes H: "healthy" and I: "inv s" and h: "0 \<le> h" and a: "a \<noteq> []" and t: "0 < t"
    and bound: "sum amount (spendable_set (view s) h a) < 9223372036854775808"
  shows "\<exists>us. distinct us \<and> set us = spendable_set (view s) h a
     \<and> select_utxos_for_amount D h a t s =
         (if us = [] then Ok []
          else if sum amount (spendable_set (view s) h a) < t
          then Err (InsufficientFunds (sum amount (spendable_set (view s) h a)) t)
          else Ok (fst (select_loop t (sort_key block_height us) [] 0)))
     \<and> (us \<noteq> [] \<longrightarrow> t \<le> sum amount (spendable_set (view s) h a) \<longrightarrow>
          fifo_selection t us (fst (select_loop t (sort_key block_height us) [] 0)))"
proof -
  obtain us where us: "db_get_spendable_utxos_at_height D h a s = Ok us" "distinct us"
    "set us = spendable_set (view s) h a"
    using db_spendable_refines [OF H I h a] by blast
  have total: "sum_by amount us = sum amount (spendable_set (view s) h a)"
    using us(2,3) by (metis sum_by_def sum.distinct_set_conv_list)
  have nonneg: "\<forall>u \<in> set us. 0 \<le> amount u"
    using view_valid [OF H I] by (auto simp: us(3) spendable_set_def valid_utxo_def)
  obtain sel acc where loop: "select_loop t (sort_key block_height us) [] 0 = (sel, acc)"
    by force
  have cases: "if t \<le> acc then fifo_selection t us sel else acc = sum_by amount us \<and> sum_by amount us < t"
    using select_loop_cases [OF nonneg _ loop] bound total by simp
  have le: "sum_by amount sel \<le> sum_by amount us" if "fifo_selection t us sel"
    using that nonneg sum_by_take_le [of "sort_key block_height us" amount]
    by (auto simp: fifo_selection_def)
  have "t \<le> acc \<longleftrightarrow> t \<le> sum_by amount us"
    using cases le by (auto simp: fifo_selection_def split: if_splits)
  then show ?thesis
    using us cases loop total h a t
    by (intro exI [of _ us]) (auto simp: select_utxos_for_amount_def split: if_splits)
qed

text \<open>The outcome of a selection, without reference to the order of the candidates.\<close>

lemma select_outcome:
  assumes "healthy" and "inv s" and "0 \<le> h" and "a \<noteq> []" and "0 < t"
    and "sum amount (spendable_set (view s) h a) < 9223372036854775808"
  shows "let S = spendable_set (view s) h a
     in case select_utxos_for_amount D h a t s of
          Ok sel \<Rightarrow> if S = {} then sel = []
            else set sel \<subseteq> S \<and> distinct sel \<and> t \<le> sum_by amount sel
               \<and> sel \<noteq> [] \<and> sum_by amount (butlast sel) < t
               \<and> (\<forall>u \<in> set sel. \<forall>v \<in> S - set sel. block_height u \<le> block_height v)
        | Err e \<Rightarrow> S \<noteq> {} \<and> sum amount S < t \<and> e = InsufficientFunds (sum amount S) t
        | Panic \<Rightarrow> False"
proof -
  let ?S = "spendable_set (view s) h a"
  obtain us where us: "distinct us" "set us = ?S"
    and run: "select_utxos_for_amount D h a t s =
      (if us = [] then Ok [] else if sum amount ?S < t then Err (InsufficientFunds (sum amount ?S) t)
       else Ok (fst (select_loop t (sort_key block_height us) [] 0)))"
    and fifo: "us \<noteq> [] \<longrightarrow> t \<le> sum amount ?S \<longrightarrow>
      fifo_selection t us (fst (select_loop t (sort_key block_height us) [] 0))"
    using select_refines [OF assms] by blast
  show ?thesis
  proof (cases "us = [] \<or> sum amount ?S < t")
    case True
    then show ?thesis using us(2) run by (auto simp: Let_def)
  next
    case False
    let ?sel = "fst (select_loop t (sort_key block_height us) [] 0)"
    from False have F: "fifo_selection t us ?sel" "?S \<noteq> {}" using fifo us(2) by auto
    have sel: "select_utxos_for_amount D h a t s = Ok ?sel" using run False by simp
    have "t \<le> sum_by amount ?sel" using F(1) unfolding fifo_selection_def by blast
    then show ?thesis
      using F fifo_selection_subset [OF F(1)] fifo_selection_distinct [OF F(1) us(1)]
        fifo_selection_minimal [OF F(1) assms(5)] fifo_selection_oldest [OF F(1)] us(2)
      by (simp add: Let_def sel)
  qed
qed

lemma revert_to_height_refines:
  assumes H: "healthy" and I: "inv s" and L: "ds_get_latest_block D s = Ok l" and "l \<noteq> 0"
  shows "\<exists>s'. revert_to_height D h s = (Ok (), s') \<and> inv s'
     \<and> view s' = ledger_revert (safe_revert_height l h) (view s)
     \<and> chain s' = chain s |` {..safe_revert_height l h}"
proof -
  let ?h = "safe_revert_height l h"
  obtain s1 where s1: "ds_mark_blocks_after_height_not_main_chain D ?h s = (Ok (), s1)" "inv s1"
    "view s1 = view s" "chain s1 = chain s |` {..?h}"
    using off_main_refines [OF H I] by blast
  obtain s2 where s2: "ds_revert_utxos_after_height D ?h s1 = (Ok (), s2)" "inv s2"
    "view s2 = ledger_revert ?h (view s1)" "chain s2 = chain s1"
    using revert_refines [OF H s1(2)] by blast
  show ?thesis
    using s1 s2 L assms(4) by (simp add: revert_to_height_def db_get_latest_block_def Let_def)
qed

lemma db_get_block_hash_refines:
  "healthy \<Longrightarrow> inv s \<Longrightarrow> 0 < h \<Longrightarrow>
   db_get_block_hash D h s = (case chain s h of Some x \<Rightarrow> Ok x | None \<Rightarrow> Err (BlockNotFound h))"
  by (simp add: db_get_block_hash_def hash_refines)

lemma update_finality_refines:
  "healthy \<Longrightarrow> inv s \<Longrightarrow> \<exists>s'. update_finality_status D h s = (Ok (), s') \<and> inv s'
     \<and> view s' = view s \<and> chain s' = chain s"
  using final_refines by (simp add: update_finality_status_def)

lemma db_get_utxo_by_outpoint_refines:
  "healthy \<Longrightarrow> inv s \<Longrightarrow> t \<noteq> [] \<Longrightarrow> 0 \<le> v \<Longrightarrow>
   db_get_utxo_by_outpoint D t v s = Ok (view s (outpoint_key t v))"
  by (simp add: db_get_utxo_by_outpoint_def outpoint_refines)

end

end
