(* ===== verification/Sqlite_Store.thy ===== *)
theory Sqlite_Store
  imports Datasource
begin

text \<open>
  \<^verbatim>\<open>UtxoSqliteDatasource\<close> (\<^verbatim>\<open>storage/src/datasources/sqlite.rs\<close>).  The two tables are lists of
  rows in insertion order, every SQL statement of the source is a function on them, and the
  schema's uniqueness constraints are enforced where the statements can violate them.  The
  surrogate key \<^verbatim>\<open>vid\<close> and the indexes are left out: no statement reads them.

  The environment supplies what the source does not determine: faults of the connection
  pool and of statement execution, the text of a constraint violation, chrono's RFC 3339
  functions, and the order in which the engine visits rows (the queries have no
  \<^verbatim>\<open>ORDER BY\<close>), as the position \<open>visit_order\<close> of a row.
\<close>

section \<open>State and environment\<close>

record sq_block =
  sb_height :: i32
  sb_hash :: string
  sb_timestamp :: string
  is_main_chain :: bool
  is_final :: bool

record sqlite_db =
  sq_blocks :: "sq_block list"
  sq_utxo :: "string utxo_rec list"

definition sqlite_empty :: sqlite_db where
  "sqlite_empty = \<lparr>sq_blocks = [], sq_utxo = []\<rparr>"

record sqlite_env =
  pool_fault :: "nat \<Rightarrow> string option" \<comment> \<open>the n-th \<^verbatim>\<open>conn.get()\<close> of the call\<close>
  migration_fault :: "string option"
  begin_fault :: "string option"
  prepare_fault :: "string option"
  query_fault :: "string option"
  exec_fault :: "nat \<Rightarrow> string option" \<comment> \<open>the n-th statement the call executes\<close>
  row_fault :: "nat \<Rightarrow> string option" \<comment> \<open>the n-th row the call steps to\<close>
  commit_fault :: "string option"
  unique_violation :: "string \<Rightarrow> string"
  to_rfc3339 :: "datetime \<Rightarrow> string"
  parse_from_rfc3339 :: "string \<Rightarrow> (datetime, string) outcome"
  visit_order :: "string utxo_rec \<Rightarrow> nat"

definition sqlite_healthy :: "sqlite_env \<Rightarrow> bool" where
  "sqlite_healthy E \<longleftrightarrow>
     (\<forall>n. pool_fault E n = None) \<and> begin_fault E = None \<and> prepare_fault E = None
     \<and> query_fault E = None \<and> (\<forall>n. exec_fault E n = None) \<and> (\<forall>n. row_fault E n = None)
     \<and> commit_fault E = None \<and> (\<forall>d. parse_from_rfc3339 E (to_rfc3339 E d) = Ok d)"

section \<open>Connections and transactions\<close>

definition pool_get :: "sqlite_env \<Rightarrow> nat \<Rightarrow> unit sres" where
  "pool_get E n = map_err DatabaseConnectionFailed (raise_if (pool_fault E n))"

definition execute :: "sqlite_env \<Rightarrow> nat \<Rightarrow> unit sres" where
  "execute E n = map_err DatabaseQueryFailed (raise_if (exec_fault E n))"

definition start_transaction :: "sqlite_env \<Rightarrow> unit sres" where
  "start_transaction E =
     map_err (\<lambda>e. DatabaseQueryFailed (''Failed to start transaction: '' @ e)) (raise_if (begin_fault E))"

definition commit :: "sqlite_env \<Rightarrow> unit sres" where
  "commit E =
     map_err (\<lambda>e. DatabaseQueryFailed (''Failed to commit transaction: '' @ e)) (raise_if (commit_fault E))"

text \<open>The new table takes effect when the result is \<open>Ok\<close>; otherwise it is rolled back.\<close>

fun settle :: "'x sres \<Rightarrow> ('x \<Rightarrow> 's) \<Rightarrow> 's \<Rightarrow> unit sres \<times> 's" where
  "settle (Ok x) f s = (Ok (), f x)"
| "settle (Err e) f s = (Err e, s)"
| "settle Panic f s = (Panic, s)"

definition sqlite_setup :: "sqlite_env \<Rightarrow> sqlite_db \<Rightarrow> unit sres \<times> sqlite_db" where
  "sqlite_setup E s =
     (and_then (pool_get E 0) (\<lambda>_. map_err MigrationFailed (raise_if (migration_fault E))), s)"

section \<open>Rows\<close>

definition encode_row :: "sqlite_env \<Rightarrow> utxo \<Rightarrow> string utxo_rec" where
  "encode_row E u =
     \<lparr>utxo_id = utxo_id u, address = address u, public_key = public_key u, txid = txid u,
      vout = vout u, amount = amount u, script_pub_key = script_pub_key u,
      script_type = script_type u, created_at = to_rfc3339 E (created_at u),
      block_height = block_height u, spent_txid = spent_txid u,
      spent_at = map_option (to_rfc3339 E) (spent_at u), spent_block = spent_block u\<rparr>"

definition row_with_times :: "string utxo_rec \<Rightarrow> datetime \<Rightarrow> datetime option \<Rightarrow> utxo" where
  "row_with_times r c sp =
     \<lparr>utxo_id = utxo_id r, address = address r, public_key = public_key r, txid = txid r,
      vout = vout r, amount = amount r, script_pub_key = script_pub_key r,
      script_type = script_type r, created_at = c, block_height = block_height r,
      spent_txid = spent_txid r, spent_at = sp, spent_block = spent_block r\<rparr>"

text \<open>A bad \<^verbatim>\<open>created_at\<close> is an error of the row; a bad \<^verbatim>\<open>spent_at\<close> is unwrapped.\<close>

definition decode_row :: "sqlite_env \<Rightarrow> string utxo_rec \<Rightarrow> (utxo, string) outcome" where
  "decode_row E r =
     and_then (parse_from_rfc3339 E (created_at r)) (\<lambda>c.
       case spent_at r of
         None \<Rightarrow> Ok (row_with_times r c None)
       | Some t \<Rightarrow> (case parse_from_rfc3339 E t of
             Ok d \<Rightarrow> Ok (row_with_times r c (Some d))
           | _ \<Rightarrow> Panic))"

fun collect_rows :: "sqlite_env \<Rightarrow> nat \<Rightarrow> string utxo_rec list \<Rightarrow> utxo list sres" where
  "collect_rows E n [] = Ok []"
| "collect_rows E n (r # rs) =
     and_then (map_err (\<lambda>e. DatabaseQueryFailed (''Failed to process row: '' @ e))
                 (and_then (raise_if (row_fault E n)) (\<lambda>_. decode_row E r)))
       (\<lambda>u. and_then (collect_rows E (Suc n) rs) (\<lambda>us. Ok (u # us)))"

definition select_rows :: "sqlite_env \<Rightarrow> (string utxo_rec \<Rightarrow> bool) \<Rightarrow> sqlite_db \<Rightarrow> string utxo_rec list" where
  "select_rows E P s = sort_key (visit_order E) (filter P (sq_utxo s))"

definition query_map :: "sqlite_env \<Rightarrow> (string utxo_rec \<Rightarrow> bool) \<Rightarrow> sqlite_db \<Rightarrow> utxo list sres" where
  "query_map E P s =
     and_then (pool_get E 0) (\<lambda>_.
     and_then (map_err (\<lambda>e. DatabaseQueryFailed (''Failed to prepare statement: '' @ e))
                 (raise_if (prepare_fault E))) (\<lambda>_.
     and_then (map_err (\<lambda>e. DatabaseQueryFailed (''Failed to query rows: '' @ e))
                 (raise_if (query_fault E))) (\<lambda>_.
     collect_rows E 0 (select_rows E P s))))"

section \<open>Writing outputs\<close>

text \<open>
  \<^verbatim>\<open>INSERT INTO utxo \<dots> ON CONFLICT(id) DO UPDATE SET spent_txid, spent_at, spent_block\<close>:
  the conflict on \<^verbatim>\<open>id\<close> is resolved first and leaves every other column as it is; a new row
  must not repeat the outpoint of another.
\<close>

definition upsert_row :: "sqlite_env \<Rightarrow> string utxo_rec \<Rightarrow> string utxo_rec list
    \<Rightarrow> (string utxo_rec list, string) outcome" where
  "upsert_row E r rows =
     (if utxo_id r \<in> utxo_id ` set rows
      then Ok (map (\<lambda>q. if utxo_id q = utxo_id r then mark_spent r q else q) rows)
      else if (txid r, vout r) \<in> (\<lambda>q. (txid q, vout q)) ` set rows
      then Err (unique_violation E ''utxo.txid, utxo.vout'')
      else Ok (rows @ [r]))"

fun bulk_upsert_utxos_in_tx :: "sqlite_env \<Rightarrow> nat \<Rightarrow> utxo list \<Rightarrow> string utxo_rec list
    \<Rightarrow> string utxo_rec list sres" where
  "bulk_upsert_utxos_in_tx E n [] rows = Ok rows"
| "bulk_upsert_utxos_in_tx E n (u # us) rows =
     and_then (check_utxo u) (\<lambda>_.
     and_then (execute E n) (\<lambda>_.
     and_then (map_err DatabaseQueryFailed (upsert_row E (encode_row E u) rows)) (\<lambda>rows'.
     bulk_upsert_utxos_in_tx E (Suc n) us rows')))"

definition bulk_upsert_utxos_impl :: "sqlite_env \<Rightarrow> utxo list \<Rightarrow> sqlite_db \<Rightarrow> unit sres \<times> sqlite_db" where
  "bulk_upsert_utxos_impl E us s =
     settle
       (and_then (pool_get E 0) (\<lambda>_.
        and_then (start_transaction E) (\<lambda>_.
        and_then (map_err DatabaseQueryFailed (raise_if (prepare_fault E))) (\<lambda>_.
        and_then (bulk_upsert_utxos_in_tx E 0 us (sq_utxo s)) (\<lambda>rows.
        and_then (commit E) (\<lambda>_. Ok rows))))))
       (\<lambda>rows. s\<lparr>sq_utxo := rows\<rparr>) s"

definition sqlite_process_block_utxos :: "sqlite_env \<Rightarrow> pending_changes \<Rightarrow> sqlite_db \<Rightarrow> unit sres \<times> sqlite_db" where
  "sqlite_process_block_utxos E changes s =
     (if pc_height changes < 0 then (Err (InvalidBlockHeight (pc_height changes)), s)
      else bulk_upsert_utxos_impl E (utxos_update changes @ utxos_insert changes) s)"

text \<open>
  \<^verbatim>\<open>UPDATE utxo SET spent_\<dots> = NULL WHERE spent_block > ?\<close>, then
  \<^verbatim>\<open>DELETE FROM utxo WHERE block_height > ?\<close>, in one transaction.
\<close>

definition sqlite_revert_utxos_after_height :: "sqlite_env \<Rightarrow> i32 \<Rightarrow> sqlite_db \<Rightarrow> unit sres \<times> sqlite_db" where
  "sqlite_revert_utxos_after_height E h s =
     settle
       (and_then (pool_get E 0) (\<lambda>_.
        and_then (start_transaction E) (\<lambda>_.
        and_then (execute E 0) (\<lambda>_.
        and_then (execute E 1) (\<lambda>_.
        and_then (commit E) (\<lambda>_.
          Ok (filter (\<lambda>r. \<not> h < block_height r) (map (unspend_after h) (sq_utxo s)))))))))
       (\<lambda>rows. s\<lparr>sq_utxo := rows\<rparr>) s"

section \<open>Queries\<close>

definition sqlite_get_latest_block :: "sqlite_env \<Rightarrow> sqlite_db \<Rightarrow> i32 sres" where
  "sqlite_get_latest_block E s =
     and_then (pool_get E 0) (\<lambda>_. and_then (execute E 0) (\<lambda>_.
       case filter is_main_chain (sq_blocks s) of
         [] \<Rightarrow> Ok 0
       | b # bs \<Rightarrow> Ok (fold max (map sb_height bs) (sb_height b))))"

definition sqlite_get_spendable_utxos_at_height :: "sqlite_env \<Rightarrow> i32 \<Rightarrow> string \<Rightarrow> sqlite_db \<Rightarrow> utxo list sres" where
  "sqlite_get_spendable_utxos_at_height E h a s =
     and_then (check_height h) (\<lambda>_. and_then (check_address a) (\<lambda>_.
       query_map E (\<lambda>r. block_height r \<le> h
         \<and> (case spent_block r of None \<Rightarrow> True | Some b \<Rightarrow> h < b) \<and> address r = a) s))"

definition sqlite_get_utxos_for_block_and_address :: "sqlite_env \<Rightarrow> i32 \<Rightarrow> string \<Rightarrow> sqlite_db \<Rightarrow> utxo list sres" where
  "sqlite_get_utxos_for_block_and_address E h a s =
     and_then (check_height h) (\<lambda>_. and_then (check_address a) (\<lambda>_.
       query_map E (\<lambda>r. block_height r = h \<and> address r = a) s))"

definition sqlite_get_all_utxos_for_block :: "sqlite_env \<Rightarrow> i32 \<Rightarrow> sqlite_db \<Rightarrow> utxo list sres" where
  "sqlite_get_all_utxos_for_block E h s =
     and_then (check_height h) (\<lambda>_. query_map E (\<lambda>r. block_height r = h) s)"

text \<open>\<^verbatim>\<open>LIMIT 1\<close>: the first row visited.\<close>

definition sqlite_get_utxo_by_outpoint :: "sqlite_env \<Rightarrow> string \<Rightarrow> i32 \<Rightarrow> sqlite_db \<Rightarrow> utxo option sres" where
  "sqlite_get_utxo_by_outpoint E t v s =
     and_then (pool_get E 0) (\<lambda>_.
     and_then (map_err DatabaseQueryFailed (raise_if (prepare_fault E))) (\<lambda>_.
     and_then (map_err DatabaseQueryFailed (raise_if (query_fault E))) (\<lambda>_.
       (case select_rows E (\<lambda>r. txid r = t \<and> vout r = v) s of
          [] \<Rightarrow> Ok None
        | r # _ \<Rightarrow> map_err DatabaseQueryFailed
            (and_then (raise_if (row_fault E 0)) (\<lambda>_. and_then (decode_row E r) (\<lambda>u. Ok (Some u))))))))"

section \<open>Blocks\<close>

text \<open>
  \<^verbatim>\<open>INSERT INTO blocks \<dots> ON CONFLICT(height) DO UPDATE SET hash, timestamp, is_main_chain = 1\<close>;
  either branch fails when another height already holds the hash.
\<close>

definition upsert_block :: "sqlite_env \<Rightarrow> i32 \<Rightarrow> string \<Rightarrow> string \<Rightarrow> sq_block list
    \<Rightarrow> (sq_block list, string) outcome" where
  "upsert_block E h x ts bs =
     (if \<exists>b \<in> set bs. sb_hash b = x \<and> sb_height b \<noteq> h
      then Err (unique_violation E ''blocks.hash'')
      else if h \<in> sb_height ` set bs
      then Ok (map (\<lambda>b. if sb_height b = h
                     then b\<lparr>sb_hash := x, sb_timestamp := ts, is_main_chain := True\<rparr> else b) bs)
      else Ok (bs @ [\<lparr>sb_height = h, sb_hash = x, sb_timestamp = ts, is_main_chain = True, is_final = False\<rparr>]))"

definition sqlite_store_block :: "sqlite_env \<Rightarrow> i32 \<Rightarrow> string \<Rightarrow> datetime \<Rightarrow> sqlite_db \<Rightarrow> unit sres \<times> sqlite_db" where
  "sqlite_store_block E h x ts s =
     settle
       (and_then (pool_get E 0) (\<lambda>_. and_then (execute E 0) (\<lambda>_.
          map_err DatabaseQueryFailed (upsert_block E h x (to_rfc3339 E ts) (sq_blocks s)))))
       (\<lambda>bs. s\<lparr>sq_blocks := bs\<rparr>) s"

text \<open>
  At height 0 the rows are counted first, and a failing count reads as 0
  (\<^verbatim>\<open>unwrap_or(0)\<close>); the count does not look at \<^verbatim>\<open>is_main_chain\<close>.
\<close>

definition sqlite_get_block_hash :: "sqlite_env \<Rightarrow> i32 \<Rightarrow> sqlite_db \<Rightarrow> string option sres" where
  "sqlite_get_block_hash E h s =
     (let look = (\<lambda>n. and_then (pool_get E n) (\<lambda>_. and_then (execute E n) (\<lambda>_.
            case filter (\<lambda>b. sb_height b = h \<and> is_main_chain b) (sq_blocks s) of
              [] \<Rightarrow> Ok None
            | b # _ \<Rightarrow> Ok (Some (sb_hash b)))))
      in if h < 0 then Err (InvalidBlockHeight h)
         else if h = 0 then
           and_then (pool_get E 0) (\<lambda>_.
             if exec_fault E 0 \<noteq> None \<or> filter (\<lambda>b. sb_height b = 0) (sq_blocks s) = []
             then Ok (Some []) else look 1)
         else look 0)"

definition sqlite_mark_blocks_as_final :: "sqlite_env \<Rightarrow> i32 \<Rightarrow> sqlite_db \<Rightarrow> unit sres \<times> sqlite_db" where
  "sqlite_mark_blocks_as_final E threshold s =
     settle (and_then (pool_get E 0) (\<lambda>_. execute E 0))
       (\<lambda>_. s\<lparr>sq_blocks := map (\<lambda>b. if sb_height b \<le> threshold \<and> \<not> is_final b
                                   then b\<lparr>is_final := True\<rparr> else b) (sq_blocks s)\<rparr>) s"

definition sqlite_mark_blocks_after_height_not_main_chain :: "sqlite_env \<Rightarrow> i32 \<Rightarrow> sqlite_db \<Rightarrow> unit sres \<times> sqlite_db" where
  "sqlite_mark_blocks_after_height_not_main_chain E h s =
     settle (and_then (pool_get E 0) (\<lambda>_. execute E 0))
       (\<lambda>_. s\<lparr>sq_blocks := map (\<lambda>b. if h < sb_height b then b\<lparr>is_main_chain := False\<rparr> else b)
                              (sq_blocks s)\<rparr>) s"

definition sqlite_ds :: "sqlite_env \<Rightarrow> sqlite_db datasource" where
  "sqlite_ds E =
     \<lparr>ds_setup = sqlite_setup E,
      ds_get_type = ''Sqlite'',
      ds_get_latest_block = sqlite_get_latest_block E,
      ds_process_block_utxos = sqlite_process_block_utxos E,
      ds_bulk_upsert_utxos = bulk_upsert_utxos_impl E,
      ds_get_spendable_utxos_at_height = sqlite_get_spendable_utxos_at_height E,
      ds_get_utxos_for_block_and_address = sqlite_get_utxos_for_block_and_address E,
      ds_get_all_utxos_for_block = sqlite_get_all_utxos_for_block E,
      ds_get_utxo_by_outpoint = sqlite_get_utxo_by_outpoint E,
      ds_store_block = sqlite_store_block E,
      ds_get_block_hash = sqlite_get_block_hash E,
      ds_mark_blocks_as_final = sqlite_mark_blocks_as_final E,
      ds_mark_blocks_after_height_not_main_chain = sqlite_mark_blocks_after_height_not_main_chain E,
      ds_revert_utxos_after_height = sqlite_revert_utxos_after_height E\<rparr>"

end
