(* ===== verification/Sqlite_Correct.thy ===== *)
theory Sqlite_Correct
  imports Sqlite_Store Database
begin

text \<open>
  Correctness of the SQLite data source: the schema's constraints are kept by every
  operation under every fault, writes are atomic, and on well-formed blocks the tables
  refine the ledger, which is the interpretation of the contract.
\<close>

section \<open>The schema invariant\<close>

definition rows_ok :: "string utxo_rec list \<Rightarrow> bool" where
  "rows_ok rows \<longleftrightarrow> distinct (map utxo_id rows) \<and> distinct (map (\<lambda>r. (txid r, vout r)) rows)
     \<and> (\<forall>r \<in> set rows. 0 \<le> amount r \<and> address r \<noteq> [])"

definition blocks_ok :: "sq_block list \<Rightarrow> bool" where
  "blocks_ok bs \<longleftrightarrow> distinct (map sb_height bs) \<and> distinct (map sb_hash bs)"

definition sqlite_schema :: "sqlite_db \<Rightarrow> bool" where
  "sqlite_schema s \<longleftrightarrow> rows_ok (sq_utxo s) \<and> blocks_ok (sq_blocks s)"

lemma settle_cases:
  "settle m f s = (r, s') \<longleftrightarrow>
     (\<exists>x. m = Ok x \<and> r = Ok () \<and> s' = f x) \<or> (\<exists>e. m = Err e \<and> r = Err e \<and> s' = s)
     \<or> (m = Panic \<and> r = Panic \<and> s' = s)"
  by (cases m) auto

lemma rows_ok_upsert:
  assumes "rows_ok rows" and "upsert_row E r rows = Ok rows'" and "0 \<le> amount r" and "address r \<noteq> []"
  shows "rows_ok rows'"
proof (cases "utxo_id r \<in> utxo_id ` set rows")
  case True
  let ?f = "\<lambda>q. if utxo_id q = utxo_id r then mark_spent r q else q"
  have rows': "rows' = map ?f rows" using assms(2) True by (simp add: upsert_row_def)
  have "distinct (map utxo_id rows') = distinct (map utxo_id rows)"
    unfolding rows' by (rule distinct_map_keep) simp
  moreover have "distinct (map (\<lambda>r. (txid r, vout r)) rows') = distinct (map (\<lambda>r. (txid r, vout r)) rows)"
    unfolding rows' by (rule distinct_map_keep) simp
  moreover have "\<forall>r \<in> set rows'. 0 \<le> amount r \<and> address r \<noteq> []"
    using assms(1) by (auto simp: rows_ok_def rows')
  ultimately show ?thesis using assms(1) by (simp add: rows_ok_def)
next
  case False
  then show ?thesis using assms
    by (auto simp: upsert_row_def rows_ok_def split: if_splits)
qed

lemma encode_row_sel [simp]:
  "utxo_id (encode_row E u) = utxo_id u" "address (encode_row E u) = address u"
  "txid (encode_row E u) = txid u" "vout (encode_row E u) = vout u"
  "amount (encode_row E u) = amount u" "block_height (encode_row E u) = block_height u"
  "spent_txid (encode_row E u) = spent_txid u" "spent_block (encode_row E u) = spent_block u"
  by (simp_all add: encode_row_def)

lemma rows_ok_bulk:
  "rows_ok rows \<Longrightarrow> bulk_upsert_utxos_in_tx E n us rows = Ok rows' \<Longrightarrow> rows_ok rows'"
proof (induction us arbitrary: n rows)
  case Nil
  then show ?case by simp
next
  case (Cons u us)
  from Cons.prems(2) obtain rows1 where u: "0 \<le> amount u" "address u \<noteq> []"
    and r1: "upsert_row E (encode_row E u) rows = Ok rows1"
    and r2: "bulk_upsert_utxos_in_tx E (Suc n) us rows1 = Ok rows'"
    by (auto simp: and_then_eq_Ok)
  have "rows_ok rows1" using rows_ok_upsert [OF Cons.prems(1) r1] u by simp
  then show ?case using r2 by (rule Cons.IH)
qed

lemma rows_ok_revert:
  "rows_ok rows \<Longrightarrow> rows_ok (filter (\<lambda>r. \<not> h < block_height r) (map (unspend_after h) rows))"
  unfolding rows_ok_def
  by (intro conjI distinct_map_filter_keep iffD2 [OF distinct_map_keep]) auto

lemma blocks_ok_upsert:
  assumes "blocks_ok bs" and "upsert_block E h x ts bs = Ok bs'"
  shows "blocks_ok bs'"
proof -
  have other: "\<forall>b \<in> set bs. sb_hash b = x \<longrightarrow> sb_height b = h"
    using assms(2) by (auto simp: upsert_block_def split: if_splits)
  show ?thesis
  proof (cases "h \<in> sb_height ` set bs")
    case True
    let ?f = "\<lambda>b. if sb_height b = h
       then b\<lparr>sb_hash := x, sb_timestamp := ts, is_main_chain := True\<rparr> else b"
    have bs': "bs' = map ?f bs" using assms(2) True by (auto simp: upsert_block_def split: if_splits)
    have "map sb_height bs' = map sb_height bs" by (simp add: bs')
    moreover have "distinct (map sb_hash bs')"
      using assms(1) other by (auto simp: bs' blocks_ok_def distinct_map inj_on_def)
    ultimately show ?thesis using assms(1) by (simp add: blocks_ok_def)
  next
    case False
    then show ?thesis using assms other
      by (force simp: upsert_block_def blocks_ok_def split: if_splits)
  qed
qed

lemma blocks_ok_map:
  assumes "\<And>b. sb_height (f b) = sb_height b" and "\<And>b. sb_hash (f b) = sb_hash b" and "blocks_ok bs"
  shows "blocks_ok (map f bs)"
  using assms(3) distinct_map_keep [of sb_height f bs] distinct_map_keep [of sb_hash f bs] assms(1,2)
  unfolding blocks_ok_def by blast

lemma sqlite_schema_empty: "sqlite_schema sqlite_empty"
  by (simp add: sqlite_schema_def sqlite_empty_def rows_ok_def blocks_ok_def)

lemma sqlite_schema_bulk:
  "sqlite_schema s \<Longrightarrow> bulk_upsert_utxos_impl E us s = (r, s') \<Longrightarrow> sqlite_schema s'"
  by (auto simp: bulk_upsert_utxos_impl_def settle_cases and_then_eq_Ok sqlite_schema_def
      dest: rows_ok_bulk)

lemma sqlite_schema_process:
  "sqlite_schema s \<Longrightarrow> sqlite_process_block_utxos E pc s = (r, s') \<Longrightarrow> sqlite_schema s'"
  by (auto simp: sqlite_process_block_utxos_def split: if_splits dest: sqlite_schema_bulk)

lemma sqlite_schema_revert:
  "sqlite_schema s \<Longrightarrow> sqlite_revert_utxos_after_height E h s = (r, s') \<Longrightarrow> sqlite_schema s'"
  by (auto simp: sqlite_revert_utxos_after_height_def settle_cases and_then_eq_Ok sqlite_schema_def
      intro: rows_ok_revert)

lemma sqlite_schema_store_block:
  "sqlite_schema s \<Longrightarrow> sqlite_store_block E h x ts s = (r, s') \<Longrightarrow> sqlite_schema s'"
  by (auto simp: sqlite_store_block_def settle_cases and_then_eq_Ok sqlite_schema_def
      dest: blocks_ok_upsert)

lemma sqlite_schema_final:
  "sqlite_schema s \<Longrightarrow> sqlite_mark_blocks_as_final E h s = (r, s') \<Longrightarrow> sqlite_schema s'"
  by (auto simp: sqlite_mark_blocks_as_final_def settle_cases sqlite_schema_def
      intro!: blocks_ok_map)

lemma sqlite_schema_off_main:
  "sqlite_schema s \<Longrightarrow> sqlite_mark_blocks_after_height_not_main_chain E h s = (r, s') \<Longrightarrow> sqlite_schema s'"
  by (auto simp: sqlite_mark_blocks_after_height_not_main_chain_def settle_cases sqlite_schema_def
      intro!: blocks_ok_map)

lemmas sqlite_schema_ops = sqlite_schema_bulk sqlite_schema_process sqlite_schema_revert
  sqlite_schema_store_block sqlite_schema_final sqlite_schema_off_main

section \<open>Atomicity\<close>

text \<open>An operation that does not return \<open>Ok\<close> leaves both tables as they were.\<close>

lemma settle_not_Ok: "fst (settle m f s) = Ok () \<longleftrightarrow> (\<exists>x. m = Ok x)"
  by (cases m) auto

lemma settle_atomic: "settle m f s = (r, s') \<Longrightarrow> r \<noteq> Ok () \<Longrightarrow> s' = s"
  by (cases m) auto

lemma sqlite_process_atomic:
  "sqlite_process_block_utxos E pc s = (r, s') \<Longrightarrow> r \<noteq> Ok () \<Longrightarrow> s' = s"
  by (auto simp: sqlite_process_block_utxos_def bulk_upsert_utxos_impl_def split: if_splits
      dest: settle_atomic)

lemma sqlite_store_block_outcome:
  "sqlite_store_block E h x ts s = (r, s') \<Longrightarrow> r \<noteq> Panic \<and> sq_utxo s' = sq_utxo s"
  by (cases "pool_fault E 0"; cases "exec_fault E 0")
    (auto simp: sqlite_store_block_def pool_get_def execute_def upsert_block_def
      split: if_splits)

section \<open>The view as a ledger\<close>

definition sqlite_view :: "sqlite_env \<Rightarrow> sqlite_db \<Rightarrow> ledger" where
  "sqlite_view E s =
     (\<lambda>i. case table_of utxo_id (sq_utxo s) i of None \<Rightarrow> None
        | Some r \<Rightarrow> (case decode_row E r of Ok u \<Rightarrow> Some u | _ \<Rightarrow> None))"

definition sqlite_chain :: "sqlite_db \<Rightarrow> i32 \<Rightarrow> string option" where
  "sqlite_chain s h =
     map_option sb_hash (table_of sb_height (filter is_main_chain (sq_blocks s)) h)"

definition sqlite_inv :: "sqlite_env \<Rightarrow> sqlite_db \<Rightarrow> bool" where
  "sqlite_inv E s \<longleftrightarrow> sqlite_schema s
     \<and> (\<forall>r \<in> set (sq_utxo s). \<exists>u. r = encode_row E u \<and> valid_utxo u)"

definition sqlite_hash_fresh :: "i32 \<Rightarrow> string \<Rightarrow> sqlite_db \<Rightarrow> bool" where
  "sqlite_hash_fresh h x s \<longleftrightarrow> (\<forall>b \<in> set (sq_blocks s). sb_hash b = x \<longrightarrow> sb_height b = h)"

lemma healthy_steps [simp]:
  assumes "sqlite_healthy E"
  shows "pool_get E n = Ok ()" "execute E n = Ok ()" "start_transaction E = Ok ()"
    "commit E = Ok ()" "pool_fault E n = None" "prepare_fault E = None" "query_fault E = None"
    "exec_fault E n = None" "row_fault E n = None"
    "parse_from_rfc3339 E (to_rfc3339 E d) = Ok d"
  using assms by (simp_all add: sqlite_healthy_def pool_get_def execute_def start_transaction_def commit_def)

lemma decode_encode [simp]: "sqlite_healthy E \<Longrightarrow> decode_row E (encode_row E u) = Ok u"
  by (cases "spent_at u") (simp_all add: decode_row_def encode_row_def row_with_times_def)

lemma encode_mark_spent: "mark_spent (encode_row E s) (encode_row E u) = encode_row E (mark_spent s u)"
  by (simp add: encode_row_def mark_spent_def)

lemma encode_unspend_after: "unspend_after h (encode_row E u) = encode_row E (unspend_after h u)"
  by (simp add: encode_row_def unspend_after_def unspend_def split: option.splits)

text \<open>The rows of a well-formed table are the images of a list of records.\<close>

lemma sqlite_inv_records:
  assumes "sqlite_inv E s"
  obtains us where "sq_utxo s = map (encode_row E) us" and "\<forall>u \<in> set us. valid_utxo u"
    and "distinct (map utxo_id us)"
proof -
  have "\<exists>us. rows = map (encode_row E) us \<and> (\<forall>u \<in> set us. valid_utxo u)"
    if "\<forall>r \<in> set rows. \<exists>u. r = encode_row E u \<and> valid_utxo u" for rows
    using that
  proof (induction rows)
    case (Cons r rows)
    then obtain u us where "r = encode_row E u" "valid_utxo u" "rows = map (encode_row E) us"
      "\<forall>u \<in> set us. valid_utxo u" by auto
    then have "r # rows = map (encode_row E) (u # us) \<and> (\<forall>u \<in> set (u # us). valid_utxo u)" by simp
    then show ?case by (intro exI)
  qed simp
  then obtain us where us: "sq_utxo s = map (encode_row E) us" "\<forall>u \<in> set us. valid_utxo u"
    using assms unfolding sqlite_inv_def by blast
  moreover have "distinct (map utxo_id us)"
    using assms by (simp add: sqlite_inv_def sqlite_schema_def rows_ok_def us comp_def)
  ultimately show ?thesis using that by blast
qed

lemma sqlite_view_records:
  "sqlite_healthy E \<Longrightarrow> sq_utxo s = map (encode_row E) us \<Longrightarrow> sqlite_view E s = table_of utxo_id us"
  by (rule ext) (simp add: sqlite_view_def table_of_map [of us utxo_id "encode_row E" utxo_id] split: option.splits)

lemma valid_records_pairs:
  assumes "\<forall>u \<in> set us. valid_utxo u" and "valid_utxo x" and "utxo_id x \<notin> utxo_id ` set us"
  shows "(txid x, vout x) \<notin> (\<lambda>q. (txid q, vout q)) ` set us"
  using assms by (auto simp: valid_utxo_def image_iff)

section \<open>Blocks refine the ledger\<close>

definition spend_records :: "utxo list \<Rightarrow> utxo list \<Rightarrow> utxo list" where
  "spend_records sp us = fold (\<lambda>s. map (\<lambda>q. if utxo_id q = utxo_id s then mark_spent s q else q)) sp us"

lemma spend_records_simps [simp]:
  "spend_records [] us = us"
  "spend_records (s # sp) us = spend_records sp (map (\<lambda>q. if utxo_id q = utxo_id s then mark_spent s q else q) us)"
  by (simp_all add: spend_records_def)

lemma spend_records_ids [simp]: "map utxo_id (spend_records sp us) = map utxo_id us"
  by (induction sp arbitrary: us) auto

lemma spend_records_id_set [simp]: "utxo_id ` set (spend_records sp us) = utxo_id ` set us"
  by (metis list.set_map spend_records_ids)

lemma spend_records_valid:
  "\<forall>u \<in> set us. valid_utxo u \<Longrightarrow> \<forall>u \<in> set (spend_records sp us). valid_utxo u"
proof (induction sp arbitrary: us)
  case (Cons s sp)
  then have "\<forall>u \<in> set (map (\<lambda>q. if utxo_id q = utxo_id s then mark_spent s q else q) us). valid_utxo u"
    by auto
  from Cons.IH [OF this] show ?case by simp
qed simp

lemma table_of_spend_records:
  "distinct (map utxo_id sp) \<Longrightarrow>
   table_of utxo_id (spend_records sp us) = ledger_spend sp (table_of utxo_id us)"
proof (induction sp arbitrary: us)
  case Nil
  then show ?case by (rule_tac ext) (simp add: ledger_spend_def)
next
  case (Cons s sp)
  let ?f = "\<lambda>q. if utxo_id q = utxo_id s then mark_spent s q else q"
  have step: "table_of utxo_id (map ?f us) i
      = (if i = utxo_id s then map_option (mark_spent s) (table_of utxo_id us i) else table_of utxo_id us i)" for i
  proof -
    have "table_of utxo_id (map ?f us) i = map_option ?f (table_of utxo_id us i)"
      by (rule table_of_map) simp
    then show ?thesis by (cases "table_of utxo_id us i") (auto dest: table_of_SomeD)
  qed
  from Cons.prems have "table_of utxo_id sp (utxo_id s) = None"
    by (simp add: table_of_None)
  with Cons show ?case
    by (intro ext) (auto simp: ledger_spend_def step option.map_comp comp_def
        split: option.splits dest: table_of_SomeD)
qed

lemma bulk_spends:
  assumes "sqlite_healthy E"
  shows "\<forall>s \<in> set sp. valid_utxo s \<and> utxo_id s \<in> utxo_id ` set us \<Longrightarrow>
    bulk_upsert_utxos_in_tx E n (sp @ rest) (map (encode_row E) us)
      = bulk_upsert_utxos_in_tx E (n + length sp) rest (map (encode_row E) (spend_records sp us))"
proof (induction sp arbitrary: n us)
  case Nil
  then show ?case by simp
next
  case (Cons s sp)
  let ?us = "map (\<lambda>q. if utxo_id q = utxo_id s then mark_spent s q else q) us"
  have ids: "utxo_id ` set ?us = utxo_id ` set us"
    using spend_records_id_set [of "[s]" us] by simp
  have "upsert_row E (encode_row E s) (map (encode_row E) us) = Ok (map (encode_row E) ?us)"
    using Cons.prems by (simp add: upsert_row_def image_image encode_mark_spent)
  moreover have "\<forall>s \<in> set sp. valid_utxo s \<and> utxo_id s \<in> utxo_id ` set ?us"
    unfolding ids using Cons.prems by simp
  moreover have "valid_utxo s" using Cons.prems by simp
  ultimately show ?case
    using Cons.IH [of ?us "Suc n"] assms by (simp del: check_utxo_Ok)
qed

lemma bulk_inserts:
  assumes "sqlite_healthy E"
  shows "\<forall>u \<in> set ins. valid_utxo u \<Longrightarrow> \<forall>u \<in> set us. valid_utxo u \<Longrightarrow> distinct (map utxo_id (us @ ins)) \<Longrightarrow>
    bulk_upsert_utxos_in_tx E n ins (map (encode_row E) us) = Ok (map (encode_row E) (us @ ins))"
proof (induction ins arbitrary: n us)
  case Nil
  then show ?case by simp
next
  case (Cons u ins)
  have fresh: "utxo_id u \<notin> utxo_id ` set us" using Cons.prems(3) by auto
  have "(txid u, vout u) \<notin> (\<lambda>q. (txid q, vout q)) ` set us"
    using Cons.prems(1,2) fresh by (intro valid_records_pairs) auto
  with fresh have "upsert_row E (encode_row E u) (map (encode_row E) us) = Ok (map (encode_row E) (us @ [u]))"
    by (simp add: upsert_row_def image_image)
  then show ?case
    using Cons.IH [of "us @ [u]" "Suc n"] Cons.prems assms by simp
qed

lemma ledger_apply_order:
  assumes "wf_changes L pc"
  shows "ledger_apply pc L = ledger_create (utxos_insert pc) (ledger_spend (utxos_update pc) L)"
proof
  fix i
  have "table_of utxo_id (utxos_insert pc) i = None" if "table_of utxo_id (utxos_update pc) i \<noteq> None"
    using that assms by (fastforce simp: table_of_None wf_changes_def dest: table_of_SomeD)
  then show "ledger_apply pc L i = ledger_create (utxos_insert pc) (ledger_spend (utxos_update pc) L) i"
    by (cases "table_of utxo_id (utxos_update pc) i")
      (auto simp: ledger_apply_def ledger_create_def ledger_spend_def map_add_def split: option.splits)
qed

lemma ledger_create_append:
  assumes "utxo_id ` set us \<inter> utxo_id ` set ins = {}"
  shows "table_of utxo_id (us @ ins) = ledger_create ins (table_of utxo_id us)"
proof -
  have "dom (table_of utxo_id us) \<inter> dom (table_of utxo_id ins) = {}"
    using assms by (auto simp: table_of_def dom_map_of_conv_image_fst image_image)
  then show ?thesis
    by (simp add: ledger_create_def table_of_def map_add_comm)
qed

lemma sqlite_process_refines:
  assumes H: "sqlite_healthy E" and I: "sqlite_inv E s" and W: "wf_changes (sqlite_view E s) pc"
  shows "\<exists>s'. sqlite_process_block_utxos E pc s = (Ok (), s') \<and> sqlite_inv E s'
     \<and> sqlite_view E s' = ledger_apply pc (sqlite_view E s) \<and> sqlite_chain s' = sqlite_chain s"
proof -
  obtain us where us: "sq_utxo s = map (encode_row E) us" "\<forall>u \<in> set us. valid_utxo u"
    "distinct (map utxo_id us)" using I by (rule sqlite_inv_records)
  define us' where "us' = spend_records (utxos_update pc) us @ utxos_insert pc"
  have view: "sqlite_view E s = table_of utxo_id us" using H us(1) by (rule sqlite_view_records)
  have spends: "\<forall>x \<in> set (utxos_update pc). valid_utxo x \<and> utxo_id x \<in> utxo_id ` set us"
    using W unfolding wf_changes_def view by (meson table_of_key_in)
  have fresh: "utxo_id ` set us \<inter> utxo_id ` set (utxos_insert pc) = {}"
    using W by (auto simp: wf_changes_def view table_of_None image_iff) metis
  have valid: "\<forall>u \<in> set us'. valid_utxo u"
    using W us(2) spend_records_valid [of us] by (auto simp: us'_def wf_changes_def)
  have dist: "distinct (map utxo_id us')"
    using W us(3) fresh by (auto simp: us'_def wf_changes_def)
  have bulk: "bulk_upsert_utxos_in_tx E 0 (utxos_update pc @ utxos_insert pc) (sq_utxo s) = Ok (map (encode_row E) us')"
    using bulk_spends [OF H spends] bulk_inserts [OF H] valid dist by (auto simp: us(1) us'_def)
  define s' where "s' = s\<lparr>sq_utxo := map (encode_row E) us'\<rparr>"
  have run: "sqlite_process_block_utxos E pc s = (Ok (), s')"
    using W H bulk by (simp add: sqlite_process_block_utxos_def bulk_upsert_utxos_impl_def s'_def wf_changes_def)
  moreover have "sqlite_inv E s'"
    using sqlite_schema_process [OF _ run] I valid by (auto simp: sqlite_inv_def s'_def)
  moreover have "sqlite_view E s' = ledger_apply pc (sqlite_view E s)"
  proof -
    have "sqlite_view E s' = table_of utxo_id us'"
      by (rule sqlite_view_records [OF H]) (simp add: s'_def)
    also have "\<dots> = ledger_create (utxos_insert pc) (ledger_spend (utxos_update pc) (table_of utxo_id us))"
      using W fresh by (simp add: us'_def ledger_create_append table_of_spend_records wf_changes_def)
    finally show ?thesis using ledger_apply_order [OF W] by (simp add: view)
  qed
  ultimately show ?thesis by (simp add: s'_def sqlite_chain_def fun_eq_iff)
qed

section \<open>Queries and rollback refine the ledger\<close>

lemma collect_rows_encoded:
  "sqlite_healthy E \<Longrightarrow> collect_rows E n (map (encode_row E) us) = Ok us"
  by (induction us arbitrary: n) auto

lemma select_rows_records:
  "sq_utxo s = map (encode_row E) us \<Longrightarrow>
   select_rows E P s = map (encode_row E) (sort_key (\<lambda>u. visit_order E (encode_row E u)) (filter (\<lambda>u. P (encode_row E u)) us))"
  by (simp add: select_rows_def filter_map sort_key_map comp_def)

lemma query_map_records:
  "sqlite_healthy E \<Longrightarrow> sq_utxo s = map (encode_row E) us \<Longrightarrow>
   query_map E P s = Ok (sort_key (\<lambda>u. visit_order E (encode_row E u)) (filter (\<lambda>u. P (encode_row E u)) us))"
  by (simp add: query_map_def select_rows_records collect_rows_encoded)

lemma sqlite_spendable_refines:
  assumes H: "sqlite_healthy E" and I: "sqlite_inv E s" and "0 \<le> h" and "a \<noteq> []"
  shows "\<exists>us. sqlite_get_spendable_utxos_at_height E h a s = Ok us \<and> distinct us
     \<and> set us = spendable_set (sqlite_view E s) h a"
proof -
  obtain us where us: "sq_utxo s = map (encode_row E) us" "distinct (map utxo_id us)"
    using I by (rule sqlite_inv_records)
  have "spendable_set (table_of utxo_id us) h a
      = set (filter (\<lambda>u. block_height u \<le> h
         \<and> (case spent_block u of None \<Rightarrow> True | Some b \<Rightarrow> h < b) \<and> address u = a) us)"
    using us(2) by (auto simp: spendable_set_def unspent_at_def table_of_Some)
  then show ?thesis
    using assms us sqlite_view_records [OF H us(1)]
    by (simp add: sqlite_get_spendable_utxos_at_height_def query_map_records distinct_map)
qed

lemma sqlite_outpoint_refines:
  assumes H: "sqlite_healthy E" and I: "sqlite_inv E s"
  shows "sqlite_get_utxo_by_outpoint E t v s = Ok (sqlite_view E s (outpoint_key t v))"
proof -
  obtain us where us: "sq_utxo s = map (encode_row E) us" "\<forall>u \<in> set us. valid_utxo u"
    "distinct (map utxo_id us)" using I by (rule sqlite_inv_records)
  have "filter (\<lambda>u. txid u = t \<and> vout u = v) us = filter (\<lambda>u. utxo_id u = outpoint_key t v) us"
    using us(2) by (intro filter_cong) (auto simp: valid_utxo_def outpoint_key_inj)
  also have "\<dots> = (case table_of utxo_id us (outpoint_key t v) of None \<Rightarrow> [] | Some r \<Rightarrow> [r])"
    using us(3) by (rule filter_key)
  finally show ?thesis
    using H sqlite_view_records [OF H us(1)]
    by (simp add: sqlite_get_utxo_by_outpoint_def select_rows_records [OF us(1)] split: option.splits)
qed

lemma sqlite_revert_refines:
  assumes H: "sqlite_healthy E" and I: "sqlite_inv E s"
  shows "\<exists>s'. sqlite_revert_utxos_after_height E h s = (Ok (), s') \<and> sqlite_inv E s'
     \<and> sqlite_view E s' = ledger_revert h (sqlite_view E s) \<and> sqlite_chain s' = sqlite_chain s"
proof -
  obtain us where us: "sq_utxo s = map (encode_row E) us" "\<forall>u \<in> set us. valid_utxo u"
    "distinct (map utxo_id us)" using I by (rule sqlite_inv_records)
  define us' where "us' = filter (\<lambda>u. \<not> h < block_height u) (map (unspend_after h) us)"
  define s' where "s' = s\<lparr>sq_utxo := map (encode_row E) us'\<rparr>"
  have rows: "filter (\<lambda>r. \<not> h < block_height r) (map (unspend_after h) (sq_utxo s)) = map (encode_row E) us'"
    by (simp add: us(1) us'_def filter_map comp_def encode_unspend_after)
  have run: "sqlite_revert_utxos_after_height E h s = (Ok (), s')"
    using H by (simp add: sqlite_revert_utxos_after_height_def rows s'_def)
  moreover have "sqlite_inv E s'"
    using sqlite_schema_revert [OF _ run] I us(2) by (auto simp: sqlite_inv_def s'_def us'_def)
  moreover have "sqlite_view E s' = ledger_revert h (sqlite_view E s)"
  proof
    fix i
    have "distinct (map utxo_id (map (unspend_after h) us))"
      using us(3) by (subst distinct_map_keep) simp_all
    then have "table_of utxo_id us' i = ledger_revert h (table_of utxo_id us) i"
      by (simp add: us'_def table_of_filter table_of_map [of us utxo_id "unspend_after h" utxo_id]
          ledger_revert_def split: option.splits)
    then show "sqlite_view E s' i = ledger_revert h (sqlite_view E s) i"
      using sqlite_view_records [OF H us(1)] sqlite_view_records [OF H, of s' us'] by (simp add: s'_def)
  qed
  ultimately show ?thesis by (simp add: s'_def sqlite_chain_def fun_eq_iff)
qed

section \<open>The main chain\<close>

lemma sqlite_chain_distinct:
  "sqlite_schema s \<Longrightarrow> sqlite_chain s h =
     (case table_of sb_height (sq_blocks s) h of None \<Rightarrow> None
      | Some b \<Rightarrow> if is_main_chain b then Some (sb_hash b) else None)"
  by (auto simp: sqlite_chain_def sqlite_schema_def blocks_ok_def table_of_filter split: option.splits)

lemma sqlite_hash_refines:
  "sqlite_healthy E \<Longrightarrow> 0 < h \<Longrightarrow> sqlite_get_block_hash E h s = Ok (sqlite_chain s h)"
  by (simp add: sqlite_get_block_hash_def sqlite_chain_def table_of_first Let_def split: list.splits)

lemma sqlite_store_block_refines:
  assumes H: "sqlite_healthy E" and I: "sqlite_inv E s" and F: "sqlite_hash_fresh h x s"
  shows "\<exists>s'. sqlite_store_block E h x ts s = (Ok (), s') \<and> sqlite_inv E s'
     \<and> sqlite_view E s' = sqlite_view E s \<and> sqlite_chain s' = (sqlite_chain s)(h \<mapsto> x)"
proof -
  have "\<exists>bs. upsert_block E h x (to_rfc3339 E ts) (sq_blocks s) = Ok bs"
    using F by (auto simp: upsert_block_def sqlite_hash_fresh_def)
  then obtain bs where bs: "upsert_block E h x (to_rfc3339 E ts) (sq_blocks s) = Ok bs" by blast
  define s' where "s' = s\<lparr>sq_blocks := bs\<rparr>"
  have B: "sq_blocks s' = bs" by (simp add: s'_def)
  have run: "sqlite_store_block E h x ts s = (Ok (), s')"
    using H bs by (simp add: sqlite_store_block_def s'_def)
  have S: "sqlite_schema s" "sqlite_schema s'"
    using I sqlite_schema_store_block [OF _ run] by (auto simp: sqlite_inv_def)
  have "sqlite_chain s' = (sqlite_chain s)(h \<mapsto> x)"
  proof (cases "h \<in> sb_height ` set (sq_blocks s)")
    case True
    let ?f = "\<lambda>b. if sb_height b = h
      then b\<lparr>sb_hash := x, sb_timestamp := to_rfc3339 E ts, is_main_chain := True\<rparr> else b"
    have "bs = map ?f (sq_blocks s)" using bs True by (auto simp: upsert_block_def split: if_splits)
    moreover have "table_of sb_height (map ?f (sq_blocks s)) i = map_option ?f (table_of sb_height (sq_blocks s) i)" for i
      by (rule table_of_map) simp
    moreover obtain b where "table_of sb_height (sq_blocks s) h = Some b" "sb_height b = h"
      using True by (metis not_None_eq table_of_None table_of_SomeD)
    ultimately show ?thesis
      by (intro ext) (auto simp: sqlite_chain_distinct [OF S(1)] sqlite_chain_distinct [OF S(2)] B
          split: option.splits dest: table_of_SomeD)
  next
    case False
    then have "bs = sq_blocks s @ [\<lparr>sb_height = h, sb_hash = x, sb_timestamp = to_rfc3339 E ts,
        is_main_chain = True, is_final = False\<rparr>]"
      using bs by (auto simp: upsert_block_def split: if_splits)
    with False show ?thesis
      by (intro ext) (simp add: sqlite_chain_distinct [OF S(1)] sqlite_chain_distinct [OF S(2)] B table_of_snoc)
  qed
  then show ?thesis
    using run S(2) I by (auto simp: sqlite_inv_def s'_def sqlite_view_def)
qed

lemma sqlite_off_main_refines:
  assumes H: "sqlite_healthy E" and I: "sqlite_inv E s"
  shows "\<exists>s'. sqlite_mark_blocks_after_height_not_main_chain E h s = (Ok (), s') \<and> sqlite_inv E s'
     \<and> sqlite_view E s' = sqlite_view E s \<and> sqlite_chain s' = sqlite_chain s |` {..h}"
proof -
  let ?f = "\<lambda>b. if h < sb_height b then b\<lparr>is_main_chain := False\<rparr> else b"
  define s' where "s' = s\<lparr>sq_blocks := map ?f (sq_blocks s)\<rparr>"
  have B: "sq_blocks s' = map ?f (sq_blocks s)" by (simp add: s'_def)
  have run: "sqlite_mark_blocks_after_height_not_main_chain E h s = (Ok (), s')"
    using H by (simp add: sqlite_mark_blocks_after_height_not_main_chain_def s'_def)
  have S: "sqlite_schema s" "sqlite_schema s'"
    using I sqlite_schema_off_main [OF _ run] by (auto simp: sqlite_inv_def)
  have "table_of sb_height (map ?f (sq_blocks s)) i = map_option ?f (table_of sb_height (sq_blocks s) i)" for i
    by (rule table_of_map) simp
  then have "sqlite_chain s' = sqlite_chain s |` {..h}"
    by (intro ext) (auto simp: sqlite_chain_distinct [OF S(1)] sqlite_chain_distinct [OF S(2)] B
        restrict_map_def split: option.splits dest: table_of_SomeD)
  then show ?thesis
    using run S(2) I by (auto simp: sqlite_inv_def s'_def sqlite_view_def)
qed

lemma sqlite_final_refines:
  assumes H: "sqlite_healthy E" and I: "sqlite_inv E s"
  shows "\<exists>s'. sqlite_mark_blocks_as_final E h s = (Ok (), s') \<and> sqlite_inv E s'
     \<and> sqlite_view E s' = sqlite_view E s \<and> sqlite_chain s' = sqlite_chain s"
proof -
  let ?f = "\<lambda>b. if sb_height b \<le> h \<and> \<not> is_final b then b\<lparr>is_final := True\<rparr> else b"
  define s' where "s' = s\<lparr>sq_blocks := map ?f (sq_blocks s)\<rparr>"
  have B: "sq_blocks s' = map ?f (sq_blocks s)" by (simp add: s'_def)
  have run: "sqlite_mark_blocks_as_final E h s = (Ok (), s')"
    using H by (simp add: sqlite_mark_blocks_as_final_def s'_def)
  have S: "sqlite_schema s" "sqlite_schema s'"
    using I sqlite_schema_final [OF _ run] by (auto simp: sqlite_inv_def)
  have "table_of sb_height (map ?f (sq_blocks s)) i = map_option ?f (table_of sb_height (sq_blocks s) i)" for i
    by (rule table_of_map) simp
  then have "sqlite_chain s' = sqlite_chain s"
    by (intro ext) (auto simp: sqlite_chain_distinct [OF S(1)] sqlite_chain_distinct [OF S(2)] B
        split: option.splits)
  then show ?thesis
    using run S(2) I by (auto simp: sqlite_inv_def s'_def sqlite_view_def)
qed

text \<open>The latest block is the highest of the main chain.\<close>

lemma sqlite_chain_dom: "dom (sqlite_chain s) = sb_height ` set (filter is_main_chain (sq_blocks s))"
  by (auto simp: sqlite_chain_def dom_def table_of_None dest: table_of_SomeD)

lemma sqlite_latest_block:
  assumes "sqlite_healthy E" and "h \<in> dom (sqlite_chain s)" and "dom (sqlite_chain s) \<subseteq> {..h}"
  shows "sqlite_get_latest_block E s = Ok h"
proof -
  obtain b bs where B: "filter is_main_chain (sq_blocks s) = b # bs"
    using assms(2) unfolding sqlite_chain_dom by (cases "filter is_main_chain (sq_blocks s)") auto
  have "fold max (map sb_height bs) (sb_height b) = Max (set (map sb_height (b # bs)))"
    by (simp only: list.map Max.set_eq_fold)
  also have "\<dots> = h"
    using assms(2,3) unfolding sqlite_chain_dom B by (intro Max_eqI) auto
  finally show ?thesis
    using assms(1) B by (simp add: sqlite_get_latest_block_def)
qed

lemma sqlite_latest_at_least:
  assumes "sqlite_healthy E" and "sqlite_chain s h = Some x"
  obtains l where "sqlite_get_latest_block E s = Ok l" and "h \<le> l"
proof -
  let ?hs = "sb_height ` set (filter is_main_chain (sq_blocks s))"
  have h: "h \<in> ?hs" using assms(2) unfolding sqlite_chain_dom [symmetric] by blast
  have "finite ?hs" by simp
  with h have "Max ?hs \<in> ?hs" "?hs \<subseteq> {..Max ?hs}" by (auto intro: Max_in)
  then have "sqlite_get_latest_block E s = Ok (Max ?hs)"
    by (intro sqlite_latest_block [OF assms(1)]) (simp_all only: sqlite_chain_dom)
  then show ?thesis using h by (intro that) auto
qed

section \<open>The contract\<close>

lemmas sqlite_refines = sqlite_process_refines sqlite_spendable_refines sqlite_outpoint_refines
  sqlite_revert_refines sqlite_store_block_refines sqlite_off_main_refines sqlite_final_refines
  sqlite_hash_refines

lemma sqlite_ds_sel [simp]:
  "ds_get_latest_block (sqlite_ds E) = sqlite_get_latest_block E"
  "ds_process_block_utxos (sqlite_ds E) = sqlite_process_block_utxos E"
  "ds_bulk_upsert_utxos (sqlite_ds E) = bulk_upsert_utxos_impl E"
  "ds_get_spendable_utxos_at_height (sqlite_ds E) = sqlite_get_spendable_utxos_at_height E"
  "ds_get_utxos_for_block_and_address (sqlite_ds E) = sqlite_get_utxos_for_block_and_address E"
  "ds_get_all_utxos_for_block (sqlite_ds E) = sqlite_get_all_utxos_for_block E"
  "ds_get_utxo_by_outpoint (sqlite_ds E) = sqlite_get_utxo_by_outpoint E"
  "ds_store_block (sqlite_ds E) = sqlite_store_block E"
  "ds_get_block_hash (sqlite_ds E) = sqlite_get_block_hash E"
  "ds_mark_blocks_as_final (sqlite_ds E) = sqlite_mark_blocks_as_final E"
  "ds_mark_blocks_after_height_not_main_chain (sqlite_ds E) = sqlite_mark_blocks_after_height_not_main_chain E"
  "ds_revert_utxos_after_height (sqlite_ds E) = sqlite_revert_utxos_after_height E"
  by (simp_all add: sqlite_ds_def)

lemma sqlite_view_valid:
  assumes "sqlite_healthy E" and "sqlite_inv E s" and "sqlite_view E s i = Some u"
  shows "valid_utxo u \<and> utxo_id u = i"
proof -
  obtain us where us: "sq_utxo s = map (encode_row E) us" "\<forall>u \<in> set us. valid_utxo u"
    using assms(2) by (rule sqlite_inv_records)
  from assms(3) have "table_of utxo_id us i = Some u"
    by (simp add: sqlite_view_records [OF assms(1) us(1)])
  with us(2) show ?thesis by (auto dest: table_of_SomeD)
qed

lemma sqlite_process_negative:
  "pc_height pc < 0 \<Longrightarrow> sqlite_process_block_utxos E pc s = (Err (InvalidBlockHeight (pc_height pc)), s)"
  by (simp add: sqlite_process_block_utxos_def)

lemma sqlite_hash_fresh_store:
  assumes "sqlite_hash_fresh h x s" and "x \<noteq> x'" and "sqlite_store_block E h' x' ts s = (Ok (), s')"
  shows "sqlite_hash_fresh h x s'"
proof -
  obtain bs where bs: "upsert_block E h' x' (to_rfc3339 E ts) (sq_blocks s) = Ok bs" and s': "sq_blocks s' = bs"
    using assms(3) by (auto simp: sqlite_store_block_def settle_cases and_then_eq_Ok)
  from bs show ?thesis
    unfolding sqlite_hash_fresh_def s'
    using assms(1,2) by (auto simp: upsert_block_def sqlite_hash_fresh_def split: if_splits)
qed

lemma sqlite_process_blocks: "sqlite_process_block_utxos E pc s = (r, s') \<Longrightarrow> sq_blocks s' = sq_blocks s"
  by (auto simp: sqlite_process_block_utxos_def bulk_upsert_utxos_impl_def settle_cases split: if_splits)

lemma sqlite_hash_fresh_process:
  "sqlite_hash_fresh h x s \<Longrightarrow> sqlite_process_block_utxos E pc s = (Ok (), s') \<Longrightarrow> sqlite_hash_fresh h x s'"
  unfolding sqlite_hash_fresh_def by (simp only: sqlite_process_blocks)

lemma sqlite_hash_fresh_final:
  "sqlite_hash_fresh h x s \<Longrightarrow> sqlite_mark_blocks_as_final E t s = (Ok (), s') \<Longrightarrow> sqlite_hash_fresh h x s'"
  by (auto simp: sqlite_hash_fresh_def sqlite_mark_blocks_as_final_def settle_cases)

interpretation sq: datasource_contract "sqlite_ds E" "sqlite_view E" sqlite_chain "sqlite_inv E"
    sqlite_hash_fresh "sqlite_healthy E" for E
proof (unfold_locales, simp_all add: sqlite_refines sqlite_process_negative sqlite_view_valid)
  fix h x s x' h' ts s'
  assume "sqlite_hash_fresh h x s" and "x \<noteq> x'" and "sqlite_store_block E h' x' ts s = (Ok (), s')"
  then show "sqlite_hash_fresh h x s'" by (rule sqlite_hash_fresh_store)
next
  fix h x s pc s'
  assume "sqlite_hash_fresh h x s" and "sqlite_process_block_utxos E pc s = (Ok (), s')"
  then show "sqlite_hash_fresh h x s'" by (rule sqlite_hash_fresh_process)
next
  fix h x s t s'
  assume "sqlite_hash_fresh h x s" and "sqlite_mark_blocks_as_final E t s = (Ok (), s')"
  then show "sqlite_hash_fresh h x s'" by (rule sqlite_hash_fresh_final)
next
  fix h x s t s'
  assume "sqlite_hash_fresh h x s" and "sqlite_mark_blocks_after_height_not_main_chain E t s = (Ok (), s')"
  then show "sqlite_hash_fresh h x s'"
    by (auto simp: sqlite_hash_fresh_def sqlite_mark_blocks_after_height_not_main_chain_def settle_cases
        split: outcome.splits if_splits)
qed

section \<open>An environment without faults\<close>

definition plain_env :: sqlite_env where
  "plain_env =
     \<lparr>pool_fault = (\<lambda>_. None), migration_fault = None, begin_fault = None, prepare_fault = None,
      query_fault = None, exec_fault = (\<lambda>_. None), row_fault = (\<lambda>_. None), commit_fault = None,
      unique_violation = (\<lambda>c. ''UNIQUE constraint failed: '' @ c), to_rfc3339 = show_int,
      parse_from_rfc3339 = (\<lambda>t. Ok (read_int t)), visit_order = (\<lambda>_. 0)\<rparr>"

lemma plain_env_healthy [simp]: "sqlite_healthy plain_env"
  by (simp add: sqlite_healthy_def plain_env_def)

end
