(* ===== verification/Csv_Store.thy ===== *)
theory Csv_Store
  imports Datasource "HOL-Library.AList"
begin

text \<open>
  \<^verbatim>\<open>UtxoCSVDatasource\<close> (\<^verbatim>\<open>storage/src/datasources/csv.rs\<close>).  A \<^verbatim>\<open>HashMap\<close> is an association
  list with distinct keys; the order in which the code iterates over one is the position a
  key has in the environment, so every iteration order is covered.  Errors of a loop return
  early and keep what the loop has already written.
\<close>

section \<open>State and environment\<close>

type_synonym umap = "(string \<times> (string \<times> utxo) list) list"
type_synonym bmap = "(string \<times> utxo list) list"

record csv_db =
  cs_utxos :: umap
  cs_blocks :: "(i32 \<times> bmap) list"
  cs_latest_block :: i32
  cs_block_hashes :: "(i32 \<times> string) list"
  cs_block_timestamps :: "(i32 \<times> datetime) list"
  cs_finalized_heights :: "i32 set"
  cs_main_chain_heights :: "i32 set"

definition csv_empty :: csv_db where
  "csv_empty = \<lparr>cs_utxos = [], cs_blocks = [], cs_latest_block = 0, cs_block_hashes = [],
     cs_block_timestamps = [], cs_finalized_heights = {}, cs_main_chain_heights = {}\<rparr>"

record csv_env =
  address_order :: "string \<Rightarrow> nat"
  id_order :: "string \<Rightarrow> string \<Rightarrow> nat" \<comment> \<open>per address\<close>
  block_order :: "i32 \<Rightarrow> string \<Rightarrow> nat" \<comment> \<open>addresses of a block\<close>

text \<open>What the \<^verbatim>\<open>csv\<close> crate makes of a file: its absence, a failure to open it, or its rows.\<close>

datatype 'r csv_file = Missing | Unreadable string | Rows "('r, string) outcome list"

section \<open>Nested maps\<close>

definition bucket :: "('k \<times> 'v list) list \<Rightarrow> 'k \<Rightarrow> 'v list" where
  "bucket m a = (case map_of m a of None \<Rightarrow> [] | Some b \<Rightarrow> b)"

text \<open>\<^verbatim>\<open>m.entry(a).or_default().insert(k, u)\<close> and \<^verbatim>\<open>m.entry(a).or_default().push(u)\<close>.\<close>

definition insert2 :: "string \<Rightarrow> string \<Rightarrow> utxo \<Rightarrow> umap \<Rightarrow> umap" where
  "insert2 a k u m = AList.update a (AList.update k u (bucket m a)) m"

definition push2 :: "string \<Rightarrow> utxo \<Rightarrow> bmap \<Rightarrow> bmap" where
  "push2 a u m = AList.update a (bucket m a @ [u]) m"

definition values_in :: "('k \<Rightarrow> nat) \<Rightarrow> ('k \<times> 'v) list \<Rightarrow> 'v list" where
  "values_in pos m = map snd (sort_key (\<lambda>kv. pos (fst kv)) m)"

section \<open>Loading\<close>

fun load_utxo_rows :: "(utxo_row, string) outcome list \<Rightarrow> umap \<Rightarrow> (unit, string) outcome \<times> umap" where
  "load_utxo_rows [] m = (Ok (), m)"
| "load_utxo_rows (Ok row # rs) m =
     (let (a, k, u) = into_storage_entry row in load_utxo_rows rs (insert2 a k u m))"
| "load_utxo_rows (Err e # rs) m = (Err e, m)"
| "load_utxo_rows (Panic # rs) m = (Panic, m)"

definition load_utxos :: "utxo_row csv_file \<Rightarrow> csv_db \<Rightarrow> (unit, string) outcome \<times> csv_db" where
  "load_utxos f s =
     (case f of
        Missing \<Rightarrow> (Ok (), s)
      | Unreadable e \<Rightarrow> (Err e, s)
      | Rows rs \<Rightarrow> (let (r, m) = load_utxo_rows rs (cs_utxos s) in (r, s\<lparr>cs_utxos := m\<rparr>)))"

fun load_block_rows :: "(block_row, string) outcome list \<Rightarrow> (i32 \<times> bmap) list \<Rightarrow> i32
    \<Rightarrow> (i32, string) outcome \<times> (i32 \<times> bmap) list" where
  "load_block_rows [] bs latest = (Ok latest, bs)"
| "load_block_rows (Ok row # rs) bs latest =
     load_block_rows rs
       (AList.update (br_height row) (push2 (br_address row) (into_utxo row) (bucket bs (br_height row))) bs)
       (max latest (br_height row))"
| "load_block_rows (Err e # rs) bs latest = (Err e, bs)"
| "load_block_rows (Panic # rs) bs latest = (Panic, bs)"

definition load_blocks :: "block_row csv_file \<Rightarrow> csv_db \<Rightarrow> (unit, string) outcome \<times> csv_db" where
  "load_blocks f s =
     (case f of
        Missing \<Rightarrow> (Ok (), s)
      | Unreadable e \<Rightarrow> (Err e, s)
      | Rows rs \<Rightarrow>
          (case load_block_rows rs (cs_blocks s) 0 of
             (Ok latest, bs) \<Rightarrow>
               (Ok (), if 0 < latest then s\<lparr>cs_blocks := bs, cs_latest_block := latest\<rparr>
                       else s\<lparr>cs_blocks := bs\<rparr>)
           | (Err e, bs) \<Rightarrow> (Err e, s\<lparr>cs_blocks := bs\<rparr>)
           | (Panic, bs) \<Rightarrow> (Panic, s\<lparr>cs_blocks := bs\<rparr>)))"

definition load_data :: "utxo_row csv_file \<Rightarrow> block_row csv_file \<Rightarrow> csv_db \<Rightarrow> (unit, string) outcome \<times> csv_db" where
  "load_data fu fb s =
     (case load_utxos fu s of
        (Ok _, s') \<Rightarrow> load_blocks fb s'
      | (Err e, s') \<Rightarrow> (Err e, s')
      | (Panic, s') \<Rightarrow> (Panic, s'))"

text \<open>
  \<^verbatim>\<open>new\<close>: failing to find or create the data directory panics; a failure to load is
  logged, and what was read stays.
\<close>

definition csv_new :: "os_env \<Rightarrow> utxo_row csv_file \<Rightarrow> block_row csv_file \<Rightarrow> csv_db sres" where
  "csv_new os fu fb =
     (if cwd_fault os \<noteq> None \<or> mkdir_fault os \<noteq> None then Panic
      else case load_data fu fb csv_empty of (Panic, _) \<Rightarrow> Panic | (_, s) \<Rightarrow> Ok s)"

section \<open>Writing\<close>

fun csv_insert_loop :: "utxo list \<Rightarrow> umap \<Rightarrow> bmap \<Rightarrow> unit sres \<times> umap \<times> bmap" where
  "csv_insert_loop [] m b = (Ok (), m, b)"
| "csv_insert_loop (u # us) m b =
     (case check_utxo u of
        Ok _ \<Rightarrow> csv_insert_loop us (insert2 (address u) (outpoint_key (txid u) (vout u)) u m)
                   (push2 (address u) u b)
      | Err e \<Rightarrow> (Err e, m, b)
      | Panic \<Rightarrow> (Panic, m, b))"

definition update2 :: "utxo \<Rightarrow> umap \<Rightarrow> umap" where
  "update2 s m =
     (let a = address s; k = outpoint_key (txid s) (vout s)
      in case map_of m a of
           None \<Rightarrow> m
         | Some b \<Rightarrow> (case map_of b k of
               None \<Rightarrow> m
             | Some u \<Rightarrow> AList.update a (AList.update k (mark_spent s u) b) m))"

fun csv_update_loop :: "utxo list \<Rightarrow> umap \<Rightarrow> unit sres \<times> umap" where
  "csv_update_loop [] m = (Ok (), m)"
| "csv_update_loop (u # us) m =
     (case check_utxo u of
        Ok _ \<Rightarrow> csv_update_loop us (update2 u m)
      | Err e \<Rightarrow> (Err e, m)
      | Panic \<Rightarrow> (Panic, m))"

definition csv_process_block_utxos :: "pending_changes \<Rightarrow> csv_db \<Rightarrow> unit sres \<times> csv_db" where
  "csv_process_block_utxos changes s =
     (if pc_height changes < 0 then (Err (InvalidBlockHeight (pc_height changes)), s)
      else case csv_insert_loop (utxos_insert changes) (cs_utxos s) [] of
        (Ok _, m, b) \<Rightarrow>
          (let s1 = s\<lparr>cs_utxos := m, cs_blocks := AList.update (pc_height changes) b (cs_blocks s)\<rparr>
           in case csv_update_loop (utxos_update changes) m of
                (Ok _, m') \<Rightarrow> (Ok (), s1\<lparr>cs_utxos := m', cs_latest_block := pc_height changes\<rparr>)
              | (r, m') \<Rightarrow> (r, s1\<lparr>cs_utxos := m'\<rparr>))
      | (r, m, b) \<Rightarrow> (r, s\<lparr>cs_utxos := m\<rparr>))"

definition csv_bulk_upsert_utxos :: "utxo list \<Rightarrow> csv_db \<Rightarrow> unit sres \<times> csv_db" where
  "csv_bulk_upsert_utxos us s =
     csv_process_block_utxos
       \<lparr>pc_height = 0, utxos_update = filter (\<lambda>u. spent_txid u \<noteq> None) us,
        utxos_insert = filter (\<lambda>u. spent_txid u = None) us\<rparr> s"

definition csv_store_block :: "i32 \<Rightarrow> string \<Rightarrow> datetime \<Rightarrow> csv_db \<Rightarrow> unit sres \<times> csv_db" where
  "csv_store_block h x ts s =
     (Ok (), s\<lparr>cs_block_hashes := AList.update h x (cs_block_hashes s),
               cs_block_timestamps := AList.update h ts (cs_block_timestamps s),
               cs_main_chain_heights := insert h (cs_main_chain_heights s)\<rparr>)"

definition csv_mark_blocks_as_final :: "i32 \<Rightarrow> csv_db \<Rightarrow> unit sres \<times> csv_db" where
  "csv_mark_blocks_as_final threshold s =
     (Ok (), s\<lparr>cs_finalized_heights := cs_finalized_heights s \<union> {0..threshold}\<rparr>)"

definition csv_mark_blocks_after_height_not_main_chain :: "i32 \<Rightarrow> csv_db \<Rightarrow> unit sres \<times> csv_db" where
  "csv_mark_blocks_after_height_not_main_chain h s =
     (Ok (), s\<lparr>cs_main_chain_heights := Set.filter (\<lambda>x. x \<le> h) (cs_main_chain_heights s)\<rparr>)"

definition csv_revert_utxos_after_height :: "i32 \<Rightarrow> csv_db \<Rightarrow> unit sres \<times> csv_db" where
  "csv_revert_utxos_after_height h s =
     (Ok (), s\<lparr>cs_utxos :=
                 map (\<lambda>(a, b). (a, map (\<lambda>(k, u). (k, unspend_after h u))
                                        (filter (\<lambda>(k, u). block_height u \<le> h) b))) (cs_utxos s),
               cs_blocks := filter (\<lambda>(bh, _). bh \<le> h) (cs_blocks s),
               cs_latest_block := h\<rparr>)"

section \<open>Queries\<close>

definition csv_get_latest_block :: "csv_db \<Rightarrow> i32 sres" where
  "csv_get_latest_block s = Ok (cs_latest_block s)"

definition csv_get_spendable_utxos_at_height :: "csv_env \<Rightarrow> i32 \<Rightarrow> string \<Rightarrow> csv_db \<Rightarrow> utxo list sres" where
  "csv_get_spendable_utxos_at_height E h a s =
     and_then (check_height h) (\<lambda>_. and_then (check_address a) (\<lambda>_.
       case map_of (cs_utxos s) a of
         None \<Rightarrow> Ok []
       | Some b \<Rightarrow> Ok (filter (\<lambda>u. block_height u \<le> h
             \<and> (case spent_block u of None \<Rightarrow> True | Some sh \<Rightarrow> h < sh)) (values_in (id_order E a) b))))"

definition csv_get_utxos_for_block_and_address :: "i32 \<Rightarrow> string \<Rightarrow> csv_db \<Rightarrow> utxo list sres" where
  "csv_get_utxos_for_block_and_address h a s =
     and_then (check_height h) (\<lambda>_. and_then (check_address a) (\<lambda>_.
       Ok (bucket (bucket (cs_blocks s) h) a)))"

definition csv_get_all_utxos_for_block :: "csv_env \<Rightarrow> i32 \<Rightarrow> csv_db \<Rightarrow> utxo list sres" where
  "csv_get_all_utxos_for_block E h s =
     and_then (check_height h) (\<lambda>_. Ok (concat (values_in (block_order E h) (bucket (cs_blocks s) h))))"

definition csv_get_block_hash :: "i32 \<Rightarrow> csv_db \<Rightarrow> string option sres" where
  "csv_get_block_hash h s =
     (if h \<in> cs_main_chain_heights s then Ok (map_of (cs_block_hashes s) h) else Ok None)"

definition csv_get_utxo_by_outpoint :: "csv_env \<Rightarrow> string \<Rightarrow> i32 \<Rightarrow> csv_db \<Rightarrow> utxo option sres" where
  "csv_get_utxo_by_outpoint E t v s =
     Ok (find (\<lambda>u. txid u = t \<and> vout u = v)
           (concat (map (\<lambda>(a, b). values_in (id_order E a) b)
                      (sort_key (\<lambda>ab. address_order E (fst ab)) (cs_utxos s)))))"

definition csv_ds :: "csv_env \<Rightarrow> csv_db datasource" where
  "csv_ds E =
     \<lparr>ds_setup = (\<lambda>s. (Ok (), s)),
      ds_get_type = ''CSV'',
      ds_get_latest_block = csv_get_latest_block,
      ds_process_block_utxos = csv_process_block_utxos,
      ds_bulk_upsert_utxos = csv_bulk_upsert_utxos,
      ds_get_spendable_utxos_at_height = csv_get_spendable_utxos_at_height E,
      ds_get_utxos_for_block_and_address = csv_get_utxos_for_block_and_address,
      ds_get_all_utxos_for_block = csv_get_all_utxos_for_block E,
      ds_get_utxo_by_outpoint = csv_get_utxo_by_outpoint E,
      ds_store_block = csv_store_block,
      ds_get_block_hash = csv_get_block_hash,
      ds_mark_blocks_as_final = csv_mark_blocks_as_final,
      ds_mark_blocks_after_height_not_main_chain = csv_mark_blocks_after_height_not_main_chain,
      ds_revert_utxos_after_height = csv_revert_utxos_after_height\<rparr>"

end
