(* ===== verification/Csv_Correct.thy ===== *)
theory Csv_Correct
  imports Csv_Store Database
begin

text \<open>
  Correctness of the CSV data source: the nested maps refine the ledger on well-formed
  blocks, and interpret the contract.
\<close>

section \<open>Lookups in nested maps\<close>

definition lookup2 :: "umap \<Rightarrow> string \<Rightarrow> string \<Rightarrow> utxo option" where
  "lookup2 m a k = map_of (bucket m a) k"

definition umap_distinct :: "umap \<Rightarrow> bool" where
  "umap_distinct m \<longleftrightarrow> distinct (map fst m) \<and> (\<forall>ab \<in> set m. distinct (map fst (snd ab)))"

definition umap_ok :: "umap \<Rightarrow> bool" where
  "umap_ok m \<longleftrightarrow> umap_distinct m
     \<and> (\<forall>a k u. lookup2 m a k = Some u \<longrightarrow> address u = a \<and> utxo_id u = k \<and> valid_utxo u)
     \<and> (\<forall>a a' k. lookup2 m a k \<noteq> None \<longrightarrow> lookup2 m a' k \<noteq> None \<longrightarrow> a = a')"

definition umap_view :: "umap \<Rightarrow> ledger" where
  "umap_view m = map_of (concat (map snd m))"

lemma map_of_update: "map_of (AList.update k v al) = (map_of al)(k \<mapsto> v)"
  by (induction al) auto

lemma bucket_update [simp]: "bucket (AList.update a b m) a' = (if a' = a then b else bucket m a')"
  by (simp add: bucket_def map_of_update)

lemma lookup2_insert2: "lookup2 (insert2 a k u m) a' k' = (if a' = a \<and> k' = k then Some u else lookup2 m a' k')"
  by (simp add: lookup2_def insert2_def map_of_update)

lemma lookup2_update2:
  "lookup2 (update2 s m) a k =
     (if a = address s \<and> k = outpoint_key (txid s) (vout s)
      then map_option (mark_spent s) (lookup2 m a k) else lookup2 m a k)"
  by (auto simp: update2_def lookup2_def Let_def bucket_def map_of_update split: option.splits)

lemma umap_ok_distinct: "umap_ok m \<Longrightarrow> umap_distinct m"
  by (simp add: umap_ok_def)

lemma umap_ok_entry:
  "umap_ok m \<Longrightarrow> lookup2 m a k = Some u \<Longrightarrow> address u = a \<and> utxo_id u = k \<and> valid_utxo u"
  unfolding umap_ok_def by blast

lemma umap_ok_unique:
  "umap_ok m \<Longrightarrow> lookup2 m a k = Some u \<Longrightarrow> lookup2 m a' k = Some u' \<Longrightarrow> a = a'"
  unfolding umap_ok_def by (metis option.distinct(1))

lemma umap_okI:
  assumes "umap_distinct m"
    and "\<And>a k u. lookup2 m a k = Some u \<Longrightarrow> address u = a \<and> utxo_id u = k \<and> valid_utxo u"
    and "\<And>a a' k u u'. lookup2 m a k = Some u \<Longrightarrow> lookup2 m a' k = Some u' \<Longrightarrow> a = a'"
  shows "umap_ok m"
  unfolding umap_ok_def using assms by (metis not_Some_eq)

lemma lookup2_update2_None [simp]: "lookup2 (update2 s m) a k = None \<longleftrightarrow> lookup2 m a k = None"
  by (simp add: lookup2_update2)

lemma distinct_bucket: "umap_distinct m \<Longrightarrow> distinct (map fst (bucket m a))"
  by (auto simp: umap_distinct_def bucket_def split: option.splits dest: map_of_SomeD)

lemma set_alist_update: "set (AList.update a b m) \<subseteq> insert (a, b) (set m)"
  by (induction m) auto

lemma umap_distinct_update:
  "umap_distinct m \<Longrightarrow> distinct (map fst b) \<Longrightarrow> umap_distinct (AList.update a b m)"
  using set_alist_update [of a b m] by (auto simp: umap_distinct_def distinct_update)

lemma umap_distinct_insert2: "umap_distinct m \<Longrightarrow> umap_distinct (insert2 a k u m)"
  by (simp add: insert2_def umap_distinct_update distinct_update distinct_bucket)

lemma umap_distinct_update2: "umap_distinct m \<Longrightarrow> umap_distinct (update2 s m)"
  using distinct_bucket [of m "address s"]
  by (auto simp: update2_def Let_def bucket_def umap_distinct_update distinct_update split: option.splits)

lemma umap_view_Some:
  assumes "umap_ok m"
  shows "umap_view m k = Some u \<longleftrightarrow> (\<exists>a. lookup2 m a k = Some u)"
proof -
  have D: "distinct (map fst m)" "\<And>a b. (a, b) \<in> set m \<Longrightarrow> distinct (map fst b)"
    using assms by (auto simp: umap_ok_def umap_distinct_def)
  have to: "\<exists>a. lookup2 m a k = Some u" if "umap_view m k = Some u" for u
  proof -
    from that obtain a b where "(a, b) \<in> set m" "(k, u) \<in> set b"
      by (auto simp: umap_view_def dest!: map_of_SomeD)
    then show ?thesis using D by (auto simp: lookup2_def bucket_def intro!: exI [of _ a])
  qed
  have "umap_view m k = Some u" if l: "lookup2 m a k = Some u" for a
  proof -
    from l obtain b where "(a, b) \<in> set m" "(k, u) \<in> set b"
      by (auto simp: lookup2_def bucket_def split: option.splits dest!: map_of_SomeD)
    then have "(k, u) \<in> set (concat (map snd m))" by (auto intro: bexI [of _ "(a, b)"])
    then have "k \<in> fst ` set (concat (map snd m))" by force
    then have "umap_view m k \<noteq> None" by (simp add: umap_view_def map_of_eq_None_iff)
    then obtain u' a' where "umap_view m k = Some u'" "lookup2 m a' k = Some u'"
      using to by blast
    with l assms show ?thesis unfolding umap_ok_def by (metis option.distinct(1) option.inject)
  qed
  with to show ?thesis by blast
qed

lemma umap_view_eqI:
  assumes "umap_ok m" and "\<And>k u. L k = Some u \<longleftrightarrow> (\<exists>a. lookup2 m a k = Some u)"
  shows "umap_view m = L"
proof
  fix k show "umap_view m k = L k"
    using umap_view_Some [OF assms(1), of k] assms(2) [of k] by (metis not_Some_eq)
qed

lemma umap_lookup: "umap_ok m \<Longrightarrow> umap_view m k = Some u \<longleftrightarrow> lookup2 m (address u) k = Some u"
  using umap_view_Some [of m k u] by (auto simp: umap_ok_def)

lemma umap_view_valid: "umap_ok m \<Longrightarrow> umap_view m k = Some u \<Longrightarrow> valid_utxo u \<and> utxo_id u = k"
  using umap_view_Some [of m k u] unfolding umap_ok_def by blast

section \<open>Blocks refine the ledger\<close>

lemma umap_insert2:
  assumes "umap_ok m" and "valid_utxo u" and "umap_view m (utxo_id u) = None"
  shows "umap_ok (insert2 (address u) (utxo_id u) u m)"
    and "umap_view (insert2 (address u) (utxo_id u) u m) = (umap_view m)(utxo_id u \<mapsto> u)"
proof -
  have none: "lookup2 m a (utxo_id u) = None" for a
    using umap_view_Some [OF assms(1), of "utxo_id u"] assms(3) by (cases "lookup2 m a (utxo_id u)") auto
  show ok: "umap_ok (insert2 (address u) (utxo_id u) u m)"
    using assms(1,2) none unfolding umap_ok_def
    by (auto simp: lookup2_insert2 umap_distinct_insert2 split: if_splits)
  show "umap_view (insert2 (address u) (utxo_id u) u m) = (umap_view m)(utxo_id u \<mapsto> u)"
    using ok by (rule umap_view_eqI) (auto simp: lookup2_insert2 none umap_view_Some [OF assms(1)])
qed

lemma umap_update2:
  assumes "umap_ok m" and "valid_utxo s" and "umap_view m (utxo_id s) = Some u" and "address u = address s"
  shows "umap_ok (update2 s m)"
    and "umap_view (update2 s m) = (umap_view m)(utxo_id s \<mapsto> mark_spent s u)"
proof -
  have key: "outpoint_key (txid s) (vout s) = utxo_id s" using assms(2) by (simp add: valid_utxo_def)
  have here: "lookup2 m (address s) (utxo_id s) = Some u"
    using assms(1,3,4) umap_lookup by metis
  have only: "lookup2 m a (utxo_id s) = Some v \<Longrightarrow> a = address s \<and> v = u" for a v
    using here assms(1) unfolding umap_ok_def by (metis option.distinct(1) option.inject)
  show ok: "umap_ok (update2 s m)"
    using assms(1) unfolding umap_ok_def lookup2_update2_None
    by (auto simp: lookup2_update2 umap_distinct_update2 split: if_splits)
  show "umap_view (update2 s m) = (umap_view m)(utxo_id s \<mapsto> mark_spent s u)"
    using ok by (rule umap_view_eqI)
      (auto simp: lookup2_update2 key here umap_view_Some [OF assms(1)] dest: only)
qed

lemma ledger_create_Cons:
  "utxo_id u \<notin> utxo_id ` set us \<Longrightarrow> ledger_create (u # us) L = ledger_create us (L(utxo_id u \<mapsto> u))"
  by (rule ext) (auto simp: ledger_create_def map_add_def table_of_None split: option.splits
      dest!: table_of_key_in)

lemma ledger_spend_Cons:
  "utxo_id s \<notin> utxo_id ` set sp \<Longrightarrow> L (utxo_id s) = Some u \<Longrightarrow>
   ledger_spend (s # sp) L = ledger_spend sp (L(utxo_id s \<mapsto> mark_spent s u))"
  by (rule ext) (auto simp: ledger_spend_def table_of_None split: option.splits dest!: table_of_key_in)

lemma csv_insert_loop_refines:
  assumes "umap_ok m" and "\<forall>u \<in> set us. valid_utxo u \<and> umap_view m (utxo_id u) = None"
    and "distinct (map utxo_id us)"
  shows "\<exists>m' b'. csv_insert_loop us m b = (Ok (), m', b') \<and> umap_ok m'
     \<and> umap_view m' = ledger_create us (umap_view m)"
  using assms
proof (induction us arbitrary: m b)
  case Nil
  then show ?case by (simp add: ledger_create_def)
next
  case (Cons u us)
  let ?m = "insert2 (address u) (utxo_id u) u m"
  have u: "valid_utxo u" "umap_view m (utxo_id u) = None" using Cons.prems(2) by auto
  have key: "outpoint_key (txid u) (vout u) = utxo_id u" using u(1) by (simp add: valid_utxo_def)
  have ok: "umap_ok ?m" and view: "umap_view ?m = (umap_view m)(utxo_id u \<mapsto> u)"
    using umap_insert2 [OF Cons.prems(1) u] by auto
  have "utxo_id v \<noteq> utxo_id u" if "v \<in> set us" for v
    using that Cons.prems(3) by (metis distinct.simps(2) imageI list.map(2) list.set_map)
  then have "\<forall>v \<in> set us. valid_utxo v \<and> umap_view ?m (utxo_id v) = None"
    using Cons.prems(2) by (simp add: view)
  from Cons.IH [OF ok this, of "push2 (address u) u b"] Cons.prems(3)
  have "\<exists>m' b'. csv_insert_loop us ?m (push2 (address u) u b) = (Ok (), m', b') \<and> umap_ok m'
     \<and> umap_view m' = ledger_create us (umap_view ?m)" by simp
  then show ?case unfolding view using u Cons.prems(3) by (simp add: key ledger_create_Cons)
qed

lemma csv_update_loop_refines:
  assumes "umap_ok m"
    and "\<forall>s \<in> set sp. valid_utxo s \<and> (\<exists>u. umap_view m (utxo_id s) = Some u \<and> address u = address s)"
    and "distinct (map utxo_id sp)"
  shows "\<exists>m'. csv_update_loop sp m = (Ok (), m') \<and> umap_ok m'
     \<and> umap_view m' = ledger_spend sp (umap_view m)"
  using assms
proof (induction sp arbitrary: m)
  case Nil
  then show ?case by (simp add: ledger_spend_def)
next
  case (Cons s sp)
  then obtain u where u: "umap_view m (utxo_id s) = Some u" "address u = address s" and s: "valid_utxo s"
    by auto
  have ok: "umap_ok (update2 s m)"
    and view: "umap_view (update2 s m) = (umap_view m)(utxo_id s \<mapsto> mark_spent s u)"
    using umap_update2 [OF Cons.prems(1) s u] by auto
  have "utxo_id t \<noteq> utxo_id s" if "t \<in> set sp" for t
    using that Cons.prems(3) by (metis distinct.simps(2) imageI list.map(2) list.set_map)
  then have "\<forall>t \<in> set sp. valid_utxo t \<and> (\<exists>u. umap_view (update2 s m) (utxo_id t) = Some u \<and> address u = address t)"
    using Cons.prems(2) by (simp add: view)
  from Cons.IH [OF ok this] Cons.prems(3)
  have "\<exists>m'. csv_update_loop sp (update2 s m) = (Ok (), m') \<and> umap_ok m'
     \<and> umap_view m' = ledger_spend sp (umap_view (update2 s m))" by simp
  then show ?case unfolding view using s u Cons.prems(3) by (simp add: ledger_spend_Cons)
qed

section \<open>The contract\<close>

definition csv_view :: "csv_db \<Rightarrow> ledger" where
  "csv_view s = umap_view (cs_utxos s)"

definition csv_chain :: "csv_db \<Rightarrow> i32 \<Rightarrow> string option" where
  "csv_chain s h = (if h \<in> cs_main_chain_heights s then map_of (cs_block_hashes s) h else None)"

definition csv_inv :: "csv_db \<Rightarrow> bool" where
  "csv_inv s \<longleftrightarrow> umap_ok (cs_utxos s)"

lemma csv_process_refines:
  assumes I: "csv_inv s" and W: "wf_changes (csv_view s) pc"
  shows "\<exists>s'. csv_process_block_utxos pc s = (Ok (), s') \<and> csv_inv s'
     \<and> csv_view s' = ledger_apply pc (csv_view s) \<and> csv_chain s' = csv_chain s"
proof -
  let ?L = "csv_view s"
  have ok: "umap_ok (cs_utxos s)" using I by (simp add: csv_inv_def)
  have ins: "\<forall>u \<in> set (utxos_insert pc). valid_utxo u \<and> umap_view (cs_utxos s) (utxo_id u) = None"
    "distinct (map utxo_id (utxos_insert pc))"
    using W by (auto simp: wf_changes_def csv_view_def)
  obtain m b where m: "csv_insert_loop (utxos_insert pc) (cs_utxos s) [] = (Ok (), m, b)" "umap_ok m"
    "umap_view m = ledger_create (utxos_insert pc) ?L"
    using csv_insert_loop_refines [OF ok ins, of "[]"] by (auto simp: csv_view_def)
  have "\<exists>u. umap_view m (utxo_id x) = Some u \<and> address u = address x" if "x \<in> set (utxos_update pc)" for x
  proof -
    from that W obtain u where u: "?L (utxo_id x) = Some u" "address u = address x"
      by (auto simp: wf_changes_def)
    with ins(1) have "utxo_id x \<notin> utxo_id ` set (utxos_insert pc)" by (auto simp: csv_view_def)
    then have "table_of utxo_id (utxos_insert pc) (utxo_id x) = None" by (simp add: table_of_None)
    with u m(3) show ?thesis by (simp add: ledger_create_def map_add_def)
  qed
  then obtain m' where "csv_update_loop (utxos_update pc) m = (Ok (), m')" "umap_ok m'"
    "umap_view m' = ledger_apply pc ?L"
    using csv_update_loop_refines [OF m(2), of "utxos_update pc"] W m(3)
    by (auto simp: wf_changes_def ledger_apply_def)
  then show ?thesis
    using W m(1) by (auto simp: csv_process_block_utxos_def Let_def csv_inv_def csv_view_def
        csv_chain_def fun_eq_iff wf_changes_def)
qed

lemma csv_process_negative:
  "pc_height pc < 0 \<Longrightarrow> csv_process_block_utxos pc s = (Err (InvalidBlockHeight (pc_height pc)), s)"
  by (simp add: csv_process_block_utxos_def)

lemma set_values_in [simp]: "set (values_in pos m) = snd ` set m"
  by (simp add: values_in_def)

lemma bucket_entries:
  "umap_ok m \<Longrightarrow> map_of m a = Some b \<Longrightarrow>
   snd ` set b = {u. \<exists>k. lookup2 m a k = Some u} \<and> distinct (map snd b)"
proof -
  assume ok: "umap_ok m" and b: "map_of m a = Some b"
  have d: "distinct (map fst b)" using ok b by (auto simp: umap_ok_def umap_distinct_def dest: map_of_SomeD)
  have look: "lookup2 m a k = map_of b k" for k using b by (simp add: lookup2_def bucket_def)
  have key: "k = utxo_id u" if "(k, u) \<in> set b" for k u
  proof -
    from that d have "lookup2 m a k = Some u" by (simp add: look)
    then show ?thesis using umap_ok_entry [OF ok] by blast
  qed
  have "inj_on snd (set b)"
  proof (rule inj_onI)
    fix x y assume xy: "x \<in> set b" "y \<in> set b" "snd x = snd y"
    have "fst x = utxo_id (snd x)" using xy(1) by (intro key) simp
    moreover have "fst y = utxo_id (snd y)" using xy(2) by (intro key) simp
    ultimately show "x = y" using xy(3) by (simp add: prod_eq_iff)
  qed
  then have "distinct (map snd b)" using d by (simp add: distinct_map)
  moreover have "snd ` set b = {u. \<exists>k. map_of b k = Some u}" using d by (auto intro: rev_image_eqI)
  ultimately show ?thesis by (simp add: look)
qed

lemma lookup2_values:
  assumes "umap_ok m"
  shows "(\<exists>k. lookup2 m a k = Some u) \<longleftrightarrow> (\<exists>b. map_of m a = Some b \<and> u \<in> snd ` set b)"
proof (cases "map_of m a")
  case None
  then show ?thesis by (simp add: lookup2_def bucket_def)
next
  case (Some b)
  then show ?thesis using bucket_entries [OF assms Some] by auto
qed

lemma csv_spendable_refines:
  assumes I: "csv_inv s" and "0 \<le> h" and "a \<noteq> []"
  shows "\<exists>us. csv_get_spendable_utxos_at_height E h a s = Ok us \<and> distinct us
     \<and> set us = spendable_set (csv_view s) h a"
proof -
  have ok: "umap_ok (cs_utxos s)" using I by (simp add: csv_inv_def)
  have S: "spendable_set (csv_view s) h a = {u. (\<exists>k. lookup2 (cs_utxos s) a k = Some u) \<and> unspent_at h u}"
    using umap_ok_entry [OF ok]
    by (auto simp: spendable_set_def csv_view_def umap_view_Some [OF ok])
  show ?thesis
  proof (cases "map_of (cs_utxos s) a")
    case None
    then have "lookup2 (cs_utxos s) a k = None" for k by (simp add: lookup2_def bucket_def)
    with None assms show ?thesis by (simp add: csv_get_spendable_utxos_at_height_def S)
  next
    case (Some b)
    have "distinct (values_in (id_order E a) b)"
      using bucket_entries [OF ok Some] by (simp add: values_in_def distinct_map)
    with bucket_entries [OF ok Some] show ?thesis
      using assms Some by (auto simp: csv_get_spendable_utxos_at_height_def S unspent_at_def)
  qed
qed

lemma csv_outpoint_refines:
  assumes I: "csv_inv s"
  shows "csv_get_utxo_by_outpoint E t v s = Ok (csv_view s (outpoint_key t v))"
proof -
  have ok: "umap_ok (cs_utxos s)" using I by (simp add: csv_inv_def)
  let ?all = "concat (map (\<lambda>(a, b). values_in (id_order E a) b)
                      (sort_key (\<lambda>ab. address_order E (fst ab)) (cs_utxos s)))"
  let ?P = "\<lambda>u. txid u = t \<and> vout u = v"
  have mem: "u \<in> set ?all \<longleftrightarrow> (\<exists>k. csv_view s k = Some u)" for u
  proof -
    have "u \<in> set ?all \<longleftrightarrow> (\<exists>a b. (a, b) \<in> set (cs_utxos s) \<and> u \<in> snd ` set b)" by force
    also have "\<dots> \<longleftrightarrow> (\<exists>a b. map_of (cs_utxos s) a = Some b \<and> u \<in> snd ` set b)"
      using ok by (auto simp: umap_ok_def umap_distinct_def dest: map_of_SomeD)
    also have "\<dots> \<longleftrightarrow> (\<exists>a k. lookup2 (cs_utxos s) a k = Some u)"
      by (simp add: lookup2_values [OF ok])
    finally show ?thesis by (auto simp: csv_view_def umap_view_Some [OF ok])
  qed
  have keyed: "?P u \<longleftrightarrow> k = outpoint_key t v" if "csv_view s k = Some u" for u k
  proof -
    have "k = outpoint_key (txid u) (vout u)"
      using umap_view_valid [OF ok] that by (auto simp: csv_view_def valid_utxo_def)
    then show ?thesis by (auto simp: outpoint_key_inj)
  qed
  have "find ?P ?all = csv_view s (outpoint_key t v)"
  proof (cases "find ?P ?all")
    case None
    then have "csv_view s (outpoint_key t v) \<noteq> Some u" for u
      using mem [of u] keyed [of "outpoint_key t v" u] by (auto simp: find_None_iff)
    with None show ?thesis by (cases "csv_view s (outpoint_key t v)") auto
  next
    case (Some u)
    then have "u \<in> set ?all" "?P u" by (auto simp: find_Some_iff simp del: set_concat)
    then obtain k where "csv_view s k = Some u" using mem by blast
    with keyed [OF this] \<open>?P u\<close> Some show ?thesis by simp
  qed
  then show ?thesis by (simp add: csv_get_utxo_by_outpoint_def)
qed

lemma csv_revert_refines:
  assumes I: "csv_inv s"
  shows "\<exists>s'. csv_revert_utxos_after_height h s = (Ok (), s') \<and> csv_inv s'
     \<and> csv_view s' = ledger_revert h (csv_view s) \<and> csv_chain s' = csv_chain s"
proof -
  let ?g = "\<lambda>b. map (\<lambda>(k, u). (k, unspend_after h u)) (filter (\<lambda>(k, u). block_height u \<le> h) b)"
  let ?m = "map (\<lambda>(a, b). (a, ?g b)) (cs_utxos s)"
  have ok: "umap_ok (cs_utxos s)" using I by (simp add: csv_inv_def)
  have keys: "map fst (?g b) = map fst (filter (\<lambda>(k, u). block_height u \<le> h) b)" for b :: "(string \<times> utxo) list"
    by (simp add: case_prod_unfold)
  have part: "map_of (?g b) k = (case map_of b k of None \<Rightarrow> None
      | Some u \<Rightarrow> if block_height u \<le> h then Some (unspend_after h u) else None)"
    if "distinct (map fst b)" for b k
    using that by (induction b) (auto split: option.splits simp: map_of_eq_None_iff rev_image_eqI)
  have "bucket (map (\<lambda>(a, b). (a, ?g b)) m) a = ?g (bucket m a)" for m a
    by (induction m) (auto simp: bucket_def)
  then have buck: "bucket ?m a = ?g (bucket (cs_utxos s) a)" for a .
  have look: "lookup2 ?m a k = (case lookup2 (cs_utxos s) a k of None \<Rightarrow> None
      | Some u \<Rightarrow> if block_height u \<le> h then Some (unspend_after h u) else None)" for a k
    using part [OF distinct_bucket] ok by (simp add: lookup2_def buck umap_ok_def)
  have "umap_distinct ?m"
    using ok by (auto simp: umap_ok_def umap_distinct_def case_prod_unfold comp_def keys
        intro!: distinct_map_filter_keep)
  then have ok': "umap_ok ?m"
    by (rule umap_okI) (auto simp: look split: option.splits if_splits
        dest: umap_ok_entry [OF ok] umap_ok_unique [OF ok])
  moreover have "umap_view ?m = ledger_revert h (umap_view (cs_utxos s))"
    using ok' by (rule umap_view_eqI)
      (auto simp: look ledger_revert_Some umap_view_Some [OF ok] split: option.splits if_splits)
  ultimately show ?thesis
    by (simp add: csv_revert_utxos_after_height_def csv_inv_def csv_view_def csv_chain_def fun_eq_iff)
qed

lemma csv_chain_ops:
  "csv_chain (s\<lparr>cs_block_hashes := AList.update h x (cs_block_hashes s), cs_block_timestamps := ts,
     cs_main_chain_heights := insert h (cs_main_chain_heights s)\<rparr>) = (csv_chain s)(h \<mapsto> x)"
  "csv_chain (s\<lparr>cs_main_chain_heights := Set.filter (\<lambda>y. y \<le> h) (cs_main_chain_heights s)\<rparr>)
     = csv_chain s |` {..h}"
  by (auto simp: csv_chain_def fun_eq_iff map_of_update restrict_map_def)

lemma csv_ds_sel [simp]:
  "ds_get_latest_block (csv_ds E) = csv_get_latest_block"
  "ds_process_block_utxos (csv_ds E) = csv_process_block_utxos"
  "ds_bulk_upsert_utxos (csv_ds E) = csv_bulk_upsert_utxos"
  "ds_get_spendable_utxos_at_height (csv_ds E) = csv_get_spendable_utxos_at_height E"
  "ds_get_utxos_for_block_and_address (csv_ds E) = csv_get_utxos_for_block_and_address"
  "ds_get_all_utxos_for_block (csv_ds E) = csv_get_all_utxos_for_block E"
  "ds_get_utxo_by_outpoint (csv_ds E) = csv_get_utxo_by_outpoint E"
  "ds_store_block (csv_ds E) = csv_store_block"
  "ds_get_block_hash (csv_ds E) = csv_get_block_hash"
  "ds_mark_blocks_as_final (csv_ds E) = csv_mark_blocks_as_final"
  "ds_mark_blocks_after_height_not_main_chain (csv_ds E) = csv_mark_blocks_after_height_not_main_chain"
  "ds_revert_utxos_after_height (csv_ds E) = csv_revert_utxos_after_height"
  by (simp_all add: csv_ds_def)

lemmas csv_refines = csv_process_refines csv_process_negative csv_spendable_refines
  csv_outpoint_refines csv_revert_refines

interpretation cv: datasource_contract "csv_ds E" csv_view csv_chain csv_inv "\<lambda>_ _ _. True" True for E
proof (unfold_locales, simp_all add: csv_refines)
  fix s h x ts assume "csv_inv s"
  then show "\<exists>s'. csv_store_block h x ts s = (Ok (), s') \<and> csv_inv s' \<and> csv_view s' = csv_view s
      \<and> csv_chain s' = (csv_chain s)(h \<mapsto> x)"
    by (simp add: csv_store_block_def csv_chain_ops csv_inv_def csv_view_def)
next
  fix s h assume "csv_inv s"
  then show "\<exists>s'. csv_mark_blocks_after_height_not_main_chain h s = (Ok (), s') \<and> csv_inv s'
      \<and> csv_view s' = csv_view s \<and> csv_chain s' = csv_chain s |` {..h}"
    unfolding csv_mark_blocks_after_height_not_main_chain_def csv_chain_ops(2) [symmetric]
    by (simp add: csv_inv_def csv_view_def)
next
  fix s h assume "csv_inv s"
  then show "\<exists>s'. csv_mark_blocks_as_final h s = (Ok (), s') \<and> csv_inv s'
      \<and> csv_view s' = csv_view s \<and> csv_chain s' = csv_chain s"
    by (simp add: csv_mark_blocks_as_final_def csv_inv_def csv_view_def csv_chain_def fun_eq_iff)
next
  fix s h show "csv_get_block_hash h s = Ok (csv_chain s h)"
    by (simp add: csv_get_block_hash_def csv_chain_def)
next
  fix s i u assume "csv_inv s" and "csv_view s i = Some u"
  then show "valid_utxo u \<and> utxo_id u = i"
    using umap_view_valid by (simp add: csv_view_def csv_inv_def)
qed

end
