(* ===== verification/Storage_Socket.thy ===== *)
theory Storage_Socket
  imports Database Sqlite_Correct Csv_Correct
begin

text \<open>
  The socket server of the storage service (\<^verbatim>\<open>storage/src/network/socket.rs\<close>): one connection
  is the bytes the client sent, and yields the bytes written back.  The wire it forms with
  the client's \<^verbatim>\<open>SocketTransport\<close>, the states a service can reach under any traffic, and
  the round trip of a reorganisation.
\<close>

section \<open>Handling one message\<close>

fun handle_message :: "'s datasource \<Rightarrow> network_message \<Rightarrow> 's
    \<Rightarrow> (network_message option, string) outcome \<times> 's" where
  "handle_message D (BlockUpdate u) s =
     (case db_store_block D (bu_height u) (bu_hash u) (bu_timestamp u) s of
        (Panic, s1) \<Rightarrow> (Panic, s1)
      | (_, s1) \<Rightarrow>
         (case process_block D u s1 of
            (Panic, s2) \<Rightarrow> (Panic, s2)
          | (_, s2) \<Rightarrow> (Ok (Some (BlockProcessedAck (bu_height u))), s2)))"
| "handle_message D (ReorgEvent fork_height) s =
     (case revert_to_height D fork_height s of
        (Panic, s1) \<Rightarrow> (Panic, s1)
      | (_, s1) \<Rightarrow> (Ok None, s1))"
| "handle_message D (GetBlockHash h) s =
     (case db_get_block_hash D h s of
        Ok x \<Rightarrow> Ok (Some (BlockHashResponse x))
      | Err _ \<Rightarrow> Ok (Some (BlockHashResponse []))
      | Panic \<Rightarrow> Panic, s)"
| "handle_message D (UpdateFinalityStatus current_height) s =
     (case update_finality_status D current_height s of
        (Panic, s1) \<Rightarrow> (Panic, s1)
      | (_, s1) \<Rightarrow> (Ok None, s1))"
| "handle_message D _ s = (Ok None, s)"

section \<open>A connection\<close>

record conn_env =
  eof_error :: string
  reply_fault :: "string option"

definition handle_socket_connection :: "codec \<Rightarrow> conn_env \<Rightarrow> 's datasource \<Rightarrow> string \<Rightarrow> 's
    \<Rightarrow> (string, string) outcome \<times> 's" where
  "handle_socket_connection C K D input s =
     (case read_exact 4 input of
        None \<Rightarrow> (Err (''Failed to read message size: '' @ eof_error K), s)
      | Some (size_buf, rest) \<Rightarrow>
       (case read_exact (nat (from_le_bytes size_buf)) rest of
          None \<Rightarrow> (Err (''Failed to read message data: '' @ eof_error K), s)
        | Some (data, _) \<Rightarrow>
         (case deserialize C data of
            Err e \<Rightarrow> (Err (''Failed to deserialize message: '' @ e), s)
          | Panic \<Rightarrow> (Panic, s)
          | Ok m \<Rightarrow>
           (case handle_message D m s of
              (Ok (Some reply), s') \<Rightarrow>
                (and_then (serialize C reply) (\<lambda>d. and_then (raise_if (reply_fault K)) (\<lambda>_. Ok (frame d))), s')
            | (Ok None, s') \<Rightarrow> (Ok [], s')
            | (Err e, s') \<Rightarrow> (Err e, s')
            | (Panic, s') \<Rightarrow> (Panic, s')))))"

text \<open>What the client reads: the bytes written, nothing when the handler failed.\<close>

definition storage_wire :: "codec \<Rightarrow> conn_env \<Rightarrow> 's datasource \<Rightarrow> 's wire" where
  "storage_wire C K D =
     \<lparr>connect_fault = None, write_fault = None,
      ask = (\<lambda>b s. case handle_socket_connection C K D b s of
               (Ok out, s') \<Rightarrow> (out, s') | (_, s') \<Rightarrow> ([], s')),
      post = (\<lambda>b s. snd (handle_socket_connection C K D b s)),
      eof_text = eof_error K\<rparr>"

lemma handle_connection_frame:
  assumes d: "deserialize C d = Ok m" "length d < 4294967296"
  shows "handle_socket_connection C K D (frame d) s =
     (case handle_message D m s of
              (Ok (Some reply), s') \<Rightarrow>
                (and_then (serialize C reply) (\<lambda>d. and_then (raise_if (reply_fault K)) (\<lambda>_. Ok (frame d))), s')
            | (Ok None, s') \<Rightarrow> (Ok [], s')
            | (Err e, s') \<Rightarrow> (Err e, s')
            | (Panic, s') \<Rightarrow> (Panic, s'))"
proof -
  have "read_frame (frame d) = Some (d, [])" using read_frame_frame [OF d(2), of "[]"] by simp
  then obtain z r where "read_exact 4 (frame d) = Some (z, r)"
    "read_exact (nat (from_le_bytes z)) r = Some (d, [])"
    by (auto simp: read_frame_def split: option.splits)
  with d(1) show ?thesis by (simp add: handle_socket_connection_def)
qed

text \<open>The state after a connection is the state before, or after one handled message.\<close>

lemma handle_connection_state:
  "handle_socket_connection C K D input s = (r, s') \<Longrightarrow>
   s' = s \<or> (\<exists>m r'. handle_message D m s = (r', s'))"
  by (auto simp: handle_socket_connection_def split: option.splits outcome.splits prod.splits)

lemma request_storage:
  assumes C: "codec_ok C" "fits C m" "fits C reply" and K: "reply_fault K = None"
    and m: "handle_message D m s = (Ok (Some reply), s')"
  shows "request C (storage_wire C K D) m s = (Ok reply, s')"
proof -
  obtain d where d: "serialize C m = Ok d" "deserialize C d = Ok m" "length d < 4294967296"
    using C(2,1) by (rule fitsE)
  obtain e where e: "serialize C reply = Ok e" "deserialize C e = Ok reply" "length e < 4294967296"
    using C(3,1) by (rule fitsE)
  show ?thesis
    using handle_connection_frame [OF d(2,3), of K D s] read_frame_frame [OF e(3), of "[]"]
    by (simp add: request_def storage_wire_def d m e K)
qed

lemma notify_storage:
  assumes C: "codec_ok C" "fits C m" and m: "handle_message D m s = (Ok None, s')"
  shows "notify C (storage_wire C K D) m s = (Ok (), s')"
proof -
  obtain d where d: "serialize C m = Ok d" "deserialize C d = Ok m" "length d < 4294967296"
    using C(2,1) by (rule fitsE)
  show ?thesis
    using handle_connection_frame [OF d(2,3), of K D s]
    by (simp add: notify_def storage_wire_def d m)
qed

section \<open>Delivering blocks and a reorganisation\<close>

definition deliver_blocks :: "'s datasource \<Rightarrow> block_update list \<Rightarrow> 's \<Rightarrow> 's" where
  "deliver_blocks D bs s = fold (\<lambda>b t. snd (handle_message D (BlockUpdate b) t)) bs s"

fun consecutive :: "i32 \<Rightarrow> block_update list \<Rightarrow> bool" where
  "consecutive h [] = True"
| "consecutive h (b # bs) = (bu_height b = h + 1 \<and> consecutive (h + 1) bs)"

definition hashes_of :: "block_update list \<Rightarrow> i32 \<Rightarrow> string option" where
  "hashes_of bs = map_of (map (\<lambda>b. (bu_height b, bu_hash b)) bs)"

lemma consecutive_append:
  "consecutive h (bs @ cs) \<longleftrightarrow> consecutive h bs \<and> consecutive (h + int (length bs)) cs"
  by (induction bs arbitrary: h) (auto simp: add.assoc add.commute)

lemma consecutive_heights:
  "consecutive h bs \<Longrightarrow> b \<in> set bs \<Longrightarrow> h < bu_height b \<and> bu_height b \<le> h + int (length bs)"
  by (induction bs arbitrary: h) fastforce+

lemma consecutive_last: "consecutive h bs \<Longrightarrow> bs \<noteq> [] \<Longrightarrow> bu_height (last bs) = h + int (length bs)"
  by (induction bs arbitrary: h) auto

lemma dom_hashes_of: "consecutive h bs \<Longrightarrow> dom (hashes_of bs) = {h<..h + int (length bs)}"
proof (induction bs arbitrary: h)
  case Nil
  then show ?case by (simp add: hashes_of_def)
next
  case (Cons b bs)
  then have "dom (hashes_of (b # bs)) = insert (h + 1) {h + 1<..h + 1 + int (length bs)}"
    by (auto simp: hashes_of_def)
  also have "\<dots> = {h<..h + int (length (b # bs))}" by auto
  finally show ?case .
qed

lemma hashes_of_None:
  "consecutive h bs \<Longrightarrow> i \<notin> {h<..h + int (length bs)} \<Longrightarrow> hashes_of bs i = None"
  using domIff dom_hashes_of by fastforce

context datasource_contract
begin

lemma handle_block_refines:
  assumes H: "healthy" and I: "inv s" and W: "wf_changes (view s) (changes_of b)"
    and F: "hash_fresh (bu_height b) (bu_hash b) s"
  shows "\<exists>s'. handle_message D (BlockUpdate b) s = (Ok (Some (BlockProcessedAck (bu_height b))), s')
     \<and> inv s' \<and> view s' = ledger_apply (changes_of b) (view s)
     \<and> chain s' = (chain s)(bu_height b \<mapsto> bu_hash b)
     \<and> (\<forall>h x. hash_fresh h x s \<longrightarrow> x \<noteq> bu_hash b \<longrightarrow> hash_fresh h x s')"
proof -
  obtain s1 where s1: "ds_store_block D (bu_height b) (bu_hash b) (bu_timestamp b) s = (Ok (), s1)"
    "inv s1" "view s1 = view s" "chain s1 = (chain s)(bu_height b \<mapsto> bu_hash b)"
    using store_block_refines [OF H I F] by blast
  have W1: "wf_changes (view s1) (changes_of b)" using W by (simp add: s1)
  obtain s2 where s2: "ds_process_block_utxos D (changes_of b) s1 = (Ok (), s2)" "inv s2"
    "view s2 = ledger_apply (changes_of b) (view s1)" "chain s2 = chain s1"
    using process_refines [OF H s1(2) W1] by blast
  have "process_block D b s1 = (Ok (), s2)"
    using wf_changes_checked [OF W] s2(1) by (simp add: process_block_valid)
  then show ?thesis
    using s1 s2 hash_fresh_store [OF _ _ s1(1)] hash_fresh_process [OF _ s2(1)]
    by (simp add: db_store_block_def)
qed

lemma deliver_blocks_facts:
  assumes H: "healthy" and "inv s" and "wf_chain (view s) (map changes_of bs)"
    and "distinct (map bu_hash bs)" and "\<forall>b \<in> set bs. hash_fresh (bu_height b) (bu_hash b) s"
    and "consecutive h bs"
  shows "inv (deliver_blocks D bs s)
     \<and> view (deliver_blocks D bs s) = ledger_run (map changes_of bs) (view s)
     \<and> chain (deliver_blocks D bs s) = chain s ++ hashes_of bs
     \<and> (\<forall>i x. hash_fresh i x s \<longrightarrow> x \<notin> bu_hash ` set bs \<longrightarrow> hash_fresh i x (deliver_blocks D bs s))"
  using assms(2-)
proof (induction bs arbitrary: s h)
  case Nil
  then show ?case by (simp add: deliver_blocks_def ledger_run_def hashes_of_def)
next
  case (Cons b bs)
  have W: "wf_changes (view s) (changes_of b)" using Cons.prems(2) by (simp add: wf_block_def)
  have F: "hash_fresh (bu_height b) (bu_hash b) s" using Cons.prems(4) by simp
  obtain s' where s': "handle_message D (BlockUpdate b) s = (Ok (Some (BlockProcessedAck (bu_height b))), s')"
    "inv s'" "view s' = ledger_apply (changes_of b) (view s)"
    "chain s' = (chain s)(bu_height b \<mapsto> bu_hash b)"
    "\<forall>h x. hash_fresh h x s \<longrightarrow> x \<noteq> bu_hash b \<longrightarrow> hash_fresh h x s'"
    using handle_block_refines [OF H Cons.prems(1) W F] by blast
  have "\<forall>c \<in> set bs. hash_fresh (bu_height c) (bu_hash c) s'"
    using Cons.prems(3,4) s'(5) by (auto simp: image_iff)
  then have IH: "inv (deliver_blocks D bs s')"
    "view (deliver_blocks D bs s') = ledger_run (map changes_of bs) (view s')"
    "chain (deliver_blocks D bs s') = chain s' ++ hashes_of bs"
    "\<forall>i x. hash_fresh i x s' \<longrightarrow> x \<notin> bu_hash ` set bs \<longrightarrow> hash_fresh i x (deliver_blocks D bs s')"
    using Cons.IH [OF s'(2), of "h + 1"] Cons.prems s'(3) by auto
  have "hashes_of bs (bu_height b) = None"
    using hashes_of_None [of "h + 1" bs] Cons.prems(5) by simp
  then have "chain s' ++ hashes_of bs = chain s ++ hashes_of (b # bs)"
    by (intro ext) (auto simp: s'(4) hashes_of_def map_add_def split: option.splits)
  moreover have "deliver_blocks D (b # bs) s = deliver_blocks D bs s'"
    using s'(1) by (simp add: deliver_blocks_def)
  moreover have "ledger_run (map changes_of (b # bs)) (view s) = ledger_run (map changes_of bs) (view s')"
    by (simp add: s'(3) ledger_run_def)
  ultimately show ?case
    using IH s'(5) by simp
qed

lemmas deliver_blocks_fresh = deliver_blocks_facts [THEN conjunct2, THEN conjunct2, THEN conjunct2, rule_format]

lemma deliver_blocks_refines:
  assumes "healthy" and "inv s" and "wf_chain (view s) (map changes_of bs)"
    and "distinct (map bu_hash bs)" and "\<forall>b \<in> set bs. hash_fresh (bu_height b) (bu_hash b) s"
    and "consecutive h bs"
  shows "inv (deliver_blocks D bs s)
     \<and> view (deliver_blocks D bs s) = ledger_run (map changes_of bs) (view s)
     \<and> chain (deliver_blocks D bs s) = chain s ++ hashes_of bs"
  using deliver_blocks_facts [OF assms] by blast

text \<open>Blocks delivered above \<open>h\<close> do not change the answers for \<open>h\<close>.\<close>

lemma deliver_history_stable:
  assumes H: "healthy" and I: "inv s" and W: "wf_chain (view s) (map changes_of bs)"
    and "distinct (map bu_hash bs)" and "\<forall>b \<in> set bs. hash_fresh (bu_height b) (bu_hash b) s"
    and C: "consecutive h' bs" and "h \<le> h'" and h: "0 \<le> h" and a: "a \<noteq> []"
  shows "\<exists>us us'. db_get_spendable_utxos_at_height D h a s = Ok us
     \<and> db_get_spendable_utxos_at_height D h a (deliver_blocks D bs s) = Ok us'
     \<and> utxo_id ` set us' = utxo_id ` set us"
proof -
  let ?t = "deliver_blocks D bs s"
  have t: "inv ?t" "view ?t = ledger_run (map changes_of bs) (view s)"
    using deliver_blocks_refines [OF H I W assms(4,5) C] by auto
  obtain us where us: "ds_get_spendable_utxos_at_height D h a s = Ok us"
    using spendable_refines [OF H I h a] by blast
  obtain us' where us': "ds_get_spendable_utxos_at_height D h a ?t = Ok us'"
    using spendable_refines [OF H t(1) h a] by blast
  have "\<forall>pc \<in> set (map changes_of bs). h < pc_height pc"
    using consecutive_heights [OF C] assms(7) by (fastforce simp: changes_of_def)
  then have "utxo_id ` set us' = utxo_id ` set us"
    using spendable_ids_of_answer [OF H I h a us] spendable_ids_of_answer [OF H t(1) h a us']
      spendable_ids_run [OF W] by (simp add: t(2))
  then show ?thesis
    using us us' h a by (simp add: db_get_spendable_utxos_at_height_def)
qed

text \<open>The last block was stored and processed without error.\<close>

lemma deliver_last:
  assumes H: "healthy" and "inv s" and W: "wf_chain (view s) (map changes_of (bs @ [b]))"
    and "distinct (map bu_hash (bs @ [b]))"
    and "\<forall>c \<in> set (bs @ [b]). hash_fresh (bu_height c) (bu_hash c) s"
    and "consecutive h (bs @ [b])"
  obtains s1 where "ds_store_block D (bu_height b) (bu_hash b) (bu_timestamp b) (deliver_blocks D bs s) = (Ok (), s1)"
    and "ds_process_block_utxos D (changes_of b) s1 = (Ok (), deliver_blocks D (bs @ [b]) s)"
proof -
  let ?t = "deliver_blocks D bs s"
  have C: "consecutive h bs" using assms(6) by (simp add: consecutive_append)
  have W': "wf_chain (view s) (map changes_of bs)"
    "wf_changes (ledger_run (map changes_of bs) (view s)) (changes_of b)"
    using W by (simp_all add: wf_chain_append wf_block_def)
  have t: "inv ?t" "view ?t = ledger_run (map changes_of bs) (view s)"
    using deliver_blocks_refines [OF H assms(2) W'(1) _ _ C] assms(4,5) by auto
  have "hash_fresh (bu_height b) (bu_hash b) ?t"
    by (rule deliver_blocks_fresh [OF H assms(2) W'(1) _ _ C]) (use assms(4,5) in auto)
  from store_block_refines [OF H t(1) this] obtain s1 where
    s1: "ds_store_block D (bu_height b) (bu_hash b) (bu_timestamp b) ?t = (Ok (), s1)" "inv s1"
      "view s1 = view ?t" by blast
  then have W1: "wf_changes (view s1) (changes_of b)" using W'(2) t(2) by simp
  from process_refines [OF H s1(2) this] obtain s2 where
    s2: "ds_process_block_utxos D (changes_of b) s1 = (Ok (), s2)" by blast
  have "process_block D b s1 = (Ok (), s2)"
    using wf_changes_checked [OF W1] s2 by (simp add: process_block_valid)
  then have "deliver_blocks D (bs @ [b]) s = s2"
    using s1(1) by (simp add: deliver_blocks_def db_store_block_def)
  with s1(1) s2 show ?thesis by (intro that) auto
qed

text \<open>
  A reorganisation of up to six blocks: what the service holds after the blocks were
  delivered and rolled back is what it held before.
\<close>

lemma reorg_round_trip:
  assumes H: "healthy" and I: "inv s" and W: "wf_chain (view s) (map changes_of bs)"
    and "distinct (map bu_hash bs)" and "\<forall>b \<in> set bs. hash_fresh (bu_height b) (bu_hash b) s"
    and C: "consecutive h bs" and U: "ledger_upto h (view s)" and dom: "dom (chain s) \<subseteq> {..h}"
    and "0 \<le> h" and "length bs \<le> 6" and small: "h + int (length bs) < 2147483648"
    and L: "ds_get_latest_block D (deliver_blocks D bs s) = Ok (h + int (length bs))"
    and "bs \<noteq> []"
  shows "\<exists>s'. handle_message D (ReorgEvent h) (deliver_blocks D bs s) = (Ok None, s')
     \<and> inv s' \<and> view s' = view s \<and> chain s' = chain s"
proof -
  let ?t = "deliver_blocks D bs s" and ?l = "h + int (length bs)"
  have t: "inv ?t" "view ?t = ledger_run (map changes_of bs) (view s)" "chain ?t = chain s ++ hashes_of bs"
    using deliver_blocks_refines [OF H I W assms(4,5) C] by auto
  have safe: "safe_revert_height ?l h = h"
    using assms(9,10) small by (subst safe_revert_height_eq) (auto simp: max_def)
  have "?l \<noteq> 0" using assms(9,13) by (simp add: length_greater_0_conv [symmetric] del: length_greater_0_conv)
  from revert_to_height_refines [OF H t(1) L this, of h] obtain s' where s':
    "revert_to_height D h ?t = (Ok (), s')" "inv s'" "view s' = ledger_revert h (view ?t)"
    "chain s' = chain ?t |` {..h}" by (auto simp: safe)
  have "\<forall>pc \<in> set (map changes_of bs). h < pc_height pc"
    using consecutive_heights [OF C] by (auto simp: changes_of_def)
  then have "view s' = view s"
    using ledger_revert_run [OF W] ledger_revert_upto [OF U] by (simp add: s'(3) t(2))
  moreover have "chain s' = chain s"
  proof
    fix i
    have "hashes_of bs i = None" if "i \<le> h" using that hashes_of_None [OF C] by simp
    moreover have "chain s i = None" if "\<not> i \<le> h" using that dom by (meson atMost_iff domI not_Some_eq subsetD)
    ultimately show "chain s' i = chain s i"
      by (auto simp: s'(4) t(3) restrict_map_def map_add_def)
  qed
  ultimately show ?thesis using s'(1,2) by simp
qed

end

section \<open>States the service can reach\<close>

text \<open>Any bytes on any number of connections, any codec and any faults.\<close>

inductive sqlite_service :: "sqlite_db \<Rightarrow> bool" where
  start: "sqlite_service sqlite_empty"
| connection: "sqlite_service s \<Longrightarrow> handle_socket_connection C K (sqlite_ds E) input s = (r, s')
    \<Longrightarrow> sqlite_service s'"

lemma sqlite_schema_process_block:
  "sqlite_schema s \<Longrightarrow> process_block (sqlite_ds E) b s = (r, s') \<Longrightarrow> sqlite_schema s'"
  by (auto simp: process_block_def split: if_splits outcome.splits dest: sqlite_schema_process)

lemma sqlite_schema_revert_to_height:
  assumes "sqlite_schema s" and "revert_to_height (sqlite_ds E) h s = (r, s')"
  shows "sqlite_schema s'"
proof -
  have "sqlite_schema s2"
    if "sqlite_mark_blocks_after_height_not_main_chain E i s = (r1, s1)"
      "sqlite_revert_utxos_after_height E i s1 = (r2, s2)" for i r1 s1 r2 s2
    using sqlite_schema_revert [OF sqlite_schema_off_main [OF assms(1) that(1)] that(2)] .
  then show ?thesis
    using assms sqlite_schema_off_main [OF assms(1)]
    by (auto simp: revert_to_height_def Let_def split: outcome.splits prod.splits if_splits)
qed

lemma sqlite_schema_finality:
  "sqlite_schema s \<Longrightarrow> update_finality_status (sqlite_ds E) h s = (r, s') \<Longrightarrow> sqlite_schema s'"
  by (auto simp: update_finality_status_def split: if_splits dest: sqlite_schema_final)

lemma sqlite_schema_db_store_block:
  "sqlite_schema s \<Longrightarrow> db_store_block (sqlite_ds E) h x ts s = (r, s') \<Longrightarrow> sqlite_schema s'"
  by (simp add: db_store_block_def sqlite_schema_store_block)

lemma handle_block_states:
  assumes "handle_message D (BlockUpdate b) s = (r, s')"
  obtains r1 s1 where "db_store_block D (bu_height b) (bu_hash b) (bu_timestamp b) s = (r1, s1)"
    and "s' = s1 \<or> (\<exists>r2. process_block D b s1 = (r2, s'))"
  using assms by (auto split: outcome.splits prod.splits)

lemma sqlite_schema_message:
  assumes I: "sqlite_schema s" and H: "handle_message (sqlite_ds E) m s = (r, s')"
  shows "sqlite_schema s'"
proof (cases m)
  case (BlockUpdate b)
  with H have "handle_message (sqlite_ds E) (BlockUpdate b) s = (r, s')" by simp
  then show ?thesis
    by (rule handle_block_states) (metis I sqlite_schema_db_store_block sqlite_schema_process_block)
next
  case (ReorgEvent h)
  with H have "\<exists>r. revert_to_height (sqlite_ds E) h s = (r, s')"
    by (auto split: outcome.splits prod.splits)
  then show ?thesis using I sqlite_schema_revert_to_height by blast
next
  case (UpdateFinalityStatus h)
  with H have "\<exists>r. update_finality_status (sqlite_ds E) h s = (r, s')"
    by (auto split: outcome.splits prod.splits)
  then show ?thesis using I sqlite_schema_finality by blast
qed (use I H in auto)

lemma sqlite_service_schema: "sqlite_service s \<Longrightarrow> sqlite_schema s"
  by (induction rule: sqlite_service.induct)
    (auto intro: sqlite_schema_empty sqlite_schema_message dest!: handle_connection_state)

end
