(* ===== verification/Storage_Service.thy ===== *)
theory Storage_Service
  imports Storage_Socket
begin

text \<open>
  What the storage service promises, stated for its two data sources: blocks refine the
  ledger, reorganisations round-trip, answers about a height are stable, coin selection is
  sound and minimal, the schema holds in every reachable state, and updates are atomic.
  Each statement comes with an instance on a small chain.
\<close>

section \<open>A small chain\<close>

definition plain_csv_env :: csv_env where
  "plain_csv_env = \<lparr>address_order = (\<lambda>_. 0), id_order = (\<lambda>_ _. 0), block_order = (\<lambda>_ _. 0)\<rparr>"

definition output_rec :: "string \<Rightarrow> string \<Rightarrow> i64 \<Rightarrow> i32 \<Rightarrow> utxo" where
  "output_rec t a v h =
     \<lparr>utxo_id = outpoint_key t 0, address = a, public_key = None, txid = t, vout = 0, amount = v,
      script_pub_key = ''0014'', script_type = ''P2WPKH'', created_at = h, block_height = h,
      spent_txid = None, spent_at = None, spent_block = None\<rparr>"

definition spend_rec :: "string \<Rightarrow> string \<Rightarrow> i64 \<Rightarrow> i32 \<Rightarrow> string \<Rightarrow> utxo" where
  "spend_rec t a v h by =
     (output_rec t a v h)\<lparr>spent_txid := Some by, spent_at := Some h, spent_block := Some h\<rparr>"

definition block1 :: block_update where
  "block1 = \<lparr>bu_height = 1, bu_hash = ''h1'', bu_timestamp = 1,
     utxo_updates = [output_rec ''t1'' ''alice'' 50 1]\<rparr>"

definition block2 :: block_update where
  "block2 = \<lparr>bu_height = 2, bu_hash = ''h2'', bu_timestamp = 2,
     utxo_updates = [output_rec ''t2'' ''alice'' 30 2, spend_rec ''t1'' ''alice'' 50 2 ''t2'']\<rparr>"

lemma sqlite_empty_inv [simp]: "sqlite_inv E sqlite_empty"
  using sqlite_schema_empty by (simp add: sqlite_inv_def sqlite_empty_def)

lemma sqlite_empty_view [simp]: "sqlite_view E sqlite_empty = Map.empty"
  by (rule ext) (simp add: sqlite_view_def sqlite_empty_def)

lemma sqlite_empty_chain [simp]: "sqlite_chain sqlite_empty = Map.empty"
  by (rule ext) (simp add: sqlite_chain_def sqlite_empty_def)

lemma sqlite_empty_fresh [simp]: "sqlite_hash_fresh h x sqlite_empty"
  by (simp add: sqlite_hash_fresh_def sqlite_empty_def)

lemma csv_empty_inv [simp]: "csv_inv csv_empty"
  by (simp add: csv_inv_def csv_empty_def umap_ok_def umap_distinct_def lookup2_def bucket_def)

lemma csv_empty_view [simp]: "csv_view csv_empty = Map.empty"
  by (simp add: csv_view_def csv_empty_def umap_view_def)

lemma csv_empty_chain [simp]: "csv_chain csv_empty = Map.empty"
  by (rule ext) (simp add: csv_chain_def csv_empty_def)

lemma rec_sel [simp]:
  "utxo_id (output_rec t a v h) = outpoint_key t 0" "address (output_rec t a v h) = a"
  "txid (output_rec t a v h) = t" "vout (output_rec t a v h) = 0" "amount (output_rec t a v h) = v"
  "block_height (output_rec t a v h) = h" "spent_txid (output_rec t a v h) = None"
  "spent_at (output_rec t a v h) = None" "spent_block (output_rec t a v h) = None"
  "utxo_id (spend_rec t a v h x) = outpoint_key t 0" "address (spend_rec t a v h x) = a"
  "txid (spend_rec t a v h x) = t" "vout (spend_rec t a v h x) = 0" "amount (spend_rec t a v h x) = v"
  "block_height (spend_rec t a v h x) = h" "spent_txid (spend_rec t a v h x) = Some x"
  "spent_block (spend_rec t a v h x) = Some h"
  by (simp_all add: output_rec_def spend_rec_def)

lemma valid_rec [simp]:
  "valid_utxo (output_rec t a v h) \<longleftrightarrow> 0 \<le> v \<and> a \<noteq> []"
  "valid_utxo (spend_rec t a v h x) \<longleftrightarrow> 0 \<le> v \<and> a \<noteq> []"
  by (simp_all add: valid_utxo_def)

lemma unspend_output [simp]: "unspend (output_rec t a v h) = output_rec t a v h"
  by (simp add: unspend_def output_rec_def)

lemma blocks_sel [simp]:
  "bu_height block1 = 1" "bu_hash block1 = ''h1''" "bu_height block2 = 2" "bu_hash block2 = ''h2''"
  by (simp_all add: block1_def block2_def)

lemma changes_of_blocks:
  "changes_of block1 = \<lparr>pc_height = 1, utxos_update = [], utxos_insert = [output_rec ''t1'' ''alice'' 50 1]\<rparr>"
  "changes_of block2 = \<lparr>pc_height = 2, utxos_update = [spend_rec ''t1'' ''alice'' 50 2 ''t2''],
     utxos_insert = [output_rec ''t2'' ''alice'' 30 2]\<rparr>"
  by (simp_all add: changes_of_def block1_def block2_def)

lemma small_chain_wf [simp]: "wf_chain Map.empty (map changes_of [block1, block2])"
  by (simp add: changes_of_blocks wf_block_def wf_changes_def ledger_apply_def ledger_create_def
      ledger_spend_def outpoint_key_inj)

lemma small_chain_wf1 [simp]: "wf_changes Map.empty (changes_of block1)"
  by (simp add: changes_of_blocks wf_changes_def)

lemma empty_upto [simp]: "ledger_upto h Map.empty"
  by (simp add: ledger_upto_def)

section \<open>Blocks refine the ledger\<close>

text \<open>
  C5. Over SQLite, \<^verbatim>\<open>process_block\<close> of a well-formed block update succeeds, keeps the
  invariant of the tables, and its effect on the stored outputs is exactly the ledger's:
  the block's outputs are created and the outputs it spends are marked as spent; the main
  chain is untouched.
\<close>

theorem sqlite_block_refines:
  assumes "sqlite_healthy E" and "sqlite_inv E s"
    and "wf_changes (sqlite_view E s) (changes_of b)"
  shows "\<exists>s'. process_block (sqlite_ds E) b s = (Ok (), s') \<and> sqlite_inv E s'
     \<and> sqlite_view E s' = ledger_apply (changes_of b) (sqlite_view E s)
     \<and> sqlite_chain s' = sqlite_chain s"
  using sq.process_block_refines [OF assms] .

theorem sqlite_block_refines_witness:
  "\<exists>s'. process_block (sqlite_ds plain_env) block1 sqlite_empty = (Ok (), s') \<and> sqlite_inv plain_env s'
     \<and> sqlite_view plain_env s' = ledger_apply (changes_of block1) Map.empty \<and> sqlite_chain s' = Map.empty"
  using sqlite_block_refines [of plain_env sqlite_empty block1] by simp

text \<open>
  C6. The same over the CSV data source: its nested maps, rows per address and per block,
  refine the same ledger.
\<close>

theorem csv_block_refines:
  assumes "csv_inv s" and "wf_changes (csv_view s) (changes_of b)"
  shows "\<exists>s'. process_block (csv_ds E) b s = (Ok (), s') \<and> csv_inv s'
     \<and> csv_view s' = ledger_apply (changes_of b) (csv_view s) \<and> csv_chain s' = csv_chain s"
  using cv.process_block_refines [OF TrueI assms] .

theorem csv_block_refines_witness:
  "\<exists>s'. process_block (csv_ds plain_csv_env) block1 csv_empty = (Ok (), s') \<and> csv_inv s'
     \<and> csv_view s' = ledger_apply (changes_of block1) Map.empty \<and> csv_chain s' = Map.empty"
  using csv_block_refines [of csv_empty block1 plain_csv_env] by simp

section \<open>Reorganisations\<close>

text \<open>Delivered blocks are the latest: the highest stored one, and the last processed one.\<close>

lemma sqlite_delivered_latest:
  assumes "sqlite_healthy E" and "sqlite_inv E s" and "wf_chain (sqlite_view E s) (map changes_of bs)"
    and "distinct (map bu_hash bs)" and "\<forall>b \<in> set bs. sqlite_hash_fresh (bu_height b) (bu_hash b) s"
    and C: "consecutive h bs" and "dom (sqlite_chain s) \<subseteq> {..h}" and "bs \<noteq> []"
  shows "sqlite_get_latest_block E (deliver_blocks (sqlite_ds E) bs s) = Ok (h + int (length bs))"
proof -
  have D: "dom (sqlite_chain (deliver_blocks (sqlite_ds E) bs s))
      = dom (sqlite_chain s) \<union> {h<..h + int (length bs)}"
    using sq.deliver_blocks_refines [OF assms(1-6)] dom_hashes_of [OF C] by (simp add: Un_commute)
  have "0 < int (length bs)" using assms(8) by simp
  then show ?thesis
    using assms(7) by (intro sqlite_latest_block [OF assms(1)]) (auto simp: D)
qed

lemma csv_process_latest: "csv_process_block_utxos pc s = (Ok (), s') \<Longrightarrow> cs_latest_block s' = pc_height pc"
  by (auto simp: csv_process_block_utxos_def Let_def split: if_splits outcome.splits prod.splits)

lemma csv_delivered_latest:
  assumes "csv_inv s" and "wf_chain (csv_view s) (map changes_of bs)"
    and "distinct (map bu_hash bs)" and C: "consecutive h bs" and "bs \<noteq> []"
  shows "csv_get_latest_block (deliver_blocks (csv_ds E) bs s) = Ok (h + int (length bs))"
proof -
  obtain cs c where bs: "bs = cs @ [c]" using assms(5) by (metis rev_exhaust)
  have "bu_height c = h + int (length bs)" using C by (simp add: bs consecutive_append)
  moreover obtain s1 where
    "ds_process_block_utxos (csv_ds E) (changes_of c) s1 = (Ok (), deliver_blocks (csv_ds E) bs s)"
    using cv.deliver_last [OF TrueI assms(1), of cs c h E] assms(2-4) unfolding bs by blast
  ultimately show ?thesis
    by (simp add: csv_get_latest_block_def csv_process_latest changes_of_def)
qed

text \<open>
  C7. Over SQLite, a reorganisation of up to six blocks is exact: blocks delivered to the
  socket server on top of height \<open>h\<close> and then rolled back by \<^verbatim>\<open>ReorgEvent\<close> with fork height
  \<open>h\<close> leave every output record and every main-chain hash as they were.
\<close>

theorem sqlite_reorg_round_trip:
  assumes "sqlite_healthy E" and "sqlite_inv E s" and "wf_chain (sqlite_view E s) (map changes_of bs)"
    and "distinct (map bu_hash bs)" and "\<forall>b \<in> set bs. sqlite_hash_fresh (bu_height b) (bu_hash b) s"
    and "consecutive h bs" and "ledger_upto h (sqlite_view E s)" and "dom (sqlite_chain s) \<subseteq> {..h}"
    and "0 \<le> h" and "length bs \<le> 6" and "h + int (length bs) < 2147483648" and "bs \<noteq> []"
  shows "\<exists>s'. handle_message (sqlite_ds E) (ReorgEvent h) (deliver_blocks (sqlite_ds E) bs s) = (Ok None, s')
     \<and> sqlite_inv E s' \<and> sqlite_view E s' = sqlite_view E s \<and> sqlite_chain s' = sqlite_chain s"
  using sq.reorg_round_trip [OF assms(1-11) _ assms(12)]
    sqlite_delivered_latest [OF assms(1-6,8,12)] by simp

theorem sqlite_reorg_round_trip_witness:
  "\<exists>s'. handle_message (sqlite_ds plain_env) (ReorgEvent 0)
          (deliver_blocks (sqlite_ds plain_env) [block1, block2] sqlite_empty) = (Ok None, s')
     \<and> sqlite_inv plain_env s' \<and> sqlite_view plain_env s' = Map.empty \<and> sqlite_chain s' = Map.empty"
  using sqlite_reorg_round_trip [of plain_env sqlite_empty "[block1, block2]" 0] small_chain_wf by simp

text \<open>C8. The same over the CSV data source.\<close>

theorem csv_reorg_round_trip:
  assumes "csv_inv s" and "wf_chain (csv_view s) (map changes_of bs)"
    and "distinct (map bu_hash bs)" and "consecutive h bs" and "ledger_upto h (csv_view s)"
    and "dom (csv_chain s) \<subseteq> {..h}" and "0 \<le> h" and "length bs \<le> 6"
    and "h + int (length bs) < 2147483648" and "bs \<noteq> []"
  shows "\<exists>s'. handle_message (csv_ds E) (ReorgEvent h) (deliver_blocks (csv_ds E) bs s) = (Ok None, s')
     \<and> csv_inv s' \<and> csv_view s' = csv_view s \<and> csv_chain s' = csv_chain s"
  using cv.reorg_round_trip [OF TrueI assms(1-3) _ assms(4-9) _ assms(10)]
    csv_delivered_latest [OF assms(1-4,10)] by simp

theorem csv_reorg_round_trip_witness:
  "\<exists>s'. handle_message (csv_ds plain_csv_env) (ReorgEvent 0)
          (deliver_blocks (csv_ds plain_csv_env) [block1, block2] csv_empty) = (Ok None, s')
     \<and> csv_inv s' \<and> csv_view s' = Map.empty \<and> csv_chain s' = Map.empty"
  using csv_reorg_round_trip [of csv_empty "[block1, block2]" 0 plain_csv_env] small_chain_wf by simp

section \<open>Queries\<close>

text \<open>
  C17. Over SQLite, what an address could spend at height \<open>h\<close> never changes when blocks above
  \<open>h\<close> are delivered: the historical query returns the same outpoints before and after.
\<close>

theorem sqlite_history_stable:
  assumes "sqlite_healthy E" and "sqlite_inv E s" and "wf_chain (sqlite_view E s) (map changes_of bs)"
    and "distinct (map bu_hash bs)" and "\<forall>b \<in> set bs. sqlite_hash_fresh (bu_height b) (bu_hash b) s"
    and "consecutive h' bs" and "h \<le> h'" and "0 \<le> h" and "a \<noteq> []"
  shows "\<exists>us us'. db_get_spendable_utxos_at_height (sqlite_ds E) h a s = Ok us
     \<and> db_get_spendable_utxos_at_height (sqlite_ds E) h a (deliver_blocks (sqlite_ds E) bs s) = Ok us'
     \<and> utxo_id ` set us' = utxo_id ` set us"
  by (rule sq.deliver_history_stable [OF assms])

theorem sqlite_history_stable_witness:
  "\<exists>us us'. db_get_spendable_utxos_at_height (sqlite_ds plain_env) 0 ''alice'' sqlite_empty = Ok us
     \<and> db_get_spendable_utxos_at_height (sqlite_ds plain_env) 0 ''alice''
          (deliver_blocks (sqlite_ds plain_env) [block1, block2] sqlite_empty) = Ok us'
     \<and> utxo_id ` set us' = utxo_id ` set us"
  by (rule sqlite_history_stable [where h' = 0]) (use small_chain_wf in simp_all)

text \<open>
  C18. Coin selection over SQLite, whatever order the engine lists the rows in: for a positive
  target and funds within the range of \<^verbatim>\<open>i64\<close>, an address with nothing to spend gives the
  empty selection, too little gives \<^verbatim>\<open>InsufficientFunds\<close> with the exact total available, and
  otherwise the selection consists of distinct outputs spendable at the height, reaches the
  target, does not reach it without its last output, and leaves out only outputs at least as
  young as every selected one.
\<close>

theorem sqlite_selection:
  assumes "sqlite_healthy E" and "sqlite_inv E s" and "0 \<le> h" and "a \<noteq> []" and "0 < t"
    and "sum amount (spendable_set (sqlite_view E s) h a) < 9223372036854775808"
  shows "let S = spendable_set (sqlite_view E s) h a
     in case select_utxos_for_amount (sqlite_ds E) h a t s of
          Ok sel \<Rightarrow> if S = {} then sel = []
            else set sel \<subseteq> S \<and> distinct sel \<and> t \<le> sum_by amount sel
               \<and> sel \<noteq> [] \<and> sum_by amount (butlast sel) < t
               \<and> (\<forall>u \<in> set sel. \<forall>v \<in> S - set sel. block_height u \<le> block_height v)
        | Err e \<Rightarrow> S \<noteq> {} \<and> sum amount S < t \<and> e = InsufficientFunds (sum amount S) t
        | Panic \<Rightarrow> False"
  by (rule sq.select_outcome [OF assms])

text \<open>Two outputs, of which the older one is enough.\<close>

definition more_block :: block_update where
  "more_block = \<lparr>bu_height = 2, bu_hash = ''h2'', bu_timestamp = 2, utxo_updates = [output_rec ''t2'' ''alice'' 30 2]\<rparr>"

lemma spendable_set_ran: "spendable_set L h a = {u \<in> ran L. unspent_at h u \<and> address u = a}"
  by (auto simp: spendable_set_def ran_def)

lemma two_outputs:
  defines "s \<equiv> deliver_blocks (sqlite_ds plain_env) [block1, more_block] sqlite_empty"
  shows "sqlite_inv plain_env s"
    "spendable_set (sqlite_view plain_env s) 2 ''alice'' = {output_rec ''t1'' ''alice'' 50 1, output_rec ''t2'' ''alice'' 30 2}"
proof -
  have c: "changes_of more_block = \<lparr>pc_height = 2, utxos_update = [], utxos_insert = [output_rec ''t2'' ''alice'' 30 2]\<rparr>"
    "bu_height more_block = 2" "bu_hash more_block = ''h2''"
    by (simp_all add: changes_of_def more_block_def)
  have W: "wf_chain Map.empty (map changes_of [block1, more_block])"
    by (simp add: changes_of_blocks c wf_block_def wf_changes_def ledger_apply_def ledger_create_def ledger_spend_def outpoint_key_inj)
  have R: "sqlite_inv plain_env s" "sqlite_view plain_env s = ledger_run (map changes_of [block1, more_block]) Map.empty"
    using sq.deliver_blocks_refines [of plain_env sqlite_empty "[block1, more_block]" 0] W c by (simp_all add: s_def)
  show "sqlite_inv plain_env s" by (rule R(1))
  have "ledger_run (map changes_of [block1, more_block]) Map.empty
      = [outpoint_key ''t1'' 0 \<mapsto> output_rec ''t1'' ''alice'' 50 1, outpoint_key ''t2'' 0 \<mapsto> output_rec ''t2'' ''alice'' 30 2]"
    by (rule ext) (simp add: ledger_run_def changes_of_blocks c ledger_apply_def ledger_create_def ledger_spend_def)
  then show "spendable_set (sqlite_view plain_env s) 2 ''alice'' = {output_rec ''t1'' ''alice'' 50 1, output_rec ''t2'' ''alice'' 30 2}"
    unfolding R(2) spendable_set_ran by (auto simp: unspent_at_def outpoint_key_inj)
qed

theorem sqlite_selection_witness:
  "let s = deliver_blocks (sqlite_ds plain_env) [block1, more_block] sqlite_empty;
       S = {output_rec ''t1'' ''alice'' 50 1, output_rec ''t2'' ''alice'' 30 2}
   in spendable_set (sqlite_view plain_env s) 2 ''alice'' = S
    \<and> select_utxos_for_amount (sqlite_ds plain_env) 2 ''alice'' 40 s = Ok [output_rec ''t1'' ''alice'' 50 1]
    \<and> (case select_utxos_for_amount (sqlite_ds plain_env) 2 ''alice'' 40 s of
          Ok sel \<Rightarrow> set sel \<subseteq> S \<and> distinct sel \<and> 40 \<le> sum_by amount sel
               \<and> sel \<noteq> [] \<and> sum_by amount (butlast sel) < 40
        | Err e \<Rightarrow> False | Panic \<Rightarrow> False)"
proof -
  let ?s = "deliver_blocks (sqlite_ds plain_env) [block1, more_block] sqlite_empty"
  have sel: "select_utxos_for_amount (sqlite_ds plain_env) 2 ''alice'' 40 ?s = Ok [output_rec ''t1'' ''alice'' 50 1]"
    by code_simp
  have "sum amount (spendable_set (sqlite_view plain_env ?s) 2 ''alice'') < 9223372036854775808"
    unfolding two_outputs(2) by (simp add: output_rec_def)
  from sqlite_selection [OF plain_env_healthy two_outputs(1) _ _ _ this, of 40] show ?thesis
    unfolding Let_def two_outputs(2) sel by simp
qed

end
