(* ===== verification/Storage_Safety.thy ===== *)
theory Storage_Safety
  imports Storage_Service
begin

text \<open>
  What holds of the storage service under faults and arbitrary traffic: the schema in every
  reachable state, atomic updates, the depth to which a reorganisation can reach, the
  rejection of invalid records, the protocol between the client's transport and the
  server, and instances where the two data sources or the documentation disagree.
\<close>

section \<open>A codec and a connection for instances\<close>

definition small_codec :: codec where
  "small_codec =
     \<lparr>serialize = (\<lambda>m. if m = BlockUpdate block1 then Ok ''A'' else if m = BlockProcessedAck 1 then Ok ''B''
        else if m = GetBlockHash 1 then Ok ''C'' else if m = BlockHashResponse ''h1'' then Ok ''D''
        else Err ''unsupported''),
      deserialize = (\<lambda>d. if d = ''A'' then Ok (BlockUpdate block1) else if d = ''B'' then Ok (BlockProcessedAck 1)
        else if d = ''C'' then Ok (GetBlockHash 1) else if d = ''D'' then Ok (BlockHashResponse ''h1'')
        else Err ''unknown'')\<rparr>"

definition small_conn :: conn_env where
  "small_conn = \<lparr>eof_error = ''early eof'', reply_fault = None\<rparr>"

lemma small_codec_ok [simp]: "codec_ok small_codec"
  by (simp add: codec_ok_def small_codec_def)

lemma small_codec_fits [simp]:
  "fits small_codec (BlockUpdate block1)" "fits small_codec (BlockProcessedAck 1)"
  "fits small_codec (GetBlockHash 1)" "fits small_codec (BlockHashResponse ''h1'')"
  by (simp_all add: fits_def small_codec_def)

lemma small_conn_reply [simp]: "reply_fault small_conn = None"
  by (simp add: small_conn_def)

section \<open>Atomicity and validation\<close>

text \<open>
  C21. An update over SQLite is atomic: when \<^verbatim>\<open>process_block\<close> does not return \<open>Ok\<close>, for any
  block and any fault, both tables are as before.
\<close>

theorem sqlite_process_block_atomic:
  assumes "process_block (sqlite_ds E) b s = (r, s')" and "r \<noteq> Ok ()"
  shows "s' = s"
  using assms sqlite_process_atomic [of E _ s r s']
  by (auto simp: process_block_def split: if_splits outcome.splits)

theorem sqlite_process_block_atomic_witness:
  "snd (process_block (sqlite_ds (plain_env\<lparr>commit_fault := Some ''disk full''\<rparr>)) block1 sqlite_empty)
     = sqlite_empty"
proof -
  have "fst (process_block (sqlite_ds (plain_env\<lparr>commit_fault := Some ''disk full''\<rparr>)) block1 sqlite_empty)
      \<noteq> Ok ()"
    by (simp add: process_block_valid block1_def changes_of_def sqlite_process_block_utxos_def
        bulk_upsert_utxos_impl_def plain_env_def commit_def and_then_eq_Ok settle_not_Ok)
  then show ?thesis
    using sqlite_process_block_atomic [OF prod.collapse [symmetric]] by blast
qed

text \<open>
  C23. \<^verbatim>\<open>process_block\<close> validates before it writes: with any data source, a block whose first
  invalid record is \<open>u\<close> is refused with that record's error (a negative amount, or else an
  empty address), and the state is unchanged.
\<close>

theorem process_block_first_invalid:
  assumes "0 \<le> bu_height b" and "utxo_updates b = us @ u # vs"
    and "\<forall>v \<in> set us. 0 \<le> amount v \<and> address v \<noteq> []" and "amount u < 0 \<or> address u = []"
  shows "process_block D b s =
     (Err (if amount u < 0 then InvalidAmount (amount u) else InvalidAddress ''Empty address''), s)"
proof -
  have "\<forall>v \<in> set us. check_utxo v = Ok ()" using assms(3) by simp
  then show ?thesis
    by (rule process_block_invalid [OF assms(1,2)]) (use assms(4) in \<open>auto simp: check_utxo_def\<close>)
qed

theorem process_block_first_invalid_witness:
  "process_block (sqlite_ds plain_env)
     \<lparr>bu_height = 3, bu_hash = ''h3'', bu_timestamp = 3,
      utxo_updates = [output_rec ''t3'' ''alice'' 5 3, output_rec ''t4'' ''alice'' (- 1) 3]\<rparr> sqlite_empty
   = (Err (InvalidAmount (- 1)), sqlite_empty)"
  using process_block_first_invalid [of
      "\<lparr>bu_height = 3, bu_hash = ''h3'', bu_timestamp = 3,
      utxo_updates = [output_rec ''t3'' ''alice'' 5 3, output_rec ''t4'' ''alice'' (- 1) 3]\<rparr>"
      "[output_rec ''t3'' ''alice'' 5 3]" "output_rec ''t4'' ''alice'' (- 1) 3" "[]"] by simp

section \<open>How deep a reorganisation reaches\<close>

lemma sqlite_off_main_result:
  assumes "sqlite_mark_blocks_after_height_not_main_chain E h s = (r, s')"
  shows "s' = s \<or> s' = s\<lparr>sq_blocks := map (\<lambda>b. if h < sb_height b then b\<lparr>is_main_chain := False\<rparr> else b) (sq_blocks s)\<rparr>"
  using assms by (auto simp: sqlite_mark_blocks_after_height_not_main_chain_def settle_cases)

lemma sqlite_revert_result:
  assumes "sqlite_revert_utxos_after_height E h s = (x, s')"
  shows "s' = s \<or> s' = s\<lparr>sq_utxo := filter (\<lambda>r. \<not> h < block_height r) (map (unspend_after h) (sq_utxo s))\<rparr>"
  using assms by (auto simp: sqlite_revert_utxos_after_height_def settle_cases and_then_eq_Ok)

lemma filter_map_deep:
  assumes "\<And>x. P (f x) \<longleftrightarrow> P x" and "\<And>x. P x \<Longrightarrow> Q x"
  shows "filter P (filter Q (map f xs)) = map f (filter P xs)"
  using assms by (induction xs) auto

lemma deep_blocks_kept:
  assumes "l \<le> h"
  shows "filter (\<lambda>b. sb_height b \<le> l) (map (\<lambda>b. if h < sb_height b then b\<lparr>is_main_chain := False\<rparr> else b) bs)
    = filter (\<lambda>b. sb_height b \<le> l) bs"
  using assms by (induction bs) auto

text \<open>Eight blocks; the output created by the second is spent by the last.\<close>

definition bare_block :: "i32 \<Rightarrow> string \<Rightarrow> block_update" where
  "bare_block h x = \<lparr>bu_height = h, bu_hash = x, bu_timestamp = h, utxo_updates = []\<rparr>"

definition block8 :: block_update where
  "block8 = \<lparr>bu_height = 8, bu_hash = ''h8'', bu_timestamp = 8, utxo_updates = [spend_rec ''t2'' ''alice'' 30 8 ''t8'']\<rparr>"

definition eight_blocks :: "block_update list" where
  "eight_blocks = [block1, block2, bare_block 3 ''h3'', bare_block 4 ''h4'', bare_block 5 ''h5'',
     bare_block 6 ''h6'', bare_block 7 ''h7'', block8]"

lemma eight_chain:
  "wf_chain Map.empty (map changes_of eight_blocks)" "distinct (map bu_hash eight_blocks)"
  "consecutive 0 eight_blocks" "length eight_blocks = 8"
proof -
  have e: "changes_of (bare_block h x) = \<lparr>pc_height = h, utxos_update = [], utxos_insert = []\<rparr>"
    "changes_of block8 = \<lparr>pc_height = 8, utxos_update = [spend_rec ''t2'' ''alice'' 30 8 ''t8''], utxos_insert = []\<rparr>" for h x
    by (simp_all add: changes_of_def bare_block_def block8_def)
  show "wf_chain Map.empty (map changes_of eight_blocks)"
    by (simp add: eight_blocks_def changes_of_blocks e wf_block_def wf_changes_def ledger_apply_def ledger_create_def
        ledger_spend_def outpoint_key_inj)
qed (simp_all add: eight_blocks_def bare_block_def block8_def)

lemma eight_delivered:
  defines "s \<equiv> deliver_blocks (sqlite_ds plain_env) eight_blocks sqlite_empty"
  shows "sqlite_inv plain_env s" "sqlite_view plain_env s = ledger_run (map changes_of eight_blocks) Map.empty"
    "sqlite_chain s = hashes_of eight_blocks" "dom (sqlite_chain s) = {0<..8}"
    "sqlite_get_latest_block plain_env s = Ok 8"
proof -
  show "sqlite_inv plain_env s" "sqlite_view plain_env s = ledger_run (map changes_of eight_blocks) Map.empty"
    and c: "sqlite_chain s = hashes_of eight_blocks"
    using sq.deliver_blocks_refines [OF plain_env_healthy sqlite_empty_inv _ eight_chain(2) _ eight_chain(3)] eight_chain(1)
    by (simp_all add: s_def)
  show "dom (sqlite_chain s) = {0<..8}" unfolding c using dom_hashes_of [OF eight_chain(3)] by (simp add: eight_chain(4))
  have "eight_blocks \<noteq> []" by (simp add: eight_blocks_def)
  then show "sqlite_get_latest_block plain_env s = Ok 8"
    using sqlite_delivered_latest [OF plain_env_healthy sqlite_empty_inv _ eight_chain(2) _ eight_chain(3)] eight_chain(1,4)
    by (simp add: s_def)
qed

text \<open>
  C24. A reorganisation event reaches at most the six latest heights.  Whatever fork height it
  names and whatever faults occur, no output row created at or below \<open>latest - 6\<close> is added,
  removed or reordered; either all of them are unchanged, or exactly their spends above the height
  \<open>max (max h 0) (latest - 6)\<close> are undone; and the block rows there are unchanged.
\<close>

theorem reorg_depth_bounded:
  assumes "sqlite_get_latest_block E s = Ok l" and "0 \<le> l" and "l < 2147483648"
    and "handle_message (sqlite_ds E) (ReorgEvent h) s = (x, s')"
  shows "let deep = filter (\<lambda>r. block_height r \<le> l - 6)
     in (deep (sq_utxo s') = deep (sq_utxo s)
          \<or> deep (sq_utxo s') = map (unspend_after (max (max h 0) (l - 6))) (deep (sq_utxo s)))
      \<and> filter (\<lambda>b. sb_height b \<le> l - 6) (sq_blocks s') = filter (\<lambda>b. sb_height b \<le> l - 6) (sq_blocks s)"
proof -
  let ?h = "max (max h 0) (l - 6)"
  have safe: "safe_revert_height l h = ?h" using assms(2,3) by (simp add: safe_revert_height_eq max_def)
  obtain s1 x1 x2 where s1: "sqlite_mark_blocks_after_height_not_main_chain E ?h s = (x1, s1)"
    and s': "s' = s \<or> s' = s1 \<or> sqlite_revert_utxos_after_height E ?h s1 = (x2, s')"
  proof (cases "sqlite_mark_blocks_after_height_not_main_chain E ?h s")
    case (Pair x1 s1)
    then show ?thesis
      using that assms(1,4) safe
      by (cases "sqlite_revert_utxos_after_height E ?h s1")
        (auto simp: revert_to_height_def db_get_latest_block_def Let_def split: outcome.splits prod.splits if_splits)
  qed
  have rows: "filter (\<lambda>r. block_height r \<le> l - 6) (filter (\<lambda>r. \<not> ?h < block_height r) (map (unspend_after ?h) rs))
      = map (unspend_after ?h) (filter (\<lambda>r. block_height r \<le> l - 6) rs)" for rs :: "string utxo_rec list"
    by (rule filter_map_deep) auto
  have blocks: "filter (\<lambda>b. sb_height b \<le> l - 6) (sq_blocks s1) = filter (\<lambda>b. sb_height b \<le> l - 6) (sq_blocks s)"
    and utxos: "sq_utxo s1 = sq_utxo s"
    using sqlite_off_main_result [OF s1] deep_blocks_kept [of "l - 6" ?h "sq_blocks s"] by auto
  from s' consider "s' = s" | "s' = s1"
    | "sq_utxo s' = filter (\<lambda>r. \<not> ?h < block_height r) (map (unspend_after ?h) (sq_utxo s))" "sq_blocks s' = sq_blocks s1"
    using sqlite_revert_result [of E ?h s1 x2 s'] utxos by auto
  then show ?thesis
    by cases (simp_all only: Let_def blocks utxos rows simp_thms)
qed

text \<open>
  In the instance both deep outputs are spent: the one spent at height 2 stays so, and the spend
  at height 8 is undone, although the event names a fork height below every block.
\<close>

theorem reorg_depth_bounded_witness:
  "let s = deliver_blocks (sqlite_ds plain_env) eight_blocks sqlite_empty;
       s' = snd (handle_message (sqlite_ds plain_env) (ReorgEvent (- 9)) s);
       deep = filter (\<lambda>r. block_height r \<le> 8 - 6)
   in (deep (sq_utxo s') = deep (sq_utxo s) \<or> deep (sq_utxo s') = map (unspend_after 2) (deep (sq_utxo s)))
    \<and> filter (\<lambda>b. sb_height b \<le> 8 - 6) (sq_blocks s') = filter (\<lambda>b. sb_height b \<le> 8 - 6) (sq_blocks s)
    \<and> map (\<lambda>r. (txid r, spent_block r)) (deep (sq_utxo s)) = [(''t1'', Some 2), (''t2'', Some 8)]
    \<and> map (\<lambda>r. (txid r, spent_block r)) (deep (sq_utxo s')) = [(''t1'', Some 2), (''t2'', None)]"
proof -
  let ?s = "deliver_blocks (sqlite_ds plain_env) eight_blocks sqlite_empty"
  let ?s' = "snd (handle_message (sqlite_ds plain_env) (ReorgEvent (- 9)) ?s)"
  have "map (\<lambda>r. (txid r, spent_block r)) (filter (\<lambda>r. block_height r \<le> 8 - 6) (sq_utxo ?s))
      = [(''t1'', Some 2), (''t2'', Some 8)]" by code_simp
  moreover have "map (\<lambda>r. (txid r, spent_block r)) (filter (\<lambda>r. block_height r \<le> 8 - 6) (sq_utxo ?s'))
      = [(''t1'', Some 2), (''t2'', None)]" by code_simp
  ultimately show ?thesis
    using reorg_depth_bounded [OF eight_delivered(5) _ _ prod.collapse [symmetric], of "- 9"]
    unfolding Let_def by simp
qed

section \<open>Client and server\<close>

text \<open>
  C25. Over SQLite without faults, an update sent by the client's transport is acknowledged,
  takes its effect on the ledger, and from then on the transport's query for the height
  returns the block's hash.
\<close>

theorem sqlite_update_served:
  assumes "codec_ok C" and "fits C (BlockUpdate b)" and "fits C (BlockProcessedAck (bu_height b))"
    and "fits C (GetBlockHash (bu_height b))" and "fits C (BlockHashResponse (bu_hash b))"
    and "reply_fault K = None" and "sqlite_healthy E" and "sqlite_inv E s"
    and "wf_changes (sqlite_view E s) (changes_of b)" and "sqlite_hash_fresh (bu_height b) (bu_hash b) s"
    and "0 < bu_height b"
  shows "\<exists>s'. send_update C (storage_wire C K (sqlite_ds E)) b s = (Ok (), s') \<and> sqlite_inv E s'
     \<and> sqlite_view E s' = ledger_apply (changes_of b) (sqlite_view E s)
     \<and> transport_get_block_hash C (storage_wire C K (sqlite_ds E)) (bu_height b) s' = (Ok (bu_hash b), s')"
proof -
  obtain s' where s': "handle_message (sqlite_ds E) (BlockUpdate b) s = (Ok (Some (BlockProcessedAck (bu_height b))), s')"
    "sqlite_inv E s'" "sqlite_view E s' = ledger_apply (changes_of b) (sqlite_view E s)"
    "sqlite_chain s' = (sqlite_chain s)(bu_height b \<mapsto> bu_hash b)"
    using sq.handle_block_refines [OF assms(7-10)] by blast
  have "db_get_block_hash (sqlite_ds E) (bu_height b) s' = Ok (bu_hash b)"
    using sq.db_get_block_hash_refines [OF assms(7) s'(2) assms(11)] by (simp add: s'(4))
  then have h: "handle_message (sqlite_ds E) (GetBlockHash (bu_height b)) s'
      = (Ok (Some (BlockHashResponse (bu_hash b))), s')" by simp
  show ?thesis
    using request_storage [OF assms(1,2,3,6) s'(1)] request_storage [OF assms(1,4,5,6) h] s'(2,3)
    by (simp add: send_update_Ok transport_get_block_hash_Ok)
qed

theorem sqlite_update_served_witness:
  "\<exists>s'. send_update small_codec (storage_wire small_codec small_conn (sqlite_ds plain_env)) block1 sqlite_empty
       = (Ok (), s') \<and> sqlite_inv plain_env s'
     \<and> sqlite_view plain_env s' = ledger_apply (changes_of block1) Map.empty
     \<and> transport_get_block_hash small_codec (storage_wire small_codec small_conn (sqlite_ds plain_env)) 1 s'
       = (Ok ''h1'', s')"
  using sqlite_update_served [of small_codec block1 small_conn plain_env sqlite_empty] by simp

text \<open>
  C26. An acknowledgement is never premature: whatever the data source and the faults, if
  \<^verbatim>\<open>send_update\<close> succeeds then the server has handled exactly this update, once, and the state
  is the one it left.
\<close>

theorem send_update_handled:
  assumes "codec_ok C" and "fits C (BlockUpdate b)"
    and "send_update C (storage_wire C K D) b s = (Ok (), s')"
  shows "handle_message D (BlockUpdate b) s = (Ok (Some (BlockProcessedAck (bu_height b))), s')"
proof -
  obtain d where d: "serialize C (BlockUpdate b) = Ok d" "deserialize C d = Ok (BlockUpdate b)"
    "length d < 4294967296"
    using assms(2,1) by (rule fitsE)
  from assms(3) obtain reply d' rest where
    r: "ask (storage_wire C K D) (frame d) s = (reply, s')" "read_frame reply = Some (d', rest)"
    "deserialize C d' = Ok (BlockProcessedAck (bu_height b))"
    using d(1) unfolding send_update_Ok by (auto elim: request_Ok)
  have "reply \<noteq> []" using r(2) by (auto simp: read_frame_def read_exact_def)
  then show ?thesis
    using r(1) handle_connection_frame [OF d(2,3), of K D s]
    by (auto simp: storage_wire_def split: outcome.splits prod.splits option.splits if_splits)
qed

theorem send_update_handled_witness:
  "\<exists>s'. handle_message (sqlite_ds plain_env) (BlockUpdate block1) sqlite_empty
     = (Ok (Some (BlockProcessedAck (bu_height block1))), s')"
proof -
  obtain s' where h: "handle_message (sqlite_ds plain_env) (BlockUpdate block1) sqlite_empty
      = (Ok (Some (BlockProcessedAck 1)), s')"
    using sq.handle_block_refines [OF plain_env_healthy sqlite_empty_inv, of block1] by auto
  have "send_update small_codec (storage_wire small_codec small_conn (sqlite_ds plain_env)) block1 sqlite_empty
      = (Ok (), s')"
    using request_storage [OF small_codec_ok small_codec_fits(1,2) small_conn_reply h]
    by (simp add: send_update_Ok)
  from send_update_handled [OF small_codec_ok small_codec_fits(1) this] show ?thesis by (rule exI)
qed

section \<open>Where the promises stop\<close>

text \<open>
  C27. An acknowledgement does not mean the block was stored: over SQLite, an update whose
  records do not pass validation is acknowledged all the same, while the table of outputs
  stays exactly as it was.
\<close>

theorem rejected_update_acked:
  assumes "utxo_updates b = us @ u # vs" and "\<forall>v \<in> set us. 0 \<le> amount v \<and> address v \<noteq> []"
    and "amount u < 0 \<or> address u = []" and "0 \<le> bu_height b"
  shows "\<exists>s'. handle_message (sqlite_ds E) (BlockUpdate b) s = (Ok (Some (BlockProcessedAck (bu_height b))), s')
     \<and> sq_utxo s' = sq_utxo s"
proof -
  obtain r1 s1 where s1: "sqlite_store_block E (bu_height b) (bu_hash b) (bu_timestamp b) s = (r1, s1)" by force
  have "\<forall>v \<in> set us. check_utxo v = Ok ()" using assms(2) by simp
  moreover obtain e where "check_utxo u = Err e"
    using assms(3) by (cases "check_utxo u") (auto simp: check_utxo_def split: if_splits)
  ultimately have "process_block (sqlite_ds E) b s1 = (Err e, s1)"
    by (rule process_block_invalid [OF assms(4,1)])
  moreover have "r1 \<noteq> Panic" "sq_utxo s1 = sq_utxo s"
    using s1 sqlite_store_block_outcome by blast+
  ultimately show ?thesis
    using s1 by (cases r1) (simp_all add: db_store_block_def)
qed

theorem rejected_update_acked_witness:
  "\<exists>s'. handle_message (sqlite_ds plain_env)
        (BlockUpdate \<lparr>bu_height = 1, bu_hash = ''h1'', bu_timestamp = 1, utxo_updates = [output_rec ''t'' [] 5 1]\<rparr>)
        sqlite_empty = (Ok (Some (BlockProcessedAck 1)), s') \<and> sq_utxo s' = sq_utxo sqlite_empty"
  using rejected_update_acked [of
      "\<lparr>bu_height = 1, bu_hash = ''h1'', bu_timestamp = 1, utxo_updates = [output_rec ''t'' [] 5 1]\<rparr>"
      "[]" "output_rec ''t'' [] 5 1" "[]" plain_env sqlite_empty] by simp

text \<open>
  C28. An output created and spent by the same block ends unspent over SQLite and spent over
  the CSV data source: SQLite writes the spends of a block before its creations, and the
  creation's \<^verbatim>\<open>ON CONFLICT\<close> clause overwrites the spend.
\<close>

theorem same_block_spend_differs:
  assumes "sqlite_healthy E" and "a \<noteq> []" and "0 \<le> v" and "t \<noteq> []" and "0 \<le> h"
    and "b = \<lparr>bu_height = h, bu_hash = x, bu_timestamp = ts,
              utxo_updates = [output_rec t a v h, spend_rec t a v h t']\<rparr>"
  shows "db_get_utxo_by_outpoint (sqlite_ds E) t 0 (snd (process_block (sqlite_ds E) b sqlite_empty))
       = Ok (Some (output_rec t a v h))
     \<and> db_get_utxo_by_outpoint (csv_ds F) t 0 (snd (process_block (csv_ds F) b csv_empty))
       = Ok (Some (spend_rec t a v h t'))"
proof -
  have ch: "changes_of b = \<lparr>pc_height = h, utxos_update = [spend_rec t a v h t'], utxos_insert = [output_rec t a v h]\<rparr>"
    "process_block D b s = ds_process_block_utxos D (changes_of b) s" for D and s :: 's
    using assms by (simp_all add: changes_of_def process_block_valid)
  have enc: "mark_spent (encode_row E (output_rec t a v h)) (encode_row E (spend_rec t a v h t'))
      = encode_row E (output_rec t a v h)"
    by (simp add: encode_mark_spent) (simp add: mark_spent_def output_rec_def spend_rec_def)
  have "snd (process_block (sqlite_ds E) b sqlite_empty)
      = \<lparr>sq_blocks = [], sq_utxo = [encode_row E (output_rec t a v h)]\<rparr>"
    using assms(1-3,5) enc
    by (simp add: ch sqlite_process_block_utxos_def bulk_upsert_utxos_impl_def sqlite_empty_def upsert_row_def)
  moreover have "snd (process_block (csv_ds F) b csv_empty)
      = csv_empty\<lparr>cs_utxos := [(a, [(outpoint_key t 0, spend_rec t a v h t')])],
          cs_blocks := [(h, [(a, [output_rec t a v h])])], cs_latest_block := h\<rparr>"
    using assms(2,3,5)
    by (simp add: ch csv_process_block_utxos_def csv_empty_def insert2_def push2_def bucket_def update2_def
        mark_spent_def) (simp add: output_rec_def spend_rec_def)
  ultimately show ?thesis
    using assms(1,4) by (simp add: db_get_utxo_by_outpoint_def sqlite_get_utxo_by_outpoint_def select_rows_def
        csv_get_utxo_by_outpoint_def values_in_def)
qed

theorem same_block_spend_differs_witness:
  "let b = \<lparr>bu_height = 1, bu_hash = ''h'', bu_timestamp = 1,
            utxo_updates = [output_rec ''t'' ''alice'' 5 1, spend_rec ''t'' ''alice'' 5 1 ''u'']\<rparr>
   in db_get_utxo_by_outpoint (sqlite_ds plain_env) ''t'' 0 (snd (process_block (sqlite_ds plain_env) b sqlite_empty))
       = Ok (Some (output_rec ''t'' ''alice'' 5 1))
    \<and> db_get_utxo_by_outpoint (csv_ds plain_csv_env) ''t'' 0 (snd (process_block (csv_ds plain_csv_env) b csv_empty))
       = Ok (Some (spend_rec ''t'' ''alice'' 5 1 ''u''))"
  unfolding Let_def by (rule same_block_spend_differs [OF plain_env_healthy]) simp_all

text \<open>
  The spend of an output the store does not hold leaves a record of it over SQLite,
  created at the height of the spend, and nothing over the CSV data source.
\<close>

lemma unknown_spend_recorded:
  assumes "sqlite_healthy E" and "a \<noteq> []" and "0 \<le> v" and "t \<noteq> []" and "0 \<le> h"
    and "b = \<lparr>bu_height = h, bu_hash = x, bu_timestamp = ts, utxo_updates = [spend_rec t a v h t']\<rparr>"
  shows "db_get_utxo_by_outpoint (sqlite_ds E) t 0 (snd (process_block (sqlite_ds E) b sqlite_empty))
       = Ok (Some (spend_rec t a v h t'))
     \<and> db_get_utxo_by_outpoint (csv_ds F) t 0 (snd (process_block (csv_ds F) b csv_empty)) = Ok None"
proof -
  have ch: "changes_of b = \<lparr>pc_height = h, utxos_update = [spend_rec t a v h t'], utxos_insert = []\<rparr>"
    "process_block D b s = ds_process_block_utxos D (changes_of b) s" for D and s :: 's
    using assms by (simp_all add: changes_of_def process_block_valid)
  show ?thesis
    using assms(1-5)
    by (simp add: ch sqlite_process_block_utxos_def bulk_upsert_utxos_impl_def sqlite_empty_def upsert_row_def
        csv_process_block_utxos_def csv_empty_def update2_def db_get_utxo_by_outpoint_def
        sqlite_get_utxo_by_outpoint_def select_rows_def csv_get_utxo_by_outpoint_def)
qed

lemma unknown_spend_recorded_witness:
  "let b = \<lparr>bu_height = 1, bu_hash = ''h'', bu_timestamp = 1,
            utxo_updates = [spend_rec ''t'' ''alice'' 5 1 ''u'']\<rparr>
   in db_get_utxo_by_outpoint (sqlite_ds plain_env) ''t'' 0 (snd (process_block (sqlite_ds plain_env) b sqlite_empty))
       = Ok (Some (spend_rec ''t'' ''alice'' 5 1 ''u''))
    \<and> db_get_utxo_by_outpoint (csv_ds plain_csv_env) ''t'' 0 (snd (process_block (csv_ds plain_csv_env) b csv_empty))
       = Ok None"
  unfolding Let_def by (rule unknown_spend_recorded [OF plain_env_healthy]) simp_all

section \<open>Final blocks\<close>

lemma reorg_event_blocks:
  assumes "sqlite_healthy E" and "sqlite_get_latest_block E s = Ok l" and "l \<noteq> 0"
  shows "sq_blocks (snd (handle_message (sqlite_ds E) (ReorgEvent h) s))
    = map (\<lambda>b. if safe_revert_height l h < sb_height b then b\<lparr>is_main_chain := False\<rparr> else b) (sq_blocks s)"
proof -
  let ?h = "safe_revert_height l h"
  obtain s1 where s1: "sqlite_mark_blocks_after_height_not_main_chain E ?h s = (Ok (), s1)"
    "sq_blocks s1 = map (\<lambda>b. if ?h < sb_height b then b\<lparr>is_main_chain := False\<rparr> else b) (sq_blocks s)"
    using assms(1) by (simp add: sqlite_mark_blocks_after_height_not_main_chain_def settle_cases)
  obtain x2 s2 where s2: "sqlite_revert_utxos_after_height E ?h s1 = (x2, s2)" by (cases "sqlite_revert_utxos_after_height E ?h s1")
  then have "sq_blocks s2 = sq_blocks s1" using sqlite_revert_result [OF s2] by auto
  then show ?thesis
    using s1 s2 assms(2,3) by (auto simp: revert_to_height_def db_get_latest_block_def Let_def split: outcome.splits)
qed

text \<open>Each event to the same height takes at most six blocks more off the main chain.\<close>

lemma reorg_events_refine:
  assumes E: "sqlite_healthy E" and "sqlite_inv E s" and "{k..l} \<subseteq> dom (sqlite_chain s)" and "dom (sqlite_chain s) \<subseteq> {..l}"
    and "0 < k" and "k \<le> l" and "l < 2147483648"
  defines "t \<equiv> \<lambda>n. ((\<lambda>t. snd (handle_message (sqlite_ds E) (ReorgEvent k) t)) ^^ n) s"
  shows "sqlite_inv E (t n) \<and> sqlite_chain (t n) = sqlite_chain s |` {..max k (l - 6 * int n)}
     \<and> sqlite_view E (t n) = (if n = 0 then sqlite_view E s else ledger_revert (max k (l - 6 * int n)) (sqlite_view E s))
     \<and> sq_blocks (t n)
        = map (\<lambda>b. if n \<noteq> 0 \<and> max k (l - 6 * int n) < sb_height b then b\<lparr>is_main_chain := False\<rparr> else b) (sq_blocks s)"
proof (induction n)
  case 0
  then show ?case using assms(2,4,6) by (simp add: t_def restrict_map_def fun_eq_iff) (auto simp: dom_def)
next
  case (Suc n)
  let ?h = "max k (l - 6 * int n)" and ?h' = "max k (l - 6 * int (Suc n))"
  have "?h \<in> {k..l}" using assms(6) by simp
  then have "?h \<in> dom (sqlite_chain s)" using assms(3) by blast
  then have "?h \<in> dom (sqlite_chain (t n))" "dom (sqlite_chain (t n)) \<subseteq> {..?h}" using Suc by auto
  then have L: "sqlite_get_latest_block E (t n) = Ok ?h" by (rule sqlite_latest_block [OF E])
  have safe: "safe_revert_height ?h k = ?h'" and ne: "?h \<noteq> 0"
    using assms(5,6,7) by (simp_all add: safe_revert_height_eq max_def)
  obtain s' where s': "handle_message (sqlite_ds E) (ReorgEvent k) (t n) = (Ok None, s')" "sqlite_inv E s'"
    "sqlite_view E s' = ledger_revert ?h' (sqlite_view E (t n))" "sqlite_chain s' = sqlite_chain (t n) |` {..?h'}"
    using sq.revert_to_height_refines [OF E _ _ ne, of "t n" k] Suc L safe by auto
  have next_state: "t (Suc n) = s'" using s'(1) by (simp add: t_def)
  have "?h' \<le> ?h" by simp
  then have "sqlite_chain s' = sqlite_chain s |` {..?h'}"
    using Suc s'(4) by (auto simp: restrict_map_def fun_eq_iff)
  moreover have "sqlite_view E s' = ledger_revert ?h' (sqlite_view E s)"
    using Suc s'(3) ledger_revert_idem [OF \<open>?h' \<le> ?h\<close>] by (cases "n = 0") simp_all
  moreover have "sq_blocks s' = map (\<lambda>b. if ?h' < sb_height b then b\<lparr>is_main_chain := False\<rparr> else b) (sq_blocks s)"
    using reorg_event_blocks [OF E L ne, of k] Suc s'(1) safe by auto
  ultimately show ?case using s'(2) next_state by simp
qed

text \<open>
  C31. Final blocks can be rolled back.  Over SQLite without faults, whatever the store holds on a
  main chain from \<open>k\<close> to \<open>l\<close>: after the finality update for \<open>l\<close>, as many reorganisation events to
  height \<open>k\<close> as it takes six heights at a time bring the ledger and the main chain back to \<open>k\<close>.
  Every block above \<open>k\<close> up to \<open>l - 5\<close> was final and on the main chain, and is now final and off it.
\<close>

theorem final_blocks_rolled_back:
  assumes "sqlite_healthy E" and "sqlite_inv E s" and "{k..l} \<subseteq> dom (sqlite_chain s)" and "dom (sqlite_chain s) \<subseteq> {..l}"
    and "0 < k" and "k < l" and "l < 2147483648" and "l - 6 * int n \<le> k"
  shows "let s1 = snd (handle_message (sqlite_ds E) (UpdateFinalityStatus l) s);
       s2 = ((\<lambda>t. snd (handle_message (sqlite_ds E) (ReorgEvent k) t)) ^^ n) s1
     in sqlite_view E s2 = ledger_revert k (sqlite_view E s) \<and> sqlite_chain s2 = sqlite_chain s |` {..k}
      \<and> (\<forall>i. k < i \<and> i \<le> l - 5 \<longrightarrow> (\<exists>b \<in> set (sq_blocks s1). sb_height b = i \<and> is_final b \<and> is_main_chain b
            \<and> b\<lparr>is_main_chain := False\<rparr> \<in> set (sq_blocks s2)))"
proof -
  obtain s1 where s1: "update_finality_status (sqlite_ds E) l s = (Ok (), s1)" "sqlite_inv E s1"
    "sqlite_view E s1 = sqlite_view E s" "sqlite_chain s1 = sqlite_chain s"
    using sq.update_finality_refines [OF assms(1,2), of l] by blast
  have final_flag: "is_final b" if "b \<in> set (sq_blocks s1)" "sb_height b \<le> l - 5" "5 < l" for b
    using s1(1) that assms(1,5-7)
    by (auto simp: update_finality_status_def sqlite_mark_blocks_as_final_def finality_threshold_eq settle_cases split: if_splits)
  let ?s2 = "((\<lambda>t. snd (handle_message (sqlite_ds E) (ReorgEvent k) t)) ^^ n) s1"
  have n: "n \<noteq> 0" "max k (l - 6 * int n) = k" using assms(6,8) by auto
  have R: "sqlite_view E ?s2 = ledger_revert k (sqlite_view E s)" "sqlite_chain ?s2 = sqlite_chain s |` {..k}"
    "sq_blocks ?s2 = map (\<lambda>b. if k < sb_height b then b\<lparr>is_main_chain := False\<rparr> else b) (sq_blocks s1)"
    using reorg_events_refine [OF assms(1) s1(2), of k l n] assms(3-7) s1(3,4) n by simp_all
  have "\<exists>b \<in> set (sq_blocks s1). sb_height b = i \<and> is_final b \<and> is_main_chain b
      \<and> b\<lparr>is_main_chain := False\<rparr> \<in> set (sq_blocks ?s2)" if i: "k < i" "i \<le> l - 5" for i
  proof -
    have "i \<in> {k..l}" using i by simp
    then have "i \<in> dom (sqlite_chain s1)" using assms(3) s1(4) by auto
    then obtain b where b: "b \<in> set (sq_blocks s1)" "sb_height b = i" "is_main_chain b" by (auto simp: sqlite_chain_dom)
    moreover have "b\<lparr>is_main_chain := False\<rparr> \<in> set (sq_blocks ?s2)"
      unfolding R(3) using b(1,2) i(1) by (force simp: image_iff)
    moreover have "is_final b" using final_flag [of b] b(1,2) i assms(5) by simp
    ultimately show ?thesis by blast
  qed
  moreover have "snd (handle_message (sqlite_ds E) (UpdateFinalityStatus l) s) = s1" using s1(1) by simp
  ultimately show ?thesis using R(1,2) unfolding Let_def by blast
qed

theorem final_blocks_rolled_back_witness:
  "let s = deliver_blocks (sqlite_ds plain_env) eight_blocks sqlite_empty;
       s1 = snd (handle_message (sqlite_ds plain_env) (UpdateFinalityStatus 8) s);
       s2 = ((\<lambda>t. snd (handle_message (sqlite_ds plain_env) (ReorgEvent 1) t)) ^^ 2) s1
   in sqlite_view plain_env s2 = ledger_revert 1 (ledger_run (map changes_of eight_blocks) Map.empty)
    \<and> sqlite_chain s2 = hashes_of eight_blocks |` {..1}
    \<and> (\<exists>b \<in> set (sq_blocks s1). sb_height b = 3 \<and> is_final b \<and> is_main_chain b
         \<and> b\<lparr>is_main_chain := False\<rparr> \<in> set (sq_blocks s2))"
proof -
  have "{1..8} \<subseteq> dom (sqlite_chain (deliver_blocks (sqlite_ds plain_env) eight_blocks sqlite_empty))"
    "dom (sqlite_chain (deliver_blocks (sqlite_ds plain_env) eight_blocks sqlite_empty)) \<subseteq> {..8}"
    by (auto simp: eight_delivered(4))
  note F = final_blocks_rolled_back [OF plain_env_healthy eight_delivered(1) this, of 2, simplified Let_def eight_delivered(2,3)]
  show ?thesis
    unfolding Let_def using F [THEN conjunct1] F [THEN conjunct2, THEN conjunct1] F [THEN conjunct2, THEN conjunct2, rule_format, of 3]
    by simp
qed

end
