(* ===== verification/System.thy ===== *)
theory System
  imports Indexer_Sync Storage_Safety
begin

text \<open>
  The two services together: the indexer's loop against the storage service at the other end
  of the socket.  A static chain of the node is brought into the ledger block by block, and a
  short fork is detected and rolled back.
\<close>

section \<open>What the node and the codec provide\<close>

definition cache_sound :: "('c \<Rightarrow> string \<Rightarrow> transaction option) \<Rightarrow> (string \<Rightarrow> transaction option) \<Rightarrow> 'c \<Rightarrow> bool" where
  "cache_sound content f c \<longleftrightarrow> (\<forall>t tx. content c t = Some tx \<longrightarrow> f t = Some tx)"

text \<open>The node serves a block whose update, for the watched addresses, is \<open>u\<close>.\<close>

definition serves_block :: "('u, 'a, 'c) ix_env \<Rightarrow> 'n rpc_client \<Rightarrow> network \<Rightarrow> 'a set
    \<Rightarrow> (string \<Rightarrow> transaction option) \<Rightarrow> block_update \<Rightarrow> bool" where
  "serves_block I rpc N W f u \<longleftrightarrow>
     (\<forall>n. \<exists>n'. get_block_hash rpc (as_u64 (bu_height u)) n = (Ok (bu_hash u), n'))
     \<and> (\<exists>b. (\<forall>n. \<exists>n'. get_block rpc (bu_hash u) n = (Ok b, n'))
        \<and> (\<forall>n. \<exists>n' i. get_block_info rpc (bu_hash u) n = (Ok i, n') \<and> as_i32 i = bu_height u)
        \<and> datetime_from_timestamp I (header_time b) = Some (bu_timestamp u)
        \<and> inputs_known (ie_lib I) f b
        \<and> utxo_updates u = block_updates (ie_lib I) N W f (bu_height u) (bu_timestamp u) b)"

definition fits_block :: "codec \<Rightarrow> block_update \<Rightarrow> bool" where
  "fits_block C u \<longleftrightarrow> fits C (BlockUpdate u) \<and> fits C (BlockProcessedAck (bu_height u))
     \<and> fits C (GetBlockHash (bu_height u)) \<and> fits C (BlockHashResponse (bu_hash u))"

definition sync_ready :: "('u, 'a, 'c) ix_env \<Rightarrow> codec \<Rightarrow> conn_env \<Rightarrow> ('c \<Rightarrow> string \<Rightarrow> transaction option)
    \<Rightarrow> (string \<Rightarrow> transaction option) \<Rightarrow> 'n rpc_client \<Rightarrow> network \<Rightarrow> 'a set \<Rightarrow> block_update list \<Rightarrow> bool" where
  "sync_ready I C K content f rpc N W bs \<longleftrightarrow>
     tx_cache (ie_cache I) content \<and> codec_ok C \<and> reply_fault K = None \<and> serves_transactions rpc f
     \<and> (\<forall>u \<in> set bs. serves_block I rpc N W f u \<and> fits_block C u)"

text \<open>The part of the indexer that a cycle never changes, and its cache.\<close>

definition configured :: "('c \<Rightarrow> string \<Rightarrow> transaction option) \<Rightarrow> (string \<Rightarrow> transaction option) \<Rightarrow> 'n rpc_client
    \<Rightarrow> network \<Rightarrow> 'a set \<Rightarrow> ('a, 'n, 'c, 's) world \<Rightarrow> bool" where
  "configured content f rpc N W w \<longleftrightarrow>
     ix_rpc (w_indexer w) = rpc \<and> ix_network (w_indexer w) = N \<and> ix_watched (w_indexer w) = W
     \<and> 1 \<le> batch_limit (w_indexer w) \<and> cache_sound content f (ix_cache (w_indexer w))"

text \<open>Only the cache, the node and the storage service differ.\<close>

definition with_parts :: "'c \<Rightarrow> 'n \<Rightarrow> 's \<Rightarrow> ('a, 'n, 'c, 's) world \<Rightarrow> ('a, 'n, 'c, 's) world" where
  "with_parts c n s w = w\<lparr>w_indexer := (w_indexer w)\<lparr>ix_cache := c\<rparr>, w_node := n, w_storage := s\<rparr>"

lemma with_parts_sel [simp]:
  "w_storage (with_parts c n s w) = s" "w_node (with_parts c n s w) = n"
  "ix_cache (w_indexer (with_parts c n s w)) = c" "last_height (with_parts c n s w) = last_height w"
  "ix_rpc (w_indexer (with_parts c n s w)) = ix_rpc (w_indexer w)"
  "batch_limit (w_indexer (with_parts c n s w)) = batch_limit (w_indexer w)"
  "with_parts c n s (with_parts c' n' s' w) = with_parts c n s w"
  "w_storage (set_last h w) = w_storage w" "last_height (set_last h w) = h"
  "with_parts c n s w\<lparr>w_node := n''\<rparr> = with_parts c n'' s w"
  by (simp_all add: with_parts_def batch_limit_def set_last_def)

lemma with_parts_node: "w\<lparr>w_node := n\<rparr> = with_parts (ix_cache (w_indexer w)) n (w_storage w) w"
  by (simp add: with_parts_def)

lemma configured_parts [simp]:
  "configured content f rpc N W w \<Longrightarrow> cache_sound content f c \<Longrightarrow> configured content f rpc N W (with_parts c n s w)"
  by (auto simp: configured_def with_parts_def batch_limit_def)

lemma configured_node [simp]: "configured content f rpc N W (w\<lparr>w_node := n\<rparr>) = configured content f rpc N W w"
  by (simp add: configured_def)

lemma configured_storage [simp]: "configured content f rpc N W (w\<lparr>w_storage := s\<rparr>) = configured content f rpc N W w"
  by (simp add: configured_def)

lemma configured_last [simp]: "configured content f rpc N W (set_last h w) = configured content f rpc N W w"
  by (simp add: configured_def set_last_def batch_limit_def)

section \<open>One block\<close>

lemma block_data_served:
  assumes K: "tx_cache (ie_cache I) content" and T: "serves_transactions rpc f"
    and S: "serves_block I rpc N W f u" and c: "configured content f rpc N W w"
  shows "\<exists>c' n'. block_data I (bu_hash u) w = (Ok u, with_parts c' n' (w_storage w) w) \<and> cache_sound content f c'"
proof -
  let ?ix = "w_indexer w"
  have ix: "ix_rpc ?ix = rpc" "ix_network ?ix = N" "ix_watched ?ix = W" and cs: "cache_sound content f (ix_cache ?ix)"
    using c by (simp_all add: configured_def)
  obtain b where b: "\<forall>n. \<exists>n'. get_block rpc (bu_hash u) n = (Ok b, n')"
    "\<forall>n. \<exists>n' i. get_block_info rpc (bu_hash u) n = (Ok i, n') \<and> as_i32 i = bu_height u"
    "datetime_from_timestamp I (header_time b) = Some (bu_timestamp u)" "inputs_known (ie_lib I) f b"
    "utxo_updates u = block_updates (ie_lib I) N W f (bu_height u) (bu_timestamp u) b"
    using S unfolding serves_block_def by blast
  obtain n1 where n1: "get_block rpc (bu_hash u) (w_node w) = (Ok b, n1)" using b(1) by blast
  obtain n2 i where n2: "get_block_info rpc (bu_hash u) n1 = (Ok i, n2)" "as_i32 i = bu_height u" using b(2) by blast
  have "tx_source (ie_cache I) content (get_transactions_batch rpc) (get_utxo_batch rpc) f (serves_transactions rpc f)"
    by (intro tx_source.intro K tx_source_axioms.intro serves_fetch serves_no_outs)
  from tx_source.process_exact [OF this T refl, of ?ix "ix_cache ?ix" b "bu_height u" "bu_timestamp u" n2]
  obtain c' n' where p: "process_transactions I ?ix b (bu_height u) (bu_timestamp u) (ix_cache ?ix, n2)
       = (Ok (utxo_updates u), c', n')" "cache_sound content f c'"
    using b(4,5) cs ix by (auto simp: cache_sound_def)
  have "get_block_data I ?ix (bu_hash u) (ix_cache ?ix, w_node w) = (Ok u, c', n')"
    using n1 n2 b(3) p(1) by (simp add: get_block_data_def then_do_def ix lift_result_def)
  then show ?thesis
    using p(2) by (auto simp: block_data_def with_parts_def)
qed


section \<open>Lists of blocks\<close>

lemma consecutive_take: "consecutive h bs \<Longrightarrow> consecutive h (take k bs)"
  using consecutive_append [of h "take k bs" "drop k bs"] by simp

lemma consecutive_drop: "consecutive h bs \<Longrightarrow> k \<le> length bs \<Longrightarrow> consecutive (h + int k) (drop k bs)"
  using consecutive_append [of h "take k bs" "drop k bs"] by (simp add: min_absorb2)

lemma consecutive_map: "consecutive h bs \<Longrightarrow> map bu_height bs = [h + 1..h + int (length bs)]"
proof (induction bs arbitrary: h)
  case (Cons b bs)
  have "map bu_height bs = [h + 1 + 1..h + 1 + int (length bs)]" by (rule Cons.IH) (use Cons.prems in simp)
  then have "map bu_height (b # bs) = (h + 1) # [h + 1 + 1..h + 1 + int (length bs)]"
    using Cons.prems by simp
  also have "\<dots> = [h + 1..h + 1 + int (length bs)]" by (simp add: upto_rec1)
  also have "h + 1 + int (length bs) = h + int (length (b # bs))" by simp
  finally show ?case .
qed simp

lemma hashes_of_append: "hashes_of (xs @ ys) = hashes_of ys ++ hashes_of xs"
  by (simp add: hashes_of_def)

lemma hashes_of_in:
  "consecutive h bs \<Longrightarrow> b \<in> set bs \<Longrightarrow> hashes_of bs (bu_height b) = Some (bu_hash b)"
proof (induction bs arbitrary: h)
  case (Cons c bs)
  show ?case
  proof (cases "b = c")
    case True
    then show ?thesis by (simp add: hashes_of_def)
  next
    case False
    then have "b \<in> set bs" "consecutive (h + 1) bs" using Cons.prems by auto
    then have "h + 1 < bu_height b" "hashes_of bs (bu_height b) = Some (bu_hash b)"
      using consecutive_heights Cons.IH by blast+
    then show ?thesis using Cons.prems(1) by (simp add: hashes_of_def)
  qed
qed simp

lemma consecutive_at:
  assumes "consecutive h bs" and "h < i" and "i \<le> h + int (length bs)"
  obtains b where "b \<in> set bs" "bu_height b = i"
proof -
  have "i \<in> dom (hashes_of bs)" using dom_hashes_of [OF assms(1)] assms(2,3) by simp
  then obtain x where "(i, x) \<in> set (map (\<lambda>b. (bu_height b, bu_hash b)) bs)"
    unfolding hashes_of_def by (auto dest: map_of_SomeD)
  then show ?thesis using that by auto
qed

section \<open>Delivery\<close>

context datasource_contract
begin

lemma send_block_delivered:
  assumes "healthy" and "inv (w_storage w)" and "wf_changes (view (w_storage w)) (changes_of b)"
    and "hash_fresh (bu_height b) (bu_hash b) (w_storage w)"
    and "codec_ok C" and "fits_block C b" and "reply_fault K = None"
  shows "send_block_update C (storage_wire C K D) b w
     = (Ok (), w\<lparr>w_storage := deliver_blocks D [b] (w_storage w)\<rparr>)"
proof -
  obtain s' where s': "handle_message D (BlockUpdate b) (w_storage w) = (Ok (Some (BlockProcessedAck (bu_height b))), s')"
    using handle_block_refines [OF assms(1-4)] by blast
  have "request C (storage_wire C K D) (BlockUpdate b) (w_storage w) = (Ok (BlockProcessedAck (bu_height b)), s')"
    using request_storage [OF assms(5) _ _ assms(7) s'] assms(6) by (simp add: fits_block_def)
  then have "send_update C (storage_wire C K D) b (w_storage w) = (Ok (), s')" by (simp add: send_update_Ok)
  then show ?thesis
    using s' by (simp add: send_block_update_def ask_storage_def deliver_blocks_def)
qed

lemma deliver_Cons: "deliver_blocks D (b # bs) s = deliver_blocks D bs (deliver_blocks D [b] s)"
  by (simp add: deliver_blocks_def)

lemma send_heights_delivers:
  assumes H: "healthy" and R: "sync_ready I C K content f rpc N W bs"
    and "configured content f rpc N W w" and "inv (w_storage w)"
    and "wf_chain (view (w_storage w)) (map changes_of bs)" and "distinct (map bu_hash bs)"
    and "\<forall>b \<in> set bs. hash_fresh (bu_height b) (bu_hash b) (w_storage w)" and "consecutive h bs"
  shows "\<exists>c' n'. send_heights I C (storage_wire C K D) (map bu_height bs) w
       = (Ok (), with_parts c' n' (deliver_blocks D bs (w_storage w)) w) \<and> cache_sound content f c'"
  using assms(2-)
proof (induction bs arbitrary: w h)
  case Nil
  then show ?case
    by (intro exI [of _ "ix_cache (w_indexer w)"] exI [of _ "w_node w"])
      (simp add: deliver_blocks_def with_parts_def configured_def)
next
  case (Cons b bs)
  let ?s = "w_storage w"
  have R: "tx_cache (ie_cache I) content" "codec_ok C" "reply_fault K = None" "serves_transactions rpc f"
    "serves_block I rpc N W f b" "fits_block C b" "sync_ready I C K content f rpc N W bs"
    using Cons.prems(1) by (auto simp: sync_ready_def)
  have Wf: "wf_changes (view ?s) (changes_of b)" using Cons.prems(4) by (simp add: wf_block_def)
  have rpc: "ix_rpc (w_indexer w) = rpc" using Cons.prems(2) by (simp add: configured_def)
  obtain n1 where n1: "get_block_hash rpc (as_u64 (bu_height b)) (w_node w) = (Ok (bu_hash b), n1)"
    using R(5) unfolding serves_block_def by blast
  obtain c2 n2 where d: "block_data I (bu_hash b) (w\<lparr>w_node := n1\<rparr>)
      = (Ok b, with_parts c2 n2 ?s (w\<lparr>w_node := n1\<rparr>))" "cache_sound content f c2"
    using block_data_served [OF R(1,4,5), of "w\<lparr>w_node := n1\<rparr>"] Cons.prems(2) by auto
  have w2: "with_parts c2 n2 ?s (w\<lparr>w_node := n1\<rparr>) = with_parts c2 n2 ?s w" by (simp add: with_parts_def)
  let ?t = "deliver_blocks D [b] ?s"
  let ?w3 = "with_parts c2 n2 ?t w"
  have sent: "send_block_update C (storage_wire C K D) b (with_parts c2 n2 ?s w) = (Ok (), ?w3)"
    using send_block_delivered [OF H _ _ _ R(2,6,3), of "with_parts c2 n2 ?s w"] Cons.prems(3,6) Wf
    by (simp add: with_parts_def)
  have one: "inv ?t \<and> view ?t = ledger_run (map changes_of [b]) (view ?s) \<and> chain ?t = chain ?s ++ hashes_of [b]
      \<and> (\<forall>i x. hash_fresh i x ?s \<longrightarrow> x \<notin> bu_hash ` set [b] \<longrightarrow> hash_fresh i x ?t)"
    by (rule deliver_blocks_facts [OF H Cons.prems(3), of _ h]) (use Cons.prems in auto)
  have "\<forall>c \<in> set bs. hash_fresh (bu_height c) (bu_hash c) ?t"
  proof
    fix c assume c: "c \<in> set bs"
    then have "bu_hash c \<noteq> bu_hash b" using Cons.prems(5) by (auto simp: image_iff)
    then show "hash_fresh (bu_height c) (bu_hash c) ?t" using one Cons.prems(6) c by simp
  qed
  moreover have "configured content f rpc N W ?w3" using Cons.prems(2) d(2) by simp
  moreover have "wf_chain (view ?t) (map changes_of bs)"
    using one Cons.prems(4) by (simp add: ledger_run_def)
  ultimately obtain c' n' where IH: "send_heights I C (storage_wire C K D) (map bu_height bs) ?w3
      = (Ok (), with_parts c' n' (deliver_blocks D bs ?t) ?w3)" "cache_sound content f c'"
    using Cons.IH [OF R(7), of ?w3 "h + 1"] one Cons.prems(5,7) by auto
  have "send_heights I C (storage_wire C K D) (map bu_height (b # bs)) w
      = send_heights I C (storage_wire C K D) (map bu_height bs) ?w3"
    using n1 d(1) sent by (simp add: then_do_def ask_node_def rpc w2)
  then show ?case
    using IH by (auto simp: deliver_Cons [of b bs])
qed

lemma stored_hash_served:
  assumes "healthy" and "inv s" and "chain s h = Some x" and "0 < h"
    and "codec_ok C" and "fits C (GetBlockHash h)" and "fits C (BlockHashResponse x)" and "reply_fault K = None"
  shows "transport_get_block_hash C (storage_wire C K D) h s = (Ok x, s)"
proof -
  have "handle_message D (GetBlockHash h) s = (Ok (Some (BlockHashResponse x)), s)"
    using hash_refines [OF assms(1,2,4)] assms(3) by (simp add: db_get_block_hash_def)
  from request_storage [OF assms(5-8) this] show ?thesis by (simp add: transport_get_block_hash_Ok)
qed

lemma finality_delivered:
  assumes H: "healthy" and I: "inv (w_storage w)" and C: "codec_ok C" "fits C (UpdateFinalityStatus h)"
  shows "\<exists>s'. send_finality C (storage_wire C K D) h w = (Ok (), w\<lparr>w_storage := s'\<rparr>) \<and> inv s'
     \<and> view s' = view (w_storage w) \<and> chain s' = chain (w_storage w)
     \<and> (\<forall>i x. hash_fresh i x (w_storage w) \<longrightarrow> hash_fresh i x s')"
proof (cases "0 < wrap_i32 (wrap_i32 (h - FINALITY_CONFIRMATIONS) + 1)")
  case True
  then have thr: "0 < finality_threshold h" by (simp add: finality_threshold_def)
  obtain s' where s': "ds_mark_blocks_as_final D (finality_threshold h) (w_storage w) = (Ok (), s')" "inv s'"
    "view s' = view (w_storage w)" "chain s' = chain (w_storage w)"
    using final_refines [OF H I] by blast
  have "handle_message D (UpdateFinalityStatus h) (w_storage w) = (Ok None, s')"
    using s'(1) thr by (simp add: update_finality_status_def)
  then have "notify C (storage_wire C K D) (UpdateFinalityStatus h) (w_storage w) = (Ok (), s')"
    by (rule notify_storage [OF C])
  then have "send_finality C (storage_wire C K D) h w = (Ok (), w\<lparr>w_storage := s'\<rparr>)"
    using True by (simp add: send_finality_def ask_storage_def send_update_finality_status_def)
  then show ?thesis using s' hash_fresh_final [OF _ s'(1)] by blast
next
  case False
  then show ?thesis using I by (intro exI [of _ "w_storage w"]) (simp add: send_finality_def)
qed

end

section \<open>A cycle\<close>

text \<open>
  The first \<open>j\<close> blocks of the chain above \<open>h0\<close> are in the storage service, whose ledger was \<open>L\<close>,
  and the indexer knows it.
\<close>

definition synced :: "('s \<Rightarrow> ledger) \<Rightarrow> ('s \<Rightarrow> i32 \<Rightarrow> string option) \<Rightarrow> ('s \<Rightarrow> bool) \<Rightarrow> (i32 \<Rightarrow> string \<Rightarrow> 's \<Rightarrow> bool)
    \<Rightarrow> i32 \<Rightarrow> ledger \<Rightarrow> block_update list \<Rightarrow> nat \<Rightarrow> ('a, 'n, 'c, 's) world \<Rightarrow> bool" where
  "synced view chain good fresh h0 L bs j w \<longleftrightarrow>
     j \<le> length bs \<and> last_height w = h0 + int j \<and> good (w_storage w)
     \<and> view (w_storage w) = ledger_run (map changes_of (take j bs)) L
     \<and> (\<forall>i. h0 < i \<longrightarrow> i \<le> h0 + int j \<longrightarrow> chain (w_storage w) i = hashes_of bs i)
     \<and> (\<forall>b \<in> set (drop j bs). fresh (bu_height b) (bu_hash b) (w_storage w))"

text \<open>The chain above \<open>h0\<close> is one the store can take, and its tip is high enough for a final block.\<close>

definition chain_above :: "i32 \<Rightarrow> ledger \<Rightarrow> block_update list \<Rightarrow> bool" where
  "chain_above h0 L bs \<longleftrightarrow>
     consecutive h0 bs \<and> distinct (map bu_hash bs) \<and> wf_chain L (map changes_of bs)
     \<and> - 1 \<le> h0 \<and> h0 + int (length bs) < 2147483647
     \<and> h0 < check_start (h0 + int (length bs)) \<and> 0 < check_start (h0 + int (length bs))"

lemma synced_node [simp]: "synced view chain good fresh h0 L bs j (w\<lparr>w_node := n\<rparr>) = synced view chain good fresh h0 L bs j w"
  by (simp add: synced_def)

context datasource_contract
begin

text \<open>While the prefix is in the store, the check for reorganisations finds nothing.\<close>

lemma no_reorg:
  assumes H: "healthy" and R: "sync_ready I C K content f rpc N W bs" and A: "chain_above h0 L bs"
    and T: "node_count rpc tip" "as_i32 tip = h0 + int (length bs)"
    and cf: "configured content f rpc N W w" and S: "synced view chain inv hash_fresh h0 L bs j w"
  shows "\<exists>n'. check_for_reorg C (storage_wire C K D) w = (Ok False, w\<lparr>w_node := n'\<rparr>)"
proof -
  let ?start = "check_start (as_i32 tip)" and ?last = "last_height w" and ?hash = "\<lambda>i. the (hashes_of bs i)"
  have rpc: "ix_rpc (w_indexer w) = rpc" using cf by (simp add: configured_def)
  have con: "consecutive h0 bs" and pos: "0 < ?start" "h0 < ?start"
    using A T(2) by (simp_all add: chain_above_def)
  have last: "?last = h0 + int j" "j \<le> length bs" using S by (simp_all add: synced_def)
  have at: "\<exists>b \<in> set bs. bu_height b = i \<and> hashes_of bs i = Some (bu_hash b)" if "?start \<le> i" "i \<le> ?last" for i
  proof -
    have "h0 < i" "i \<le> h0 + int (length bs)" using that pos last by auto
    then obtain b where "b \<in> set bs" "bu_height b = i" by (rule consecutive_at [OF con])
    then show ?thesis using hashes_of_in [OF con] by auto
  qed
  have nodes: "node_hashes (ix_rpc (w_indexer w)) ?hash ?start ?last"
    unfolding node_hashes_def rpc
  proof (intro allI impI)
    fix h n assume "?start \<le> h" "h \<le> ?last"
    then obtain b where "b \<in> set bs" "bu_height b = h" "hashes_of bs h = Some (bu_hash b)" using at by blast
    then show "\<exists>n'. get_block_hash rpc (as_u64 h) n = (Ok (?hash h), n')"
      using R unfolding sync_ready_def serves_block_def by (metis option.sel)
  qed
  have stored: "stored_hashes C (storage_wire C K D) (w_storage w) ?hash ?start ?last"
    unfolding stored_hashes_def
  proof (intro allI impI)
    fix h assume h: "?start \<le> h" "h \<le> ?last"
    then obtain b where b: "b \<in> set bs" "bu_height b = h" "hashes_of bs h = Some (bu_hash b)" using at by blast
    then have "chain (w_storage w) h = Some (bu_hash b)" using S h pos last(1) by (simp add: synced_def)
    moreover have "codec_ok C" "fits C (GetBlockHash h)" "fits C (BlockHashResponse (bu_hash b))" "reply_fault K = None"
      using R b(1,2) by (auto simp: sync_ready_def fits_block_def)
    ultimately show "transport_get_block_hash C (storage_wire C K D) h (w_storage w) = (Ok (?hash h), w_storage w)"
      using stored_hash_served [OF H] S h(1) pos(1) b(3) by (simp add: synced_def)
  qed
  have "?last < 2147483648" using last A by (simp add: chain_above_def)
  from check_for_reorg_stable [OF T(1) [folded rpc] nodes stored this] show ?thesis by simp
qed

text \<open>The next blocks, delivered.\<close>

lemma blocks_advance:
  assumes H: "healthy" and A: "chain_above h0 L bs" and S: "synced view chain inv hash_fresh h0 L bs j w"
    and j: "j + k \<le> length bs"
  defines "bs' \<equiv> take k (drop j bs)"
  shows "consecutive (h0 + int j) bs'" and "distinct (map bu_hash bs')" and "set bs' \<subseteq> set bs" and "length bs' = k"
    and "wf_chain (view (w_storage w)) (map changes_of bs')"
    and "\<forall>b \<in> set bs'. hash_fresh (bu_height b) (bu_hash b) (w_storage w)"
    and "synced view chain inv hash_fresh h0 L bs (j + k)
      (set_last (h0 + int (j + k)) (w\<lparr>w_storage := deliver_blocks D bs' (w_storage w)\<rparr>))"
proof -
  let ?s = "w_storage w" and ?done = "take j bs" and ?rest = "drop k (drop j bs)"
  have split: "bs = ?done @ bs' @ ?rest" "take (j + k) bs = ?done @ bs'"
    unfolding bs'_def append_take_drop_id by (simp_all only: append_take_drop_id take_add)
  have con: "consecutive h0 bs" and dist: "distinct (map bu_hash bs)" and wf: "wf_chain L (map changes_of bs)"
    using A by (simp_all add: chain_above_def)
  show c: "consecutive (h0 + int j) bs'"
    unfolding bs'_def using con j by (intro consecutive_take consecutive_drop) auto
  have "distinct (map bu_hash (?done @ bs' @ ?rest))" using dist split(1) by simp
  then have dr: "distinct (map bu_hash bs')" "bu_hash ` set bs' \<inter> bu_hash ` set ?rest = {}"
    by (auto simp del: append_take_drop_id)
  show d: "distinct (map bu_hash bs')" by (rule dr(1))
  show sub: "set bs' \<subseteq> set bs" using split(1) by (metis Un_iff set_append subsetI)
  show len: "length bs' = k" using j by (simp add: bs'_def)
  have v: "view ?s = ledger_run (map changes_of ?done) L" and I: "inv ?s"
    and fresh: "\<forall>b \<in> set (drop j bs). hash_fresh (bu_height b) (bu_hash b) ?s"
    and ch: "\<forall>i. h0 < i \<longrightarrow> i \<le> h0 + int j \<longrightarrow> chain ?s i = hashes_of bs i"
    using S by (simp_all add: synced_def)
  have "wf_chain L (map changes_of ?done @ map changes_of bs' @ map changes_of ?rest)"
    using wf split(1) by (metis map_append)
  then show w: "wf_chain (view ?s) (map changes_of bs')" by (simp add: wf_chain_append v)
  have dj: "drop j bs = bs' @ ?rest" unfolding bs'_def by (simp only: append_take_drop_id)
  show f: "\<forall>b \<in> set bs'. hash_fresh (bu_height b) (bu_hash b) ?s" using fresh dj by auto
  let ?t = "deliver_blocks D bs' ?s"
  have t: "inv ?t" "view ?t = ledger_run (map changes_of bs') (view ?s)" "chain ?t = chain ?s ++ hashes_of bs'"
    and keep: "\<forall>i x. hash_fresh i x ?s \<longrightarrow> x \<notin> bu_hash ` set bs' \<longrightarrow> hash_fresh i x ?t"
    using deliver_blocks_facts [OF H I w d f c] by auto
  have "chain ?t i = hashes_of bs i" if i: "h0 < i" "i \<le> h0 + int (j + k)" for i
  proof (cases "i \<le> h0 + int j")
    case True
    then have "hashes_of bs' i = None" using hashes_of_None [OF c] by simp
    then show ?thesis using ch i(1) True by (simp add: t(3) map_add_def)
  next
    case False
    then obtain b where b: "b \<in> set bs'" "bu_height b = i"
      using consecutive_at [OF c, of i] i len by auto
    then have "hashes_of bs' i = Some (bu_hash b)" "hashes_of bs i = Some (bu_hash b)"
      using hashes_of_in [OF c] hashes_of_in [OF con] sub by auto
    then show ?thesis by (simp add: t(3))
  qed
  moreover have "\<forall>b \<in> set ?rest. hash_fresh (bu_height b) (bu_hash b) ?t"
  proof
    fix b assume b: "b \<in> set ?rest"
    then have "b \<in> set (drop j bs)" by (rule in_set_dropD)
    moreover have "bu_hash b \<notin> bu_hash ` set bs'" using dr(2) b by blast
    ultimately show "hash_fresh (bu_height b) (bu_hash b) ?t" using fresh keep by blast
  qed
  moreover have "view ?t = ledger_run (map changes_of (take (j + k) bs)) L"
    by (simp add: t(2) v split(2) ledger_run_def)
  ultimately show "synced view chain inv hash_fresh h0 L bs (j + k)
      (set_last (h0 + int (j + k)) (w\<lparr>w_storage := ?t\<rparr>))"
    using t(1) j by (simp add: synced_def add.commute)
qed

lemma synced_eq:
  "last_height w' = last_height w \<Longrightarrow> w_storage w' = w_storage w \<Longrightarrow>
   synced view chain inv hash_fresh h0 L bs j w' = synced view chain inv hash_fresh h0 L bs j w"
  by (simp add: synced_def)

lemma synced_storage:
  "synced view chain inv hash_fresh h0 L bs j w \<Longrightarrow> inv s' \<Longrightarrow> view s' = view (w_storage w) \<Longrightarrow>
   chain s' = chain (w_storage w) \<Longrightarrow> (\<forall>i x. hash_fresh i x (w_storage w) \<longrightarrow> hash_fresh i x s') \<Longrightarrow>
   synced view chain inv hash_fresh h0 L bs j (w\<lparr>w_storage := s'\<rparr>)"
  by (simp add: synced_def)

lemma send_new_syncs:
  assumes H: "healthy" and R: "sync_ready I C K content f rpc N W bs" and A: "chain_above h0 L bs"
    and F: "fits C (UpdateFinalityStatus (h0 + int (length bs)))"
    and cf: "configured content f rpc N W w" and S: "synced view chain inv hash_fresh h0 L bs j w"
    and j: "j < length bs"
  shows "\<exists>k w' j'. send_new_blocks I C (storage_wire C K D) (h0 + int (length bs)) w = (Ok k, w')
     \<and> configured content f rpc N W w' \<and> synced view chain inv hash_fresh h0 L bs j' w' \<and> j < j'"
proof -
  let ?t = "h0 + int (length bs)" and ?lim = "batch_limit (w_indexer w)"
  define k where "k = nat (min (int (length bs) - int j) ?lim)"
  have last: "last_height w = h0 + int j" using S by (simp add: synced_def)
  have small: "- 1 \<le> h0" "?t < 2147483647" using A by (simp_all add: chain_above_def)
  have lim: "1 \<le> ?lim" using cf by (simp add: configured_def)
  have k: "0 < k" "j + k \<le> length bs" and kint: "int k = min (int (length bs) - int j) ?lim"
    using j lim by (auto simp: k_def min_def)
  have "wrap_i32 (?t - last_height w) = int (length bs) - int j"
    using small j last by (subst wrap_i32_id) (auto simp: in_i32_def)
  then have blocks: "min (wrap_i32 (?t - last_height w)) ?lim = int k" by (simp add: kint)
  have to: "wrap_i32 (h0 + int j + int k) = h0 + int (j + k)"
    using small k by (subst wrap_i32_id) (auto simp: in_i32_def)
  let ?bs' = "take k (drop j bs)"
  note adv = blocks_advance [OF H A S k(2)]
  have heights: "map bu_height ?bs' = [h0 + int j + 1..h0 + int (j + k)]"
    using consecutive_map [OF adv(1)] unfolding adv(4) by (simp add: add.assoc)
  have "sync_ready I C K content f rpc N W ?bs'" using R adv(3) by (auto simp: sync_ready_def)
  then obtain c' n' where sent: "send_heights I C (storage_wire C K D) (map bu_height ?bs') w
      = (Ok (), with_parts c' n' (deliver_blocks D ?bs' (w_storage w)) w)" and c': "cache_sound content f c'"
    using send_heights_delivers [OF H _ cf _ adv(5,2,6,1)] S unfolding synced_def by blast
  let ?w3 = "set_last (h0 + int (j + k)) (with_parts c' n' (deliver_blocks D ?bs' (w_storage w)) w)"
  have S3: "synced view chain inv hash_fresh h0 L bs (j + k) ?w3"
    using adv(7) by (subst synced_eq [of _ "set_last (h0 + int (j + k)) (w\<lparr>w_storage := deliver_blocks D ?bs' (w_storage w)\<rparr>)"])
      (simp_all add: set_last_def)
  have "codec_ok C" using R by (simp add: sync_ready_def)
  moreover have "inv (w_storage ?w3)" using S3 by (simp add: synced_def)
  ultimately obtain s' where s': "send_finality C (storage_wire C K D) ?t ?w3 = (Ok (), ?w3\<lparr>w_storage := s'\<rparr>)" "inv s'"
     "view s' = view (w_storage ?w3)" "chain s' = chain (w_storage ?w3)"
     "\<forall>i x. hash_fresh i x (w_storage ?w3) \<longrightarrow> hash_fresh i x s'"
    using finality_delivered [OF H _ _ F] by blast
  have "send_new_blocks I C (storage_wire C K D) ?t w = (Ok (int k), ?w3\<lparr>w_storage := s'\<rparr>)"
    using k(1) blocks sent [unfolded heights] s'(1) by (simp add: send_new_blocks_def last to Let_def)
  moreover have "configured content f rpc N W (?w3\<lparr>w_storage := s'\<rparr>)"
    using cf c' by simp
  ultimately show ?thesis using synced_storage [OF S3 s'(2-5)] k(1) by (intro exI conjI) auto
qed

lemma cycle_syncs:
  assumes H: "healthy" and R: "sync_ready I C K content f rpc N W bs" and A: "chain_above h0 L bs"
    and T: "node_count rpc tip" "as_i32 tip = h0 + int (length bs)"
    and F: "fits C (UpdateFinalityStatus (as_i32 tip))"
    and cf: "configured content f rpc N W w" and S: "synced view chain inv hash_fresh h0 L bs j w"
  shows "\<exists>k w' j'. process_new_blocks I C (storage_wire C K D) w = (Ok k, w') \<and> configured content f rpc N W w'
     \<and> synced view chain inv hash_fresh h0 L bs j' w' \<and> min (length bs) (Suc j) \<le> j'"
proof -
  have rpc: "ix_rpc (w_indexer w) = rpc" using cf by (simp add: configured_def)
  have last: "last_height w = h0 + int j" "j \<le> length bs" using S by (simp_all add: synced_def)
  obtain n1 where c: "ask_node get_block_count w = (Ok tip, w\<lparr>w_node := n1\<rparr>)"
    using ask_count T(1) rpc by metis
  show ?thesis
  proof (cases "j = length bs")
    case True
    then have "process_new_blocks I C (storage_wire C K D) w = (Ok 0, w\<lparr>w_node := n1\<rparr>)"
      using c last T(2) by (simp add: process_new_blocks_def)
    then show ?thesis using cf S True by (intro exI [of _ 0] exI [of _ "w\<lparr>w_node := n1\<rparr>"] exI [of _ j]) simp
  next
    case False
    then have j: "j < length bs" using last(2) by simp
    obtain n2 where "check_for_reorg C (storage_wire C K D) (w\<lparr>w_node := n1\<rparr>) = (Ok False, w\<lparr>w_node := n1\<rparr>\<lparr>w_node := n2\<rparr>)"
      using no_reorg [OF H R A T, of "w\<lparr>w_node := n1\<rparr>" j] cf S by auto
    then have "process_new_blocks I C (storage_wire C K D) w
        = send_new_blocks I C (storage_wire C K D) (h0 + int (length bs)) (w\<lparr>w_node := n2\<rparr>)"
      using c last(1) j T(2) by (simp add: process_new_blocks_def)
    then show ?thesis
      using send_new_syncs [OF H R A F [unfolded T(2)], of "w\<lparr>w_node := n2\<rparr>" j] cf S j
      by (simp add: Suc_le_eq min.coboundedI2)
  qed
qed

lemma run_syncs:
  assumes H: "healthy" and R: "sync_ready I C K content f rpc N W bs" and A: "chain_above h0 L bs"
    and T: "node_count rpc tip" "as_i32 tip = h0 + int (length bs)"
    and F: "fits C (UpdateFinalityStatus (as_i32 tip))" and P: "\<forall>n s. snd (pause (n, s)) = s"
    and "configured content f rpc N W w" and "synced view chain inv hash_fresh h0 L bs j w"
    and "length bs \<le> j + n"
  shows "synced view chain inv hash_fresh h0 L bs (length bs) (run_cycles I C (storage_wire C K D) pause n w)"
  using assms(8-)
proof (induction n arbitrary: w j)
  case 0
  then have "j = length bs" by (simp add: synced_def)
  with 0 show ?case by simp
next
  case (Suc n)
  obtain k w' j' where c: "process_new_blocks I C (storage_wire C K D) w = (Ok k, w')" "configured content f rpc N W w'"
     "synced view chain inv hash_fresh h0 L bs j' w'" "min (length bs) (Suc j) \<le> j'"
    using cycle_syncs [OF H R A T F Suc.prems(1,2)] by blast
  obtain n' where p: "pause (w_node w', w_storage w') = (n', w_storage w')"
    using P by (metis prod.collapse)
  have "run_cycles I C (storage_wire C K D) pause (Suc n) w = run_cycles I C (storage_wire C K D) pause n (w'\<lparr>w_node := n'\<rparr>)"
    using c(1) p by (simp add: with_parts_def)
  moreover have "length bs \<le> j' + n" using c(4) Suc.prems(3) by auto
  ultimately show ?case using Suc.IH [of "w'\<lparr>w_node := n'\<rparr>" j'] c(2,3) by simp
qed

end

end
