(* ===== verification/System_Safety.thy ===== *)
theory System_Safety
  imports System
begin

text \<open>
  What the two services promise together: the loop brings a chain into the ledger and reaches
  the node's tip, a fork of up to five blocks is detected and rolled back, a deeper one leaves
  stale blocks, and an indexer started close to the tip falls back below its start height.  Each statement comes with an instance.
\<close>

section \<open>A codec from a list of messages\<close>

definition listed_codec :: "network_message list \<Rightarrow> codec" where
  "listed_codec ms =
     \<lparr>serialize = (\<lambda>m. case find (\<lambda>i. ms ! i = m) [0..<min 256 (length ms)] of
         Some i \<Rightarrow> Ok [char_of i] | None \<Rightarrow> Err ''unlisted''),
      deserialize = (\<lambda>d. case d of [c] \<Rightarrow> if of_char c < length ms then Ok (ms ! of_char c) else Err ''unlisted''
        | _ \<Rightarrow> Err ''unlisted'')\<rparr>"

lemma listed_codec_ok [simp]: "codec_ok (listed_codec ms)"
  unfolding codec_ok_def
proof (intro allI impI)
  fix m d assume "serialize (listed_codec ms) m = Ok d"
  then obtain i where i: "find (\<lambda>i. ms ! i = m) [0..<min 256 (length ms)] = Some i" and d: "d = [char_of i]"
    by (auto simp: listed_codec_def split: option.splits)
  from i have "i < 256" "i < length ms" "ms ! i = m" by (auto simp: find_Some_iff)
  then show "deserialize (listed_codec ms) d = Ok m" by (simp add: listed_codec_def d)
qed

lemma listed_codec_fits:
  assumes "m \<in> set ms" and "length ms \<le> 256"
  shows "fits (listed_codec ms) m"
proof -
  let ?look = "find (\<lambda>i. ms ! i = m) [0..<min 256 (length ms)]"
  obtain i where i: "i < length ms" "ms ! i = m" using assms(1) by (auto simp: in_set_conv_nth)
  then have "i \<in> set [0..<min 256 (length ms)]" using assms(2) by simp
  with i(2) have "?look \<noteq> None" unfolding find_None_iff by blast
  then obtain k where "?look = Some k" by blast
  then have "serialize (listed_codec ms) m = Ok [char_of k]" by (simp only: listed_codec_def codec.select_convs option.case)
  then show ?thesis by (simp add: fits_def)
qed

definition block_messages :: "block_update \<Rightarrow> network_message list" where
  "block_messages u = [BlockUpdate u, BlockProcessedAck (bu_height u), GetBlockHash (bu_height u), BlockHashResponse (bu_hash u)]"

lemma listed_codec_fits_block:
  assumes "u \<in> set bs" and "length (concat (map block_messages bs) @ ms) \<le> 256"
  shows "fits_block (listed_codec (concat (map block_messages bs) @ ms)) u"
proof -
  have "fits (listed_codec (concat (map block_messages bs) @ ms)) m" if "m \<in> set (block_messages u)" for m
    using assms(1) that by (intro listed_codec_fits [OF _ assms(2)]) auto
  then show ?thesis unfolding fits_block_def block_messages_def by simp
qed

section \<open>A chain of six blocks\<close>

text \<open>Its first block pays \<^verbatim>\<open>alice\<close>; the node has no other transactions.\<close>

definition pays_alice :: transaction where
  "pays_alice = \<lparr>tx_version = 2, lock_time = 0, tx_input = [], tx_output = [\<lparr>txo_value = 50, script_pubkey = ''alice''\<rparr>]\<rparr>"

definition node_block :: "string \<Rightarrow> block" where
  "node_block x = \<lparr>header_time = 5, txdata = (if x = ''a'' then [pays_alice] else [])\<rparr>"

definition chain_hash :: "u64 \<Rightarrow> string" where
  "chain_hash h = [char_of (96 + h)]"

definition chain_node :: "unit core_client" where
  "chain_node =
     \<lparr>core_block_count = (\<lambda>n. (Ok 6, n)), core_block_hash = (\<lambda>h n. (Ok (chain_hash h), n)),
      core_block = (\<lambda>b n. (Ok (node_block b), n)), core_block_info = (\<lambda>b n. (Ok (of_char (hd b) - 96), n)),
      core_tx_out = (\<lambda>t v b n. (Ok None, n)), core_raw_transaction = (\<lambda>t b n. (Err ''none'', n))\<rparr>"

definition chain_block :: "i32 \<Rightarrow> block_update" where
  "chain_block h = \<lparr>bu_height = h, bu_hash = chain_hash h, bu_timestamp = 5,
     utxo_updates = block_updates small_lib Regtest {''alice''} Map.empty h 5 (node_block (chain_hash h))\<rparr>"

definition six_blocks :: "block_update list" where
  "six_blocks = map chain_block [1, 2, 3, 4, 5, 6]"

definition six_codec :: codec where
  "six_codec = listed_codec (concat (map block_messages six_blocks) @ [UpdateFinalityStatus 6])"

definition fresh_world :: "(string, unit, lru, sqlite_db) world" where
  "fresh_world = \<lparr>w_indexer = (small_indexer (Core chain_node))\<lparr>ix_watched := {''alice''}\<rparr>, w_node = (), w_storage = sqlite_empty\<rparr>"

lemma chain_block_sel [simp]: "bu_height (chain_block h) = h" "bu_hash (chain_block h) = chain_hash h"
  by (simp_all add: chain_block_def)

lemma chain_block_first:
  "utxo_updates (chain_block 1) = [\<lparr>utxo_id = ''-alice:0'', address = ''alice'', public_key = None, txid = ''-alice'',
     vout = 0, amount = 50, script_pub_key = ''alice'', script_type = ''P2WPKH'', created_at = 5, block_height = 1,
     spent_txid = None, spent_at = None, spent_block = None\<rparr>]"
  by code_simp

lemma chain_block_empty:
  "chain_hash h \<noteq> ''a'' \<Longrightarrow> utxo_updates (chain_block h) = []"
  by (simp add: chain_block_def node_block_def block_updates_def process_transaction_chunk_def)

lemma six_hashes: "map chain_hash [1, 2, 3, 4, 5, 6] = [''a'', ''b'', ''c'', ''d'', ''e'', ''f'']"
  by code_simp

lemma six_served:
  assumes "u \<in> set six_blocks"
  shows "serves_block small_ix_env (Core chain_node) Regtest {''alice''} Map.empty u"
proof -
  obtain h where u: "u = chain_block h" and h: "h \<in> {1, 2, 3, 4, 5, 6}" using assms by (auto simp: six_blocks_def)
  have "as_u64 h = h" "as_i32 (of_char (hd (chain_hash h)) - 96) = h"
    using h by (auto simp: as_u64_def chain_hash_def wrap_i32_def)
  then show ?thesis
    unfolding serves_block_def u
    by (auto simp: chain_node_def core_call_def small_ix_env_def inputs_known_def node_block_def chain_block_def
        intro!: exI [of _ "node_block (chain_hash h)"])
qed


lemma six_ready: "sync_ready small_ix_env six_codec small_conn lru_content Map.empty (Core chain_node) Regtest {''alice''} six_blocks"
proof -
  have n: "length (concat (map block_messages six_blocks) @ [UpdateFinalityStatus 6]) \<le> 256"
    by (simp add: six_blocks_def block_messages_def)
  have "tx_cache (ie_cache small_ix_env) lru_content"
    using lru.tx_cache_axioms by (simp add: small_ix_env_def)
  moreover have "serves_transactions (Core chain_node) Map.empty"
    by (simp add: chain_node_def)
  ultimately show ?thesis
    using six_served listed_codec_fits_block [OF _ n] unfolding sync_ready_def six_codec_def by simp
qed

lemma six_chain: "chain_above 0 Map.empty six_blocks"
proof -
  have s: "check_start 6 = 1" by (simp add: check_start_def wrap_i32_def FINALITY_CONFIRMATIONS_def)
  have d: "distinct (map bu_hash six_blocks)" by code_simp
  have k: "outpoint_key ''-alice'' 0 = ''-alice:0''" by code_simp
  have e: "changes_of (chain_block h) = \<lparr>pc_height = h, utxos_update = [], utxos_insert = []\<rparr>"
    if "h \<in> {2, 3, 4, 5, 6}" for h
    using that chain_block_empty [of h] six_hashes by (auto simp: changes_of_def)
  have "wf_chain Map.empty (map changes_of six_blocks)"
    by (simp add: six_blocks_def e wf_block_def wf_changes_def)
      (simp add: changes_of_def chain_block_first valid_utxo_def k)
  moreover have "consecutive 0 six_blocks" "length six_blocks = 6" by (simp_all add: six_blocks_def)
  ultimately show ?thesis using d s by (simp add: chain_above_def)
qed

section \<open>Reaching the tip\<close>

lemma fresh_world_sel [simp]:
  "last_height fresh_world = 0" "w_storage fresh_world = sqlite_empty" "ix_watched (w_indexer fresh_world) = {''alice''}"
  by (simp_all add: fresh_world_def small_indexer_def)

lemma six_length [simp]: "length six_blocks = 6"
  by (simp add: six_blocks_def)

lemma six_tip:
  "as_i32 6 = 6" "node_count (Core chain_node) 6" "fits six_codec (UpdateFinalityStatus 6)"
  "configured lru_content Map.empty (Core chain_node) Regtest {''alice''} fresh_world"
proof -
  show "node_count (Core chain_node) 6" by (simp add: node_count_def chain_node_def core_call_def)
  show "fits six_codec (UpdateFinalityStatus 6)"
    unfolding six_codec_def by (rule listed_codec_fits) (simp_all add: six_blocks_def block_messages_def)
  show "configured lru_content Map.empty (Core chain_node) Regtest {''alice''} fresh_world"
    by (simp add: configured_def fresh_world_def small_indexer_def batch_limit_def cache_sound_def lru_content_def)
qed (simp add: wrap_i32_def)

text \<open>
  C2. The loop reaches the tip.  The node serves a chain of blocks above the indexer's last
  processed height, whose blocks the store can take; the storage service runs over SQLite
  without faults; and the start is at least six blocks below the tip.  Then after as many
  cycles as there are blocks, whatever the batch limit, the client, the cache and the node's
  state, the indexer stands at the tip, the ledger of the storage service is the run of all
  the blocks' updates for the watched addresses, and its main chain has every block's hash.
\<close>

theorem sync_reaches_tip:
  assumes "sqlite_healthy E" and "sqlite_inv E (w_storage w)"
    and "sync_ready I C K content f rpc N W bs" and "chain_above (last_height w) (sqlite_view E (w_storage w)) bs"
    and "\<forall>b \<in> set bs. sqlite_hash_fresh (bu_height b) (bu_hash b) (w_storage w)"
    and "node_count rpc tip" and "as_i32 tip = last_height w + int (length bs)"
    and "fits C (UpdateFinalityStatus (as_i32 tip))" and "\<forall>n s. snd (pause (n, s)) = s"
    and "configured content f rpc N W w" and "length bs \<le> n"
  shows "let w' = run_cycles I C (storage_wire C K (sqlite_ds E)) pause n w
     in last_height w' = as_i32 tip
      \<and> sqlite_view E (w_storage w') = ledger_run (map changes_of bs) (sqlite_view E (w_storage w))
      \<and> (\<forall>b \<in> set bs. sqlite_chain (w_storage w') (bu_height b) = Some (bu_hash b))"
proof -
  let ?h0 = "last_height w"
  have "synced (sqlite_view E) sqlite_chain (sqlite_inv E) sqlite_hash_fresh ?h0 (sqlite_view E (w_storage w)) bs 0 w"
    using assms(2,5) by (simp add: synced_def ledger_run_def)
  from sq.run_syncs [OF assms(1,3,4,6,7,8,9,10) this] assms(11)
  have S: "synced (sqlite_view E) sqlite_chain (sqlite_inv E) sqlite_hash_fresh ?h0 (sqlite_view E (w_storage w)) bs
      (length bs) (run_cycles I C (storage_wire C K (sqlite_ds E)) pause n w)" by simp
  have con: "consecutive ?h0 bs" using assms(4) by (simp add: chain_above_def)
  have "sqlite_chain (w_storage (run_cycles I C (storage_wire C K (sqlite_ds E)) pause n w)) (bu_height b) = Some (bu_hash b)"
    if "b \<in> set bs" for b
    using S consecutive_heights [OF con that] hashes_of_in [OF con that] by (simp add: synced_def)
  then show ?thesis using S assms(7) by (simp add: synced_def Let_def)
qed

theorem sync_reaches_tip_witness:
  "let w' = run_cycles small_ix_env six_codec (storage_wire six_codec small_conn (sqlite_ds plain_env)) id 6 fresh_world
   in last_height w' = 6
    \<and> sqlite_view plain_env (w_storage w') = ledger_run (map changes_of six_blocks) Map.empty
    \<and> sqlite_chain (w_storage w') 1 = Some ''a''"
proof -
  have one: "chain_block 1 \<in> set six_blocks" "chain_hash 1 = ''a''" using six_hashes by (simp_all add: six_blocks_def)
  have start: "as_i32 6 = last_height fresh_world + int (length six_blocks)" "fits six_codec (UpdateFinalityStatus (as_i32 6))"
    "chain_above (last_height fresh_world) (sqlite_view plain_env (w_storage fresh_world)) six_blocks"
    using six_tip six_chain by simp_all
  show ?thesis
    using sync_reaches_tip [OF plain_env_healthy _ six_ready start(3) _ six_tip(2) start(1,2) _ six_tip(4), of id 6] one
    by (auto simp: six_tip(1) Let_def)
qed

section \<open>A fork\<close>

text \<open>
  The check itself: when the stored hashes agree with the node's in the window up to \<open>h\<close> and
  differ at \<open>h + 1\<close>, it rolls the delivered blocks \<open>cs\<close> back and continues after \<open>h\<close>.
\<close>

lemma check_rolls_back:
  fixes h :: i32
  assumes E: "sqlite_healthy E" "sqlite_inv E p" and C: "codec_ok C" "reply_fault K = None"
    and cs: "wf_chain (sqlite_view E p) (map changes_of cs)" "distinct (map bu_hash cs)"
      "\<forall>b \<in> set cs. sqlite_hash_fresh (bu_height b) (bu_hash b) p" "consecutive h cs" "cs \<noteq> []" "length cs \<le> 6"
    and h: "0 \<le> h" "h + int (length cs) < 2147483648" "ledger_upto h (sqlite_view E p)" "dom (sqlite_chain p) \<subseteq> {..h}"
    and w: "w_storage w = deliver_blocks (sqlite_ds E) cs p" "last_height w = h + int (length cs)"
    and node: "node_count (ix_rpc (w_indexer w)) tip" "node_hashes (ix_rpc (w_indexer w)) hash (check_start (as_i32 tip)) (last_height w)"
    and win: "0 < check_start (as_i32 tip)" "check_start (as_i32 tip) \<le> h + 1"
      "\<forall>i. check_start (as_i32 tip) \<le> i \<longrightarrow> i \<le> h \<longrightarrow> sqlite_chain p i = Some (hash i)"
      "\<forall>b \<in> set cs. bu_height b = h + 1 \<longrightarrow> bu_hash b \<noteq> hash (h + 1)"
    and fit: "fits C (ReorgEvent h)" "\<forall>i. check_start (as_i32 tip) \<le> i \<longrightarrow> i \<le> last_height w \<longrightarrow> fits C (GetBlockHash i)"
      "\<forall>i x. sqlite_chain (w_storage w) i = Some x \<longrightarrow> fits C (BlockHashResponse x)"
  shows "\<exists>n' s'. check_for_reorg C (storage_wire C K (sqlite_ds E)) w
         = (Ok True, set_last h (w\<lparr>w_node := n', w_storage := s'\<rparr>))
     \<and> sqlite_inv E s' \<and> sqlite_view E s' = sqlite_view E p \<and> sqlite_chain s' = sqlite_chain p"
proof -
  let ?start = "check_start (as_i32 tip)" and ?s = "deliver_blocks (sqlite_ds E) cs p"
  let ?stored = "\<lambda>i. the (sqlite_chain ?s i)"
  have s: "sqlite_inv E ?s" "sqlite_chain ?s = sqlite_chain p ++ hashes_of cs"
    using sq.deliver_blocks_refines [OF E cs(1,2,3,4)] by auto
  have low: "sqlite_chain ?s i = sqlite_chain p i" if "i \<le> h" for i
    using that hashes_of_None [OF cs(4), of i] by (simp add: s(2) map_add_def)
  have high: "\<exists>b \<in> set cs. bu_height b = i \<and> sqlite_chain ?s i = Some (bu_hash b)" if i: "h < i" "i \<le> h + int (length cs)" for i
  proof -
    obtain b where "b \<in> set cs" "bu_height b = i" using consecutive_at [OF cs(4) i] .
    then show ?thesis using hashes_of_in [OF cs(4)] by (auto simp: s(2))
  qed
  have stored: "stored_hashes C (storage_wire C K (sqlite_ds E)) (w_storage w) ?stored ?start (last_height w)"
    unfolding stored_hashes_def
  proof (intro allI impI)
    fix i assume i: "?start \<le> i" "i \<le> last_height w"
    have "sqlite_chain ?s i = Some (?stored i)"
      using i win(3) low [of i] high [of i] w(2) by (cases "i \<le> h") auto
    then show "transport_get_block_hash C (storage_wire C K (sqlite_ds E)) i (w_storage w) = (Ok (?stored i), w_storage w)"
      using sq.stored_hash_served [OF E(1) s(1) _ _ C(1) _ _ C(2), of i] i(1) win(1) i fit(2,3) w(1) by auto
  qed
  have "h + 1 \<le> h + int (length cs)" using cs(5) by (cases cs) auto
  then have differ: "hash (h + 1) \<noteq> ?stored (h + 1)" using high [of "h + 1"] win(4) by auto
  have agree: "hash i = ?stored i" if "?start \<le> i" "i < h + 1" for i
    using that win(3) low by simp
  have top: "h + 1 \<le> last_height w" using w(2) cs(5) by (cases cs) auto
  have "last_height w < 2147483648" using w(2) h(2) by simp
  from check_for_reorg_stable [OF node stored this] top win(2) differ obtain n' m where
    m: "?start \<le> m" "m \<le> last_height w" "hash m \<noteq> ?stored m" "\<forall>i. ?start \<le> i \<longrightarrow> i < m \<longrightarrow> hash i = ?stored i"
    and run: "check_for_reorg C (storage_wire C K (sqlite_ds E)) w
        = then_do (ask_storage (send_reorg_event C (storage_wire C K (sqlite_ds E)) (m - 1)))
            (\<lambda>_ w'. (Ok True, set_last (m - 1) w')) (w\<lparr>w_node := n'\<rparr>)"
    by (auto split: if_splits)
  have "m = h + 1" using m(1,3,4) differ agree win(2) by (metis linorder_neqE)
  obtain s' where s': "handle_message (sqlite_ds E) (ReorgEvent h) ?s = (Ok None, s')" "sqlite_inv E s'"
    "sqlite_view E s' = sqlite_view E p" "sqlite_chain s' = sqlite_chain p"
    using sq.reorg_round_trip [OF E cs(1-4) h(3,4,1) cs(6) h(2) _ cs(5)]
      sqlite_delivered_latest [OF E cs(1-4) h(4) cs(5)] by auto
  have "notify C (storage_wire C K (sqlite_ds E)) (ReorgEvent h) ?s = (Ok (), s')"
    by (rule notify_storage [OF C(1) fit(1) s'(1)])
  then have "ask_storage (send_reorg_event C (storage_wire C K (sqlite_ds E)) h) (w\<lparr>w_node := n'\<rparr>)
      = (Ok (), w\<lparr>w_node := n', w_storage := s'\<rparr>)"
    by (simp add: ask_storage_def send_reorg_event_def w(1))
  then have "check_for_reorg C (storage_wire C K (sqlite_ds E)) w = (Ok True, set_last h (w\<lparr>w_node := n', w_storage := s'\<rparr>))"
    using run \<open>m = h + 1\<close> by simp
  then show ?thesis using s'(2-4) by blast
qed

lemma check_start_tip:
  assumes "6 \<le> as_i32 tip"
  shows "check_start (as_i32 tip) = as_i32 tip - 5"
  using assms in_i32_wrap [of tip] by (simp add: check_start_def FINALITY_CONFIRMATIONS_def wrap_i32_id in_i32_def)

lemma cycle_rolls_back:
  assumes "node_count (ix_rpc (w_indexer w)) tip" and "last_height w < as_i32 tip"
    and "\<And>n. \<exists>n' s'. check_for_reorg C W (w\<lparr>w_node := n\<rparr>)
        = (Ok True, set_last k (w\<lparr>w_node := n', w_storage := s'\<rparr>)) \<and> P s'"
  shows "\<exists>n' s'. process_new_blocks I C W w = (Ok 0, set_last k (w\<lparr>w_node := n', w_storage := s'\<rparr>)) \<and> P s'"
proof -
  obtain n where c: "ask_node get_block_count w = (Ok tip, w\<lparr>w_node := n\<rparr>)" using ask_count [OF assms(1)] .
  obtain n' s' where "check_for_reorg C W (w\<lparr>w_node := n\<rparr>) = (Ok True, set_last k (w\<lparr>w_node := n', w_storage := s'\<rparr>))" "P s'"
    using assms(3) [of n] by blast
  with c assms(2) show ?thesis by (intro exI [of _ n'] exI [of _ s']) (simp add: process_new_blocks_def)
qed

text \<open>
  C3. A fork of up to five blocks is rolled back.  The storage service holds the state \<open>p\<close> for
  the blocks up to height \<open>h\<close>, and on top of it the blocks \<open>cs\<close> the indexer delivered; the
  node's tip is above the last of them and at most \<open>h + 6\<close>, so there are at most five.  In the
  six latest heights of the node's chain it answers the hashes of \<open>p\<close> up to \<open>h\<close> and another hash
  at \<open>h + 1\<close>.  Then the next cycle ends with the indexer after \<open>h\<close>, and every output record and
  main-chain hash of the storage service is the one of \<open>p\<close> again.
\<close>

theorem fork_rolled_back:
  fixes h :: i32
  assumes E: "sqlite_healthy E" "sqlite_inv E p" and C: "codec_ok C" "reply_fault K = None"
    and cs: "wf_chain (sqlite_view E p) (map changes_of cs)" "distinct (map bu_hash cs)"
      "\<forall>b \<in> set cs. sqlite_hash_fresh (bu_height b) (bu_hash b) p" "consecutive h cs" "cs \<noteq> []"
    and h: "0 \<le> h" "ledger_upto h (sqlite_view E p)" "dom (sqlite_chain p) \<subseteq> {..h}"
    and w: "w_storage w = deliver_blocks (sqlite_ds E) cs p" "last_height w = h + int (length cs)"
    and node: "node_count (ix_rpc (w_indexer w)) tip" "node_hashes (ix_rpc (w_indexer w)) hash (as_i32 tip - 5) (last_height w)"
    and tip: "last_height w < as_i32 tip" "as_i32 tip \<le> h + 6" "6 \<le> as_i32 tip"
    and win: "\<forall>i. as_i32 tip - 5 \<le> i \<longrightarrow> i \<le> h \<longrightarrow> sqlite_chain p i = Some (hash i)"
      "\<forall>b \<in> set cs. bu_height b = h + 1 \<longrightarrow> bu_hash b \<noteq> hash (h + 1)"
    and fit: "fits C (ReorgEvent h)" "\<forall>i. as_i32 tip - 5 \<le> i \<longrightarrow> i \<le> last_height w \<longrightarrow> fits C (GetBlockHash i)"
      "\<forall>i x. sqlite_chain (w_storage w) i = Some x \<longrightarrow> fits C (BlockHashResponse x)"
  shows "\<exists>w'. process_new_blocks I C (storage_wire C K (sqlite_ds E)) w = (Ok 0, w') \<and> last_height w' = h
     \<and> sqlite_inv E (w_storage w') \<and> sqlite_view E (w_storage w') = sqlite_view E p
     \<and> sqlite_chain (w_storage w') = sqlite_chain p"
proof -
  have start: "check_start (as_i32 tip) = as_i32 tip - 5" using tip(3) by (rule check_start_tip)
  have len: "length cs \<le> 6" "h + int (length cs) < 2147483648"
    using tip(1,2) w(2) in_i32_wrap [of tip] by (auto simp: in_i32_def)
  have "\<exists>n' s'. check_for_reorg C (storage_wire C K (sqlite_ds E)) (w\<lparr>w_node := n\<rparr>)
         = (Ok True, set_last h (w\<lparr>w_node := n', w_storage := s'\<rparr>))
     \<and> (sqlite_inv E s' \<and> sqlite_view E s' = sqlite_view E p \<and> sqlite_chain s' = sqlite_chain p)" for n
    using check_rolls_back [OF E C cs len(1) h(1) len(2) h(2,3), of "w\<lparr>w_node := n\<rparr>" tip hash]
      w node tip win fit start by simp
  from cycle_rolls_back [OF node(1) tip(1) this, of I] show ?thesis by auto
qed

text \<open>The first five of the six blocks in the store, and a node on another chain with one block more.\<close>

definition fork_codec :: codec where
  "fork_codec = listed_codec (concat (map block_messages six_blocks) @ [ReorgEvent 0, ReorgEvent 1])"

definition fork_node :: "u64 \<Rightarrow> unit core_client" where
  "fork_node tip = still_core\<lparr>core_block_count := (\<lambda>n. (Ok tip, n))\<rparr>"

definition fork_world :: "nat \<Rightarrow> (string, unit, lru, sqlite_db) world" where
  "fork_world k = \<lparr>w_indexer = (small_indexer (Core (fork_node (int k + 1))))\<lparr>ix_last_processed_height := int k\<rparr>, w_node = (),
     w_storage = deliver_blocks (sqlite_ds plain_env) (take k six_blocks) sqlite_empty\<rparr>"

lemma fork_world_sel [simp]:
  "w_storage (fork_world k) = deliver_blocks (sqlite_ds plain_env) (take k six_blocks) sqlite_empty"
  "last_height (fork_world k) = int k" "ix_rpc (w_indexer (fork_world k)) = Core (fork_node (int k + 1))"
  by (simp_all add: fork_world_def small_indexer_def)

lemma fork_world_node:
  "node_count (Core (fork_node t)) t" "node_hashes (Core (fork_node t)) (\<lambda>_. ''n'') i j"
  by (simp_all add: node_count_def node_hashes_def fork_node_def still_core_def core_call_def)

lemma fork_codec_fits:
  "codec_ok fork_codec" "fits fork_codec (ReorgEvent 0)" "fits fork_codec (ReorgEvent 1)"
  "b \<in> set six_blocks \<Longrightarrow> fits_block fork_codec b"
proof -
  have n: "length (concat (map block_messages six_blocks) @ [ReorgEvent 0, ReorgEvent 1]) \<le> 256"
    by (simp add: six_blocks_def block_messages_def)
  show "codec_ok fork_codec" by (simp add: fork_codec_def)
  show "fits fork_codec (ReorgEvent 0)" "fits fork_codec (ReorgEvent 1)"
    unfolding fork_codec_def by (rule listed_codec_fits [OF _ n], simp)+
  show "b \<in> set six_blocks \<Longrightarrow> fits_block fork_codec b"
    unfolding fork_codec_def by (rule listed_codec_fits_block [OF _ n])
qed

lemma fork_fits_height:
  assumes "1 \<le> i" "i \<le> 6"
  shows "fits fork_codec (GetBlockHash i)"
proof -
  have "consecutive 0 six_blocks" using six_chain by (simp add: chain_above_def)
  then obtain b where "b \<in> set six_blocks" "bu_height b = i"
    using assms consecutive_at [of 0 six_blocks i] by auto
  then show ?thesis using fork_codec_fits(4) [of b] by (auto simp: fits_block_def)
qed

lemma fork_chain:
  "wf_chain Map.empty (map changes_of (take k six_blocks))" "distinct (map bu_hash (take k six_blocks))"
  "consecutive 0 (take k six_blocks)"
  "b \<in> set (take k six_blocks) \<Longrightarrow> bu_hash b \<noteq> ''n''"
proof -
  have "wf_chain Map.empty (map changes_of (take k six_blocks) @ map changes_of (drop k six_blocks))"
    using six_chain by (simp add: chain_above_def map_append [symmetric] del: map_append)
  then show "wf_chain Map.empty (map changes_of (take k six_blocks))" unfolding wf_chain_append by blast
  show "distinct (map bu_hash (take k six_blocks))"
    using six_chain by (simp add: chain_above_def take_map [symmetric])
  show "consecutive 0 (take k six_blocks)"
    using six_chain by (simp add: chain_above_def consecutive_take)
  assume "b \<in> set (take k six_blocks)"
  then have "bu_hash b \<in> set (map bu_hash six_blocks)" using in_set_takeD by fastforce
  moreover have "map bu_hash six_blocks = [''a'', ''b'', ''c'', ''d'', ''e'', ''f'']"
    using six_hashes by (simp add: six_blocks_def)
  ultimately show "bu_hash b \<noteq> ''n''" by auto
qed

lemma fork_world_chain:
  "sqlite_chain (w_storage (fork_world k)) = hashes_of (take k six_blocks)"
  "sqlite_chain (w_storage (fork_world k)) i = Some x \<Longrightarrow> fits fork_codec (BlockHashResponse x)"
proof -
  show c: "sqlite_chain (w_storage (fork_world k)) = hashes_of (take k six_blocks)"
    using sq.deliver_blocks_refines [OF plain_env_healthy sqlite_empty_inv _ fork_chain(2) _ fork_chain(3)] fork_chain(1) by simp
  show "sqlite_chain (w_storage (fork_world k)) i = Some x \<Longrightarrow> fits fork_codec (BlockHashResponse x)"
    unfolding c hashes_of_def using fork_codec_fits(4)
    by (fastforce simp: fits_block_def dest: map_of_SomeD in_set_takeD)
qed

theorem fork_rolled_back_witness:
  "\<exists>w'. process_new_blocks small_ix_env fork_codec (storage_wire fork_codec small_conn (sqlite_ds plain_env)) (fork_world 5)
       = (Ok 0, w')
     \<and> last_height w' = 0 \<and> sqlite_inv plain_env (w_storage w') \<and> sqlite_view plain_env (w_storage w') = Map.empty
     \<and> sqlite_chain (w_storage w') = Map.empty"
proof -
  have tip: "as_i32 (int 5 + 1) = 6" "as_i32 6 = 6" by (simp_all add: wrap_i32_def)
  have fit: "\<forall>i. as_i32 (int 5 + 1) - 5 \<le> i \<longrightarrow> i \<le> last_height (fork_world 5) \<longrightarrow> fits fork_codec (GetBlockHash i)"
    unfolding tip using fork_fits_height by simp
  have node: "node_count (ix_rpc (w_indexer (fork_world 5))) (int 5 + 1)"
    "node_hashes (ix_rpc (w_indexer (fork_world 5))) (\<lambda>_. ''n'') (as_i32 (int 5 + 1) - 5) (last_height (fork_world 5))"
    using fork_world_node [of "int 5 + 1"] by simp_all
  have ne: "take 5 six_blocks \<noteq> []" "length (take 5 six_blocks) = 5" by (simp_all add: six_blocks_def)
  show ?thesis
    using fork_rolled_back [OF plain_env_healthy sqlite_empty_inv fork_codec_fits(1) small_conn_reply _ fork_chain(2) _ fork_chain(3)
        ne(1) order_refl _ _ fork_world_sel(1) _ node _ _ _ _ _ fork_codec_fits(2) fit]
      fork_chain(1,4) fork_world_chain(2) ne(2) by (simp add: tip)
qed

text \<open>The first \<open>k\<close> of the delivered blocks, as a state of their own.\<close>

lemma deliver_prefix:
  assumes E: "sqlite_healthy E" "sqlite_inv E p"
    and cs: "wf_chain (sqlite_view E p) (map changes_of cs)" "distinct (map bu_hash cs)"
      "\<forall>b \<in> set cs. sqlite_hash_fresh (bu_height b) (bu_hash b) p" "consecutive h cs"
    and h: "ledger_upto h (sqlite_view E p)" "dom (sqlite_chain p) \<subseteq> {..h}" and k: "k \<le> length cs"
  defines "q \<equiv> deliver_blocks (sqlite_ds E) (take k cs) p"
  shows "sqlite_inv E q" and "sqlite_view E q = ledger_run (map changes_of (take k cs)) (sqlite_view E p)"
    and "sqlite_chain q = sqlite_chain p ++ hashes_of (take k cs)"
    and "wf_chain (sqlite_view E q) (map changes_of (drop k cs))" and "distinct (map bu_hash (drop k cs))"
    and "\<forall>b \<in> set (drop k cs). sqlite_hash_fresh (bu_height b) (bu_hash b) q"
    and "consecutive (h + int k) (drop k cs)" and "ledger_upto (h + int k) (sqlite_view E q)"
    and "dom (sqlite_chain q) \<subseteq> {..h + int k}"
    and "deliver_blocks (sqlite_ds E) cs p = deliver_blocks (sqlite_ds E) (drop k cs) q"
proof -
  have wf: "wf_chain (sqlite_view E p) (map changes_of (take k cs))"
    "wf_chain (ledger_run (map changes_of (take k cs)) (sqlite_view E p)) (map changes_of (drop k cs))"
    using cs(1) wf_chain_append [of _ "map changes_of (take k cs)" "map changes_of (drop k cs)"] by (simp_all flip: map_append)
  note con = consecutive_take [OF cs(4), of k]
  have dis: "distinct (map bu_hash (take k cs))" using cs(2) by (simp flip: take_map)
  have fresh: "\<forall>b \<in> set (take k cs). sqlite_hash_fresh (bu_height b) (bu_hash b) p"
    using cs(3) by (auto dest: in_set_takeD)
  show Q: "sqlite_inv E q" "sqlite_view E q = ledger_run (map changes_of (take k cs)) (sqlite_view E p)"
    "sqlite_chain q = sqlite_chain p ++ hashes_of (take k cs)"
    using sq.deliver_blocks_refines [OF E wf(1) dis fresh con] by (auto simp: q_def)
  show "wf_chain (sqlite_view E q) (map changes_of (drop k cs))" unfolding Q(2) by (rule wf(2))
  show "distinct (map bu_hash (drop k cs))" using cs(2) by (simp flip: drop_map)
  have "bu_hash b \<notin> bu_hash ` set (take k cs)" if "b \<in> set (drop k cs)" for b
  proof -
    have "distinct (map bu_hash (take k cs @ drop k cs))" using cs(2) by simp
    then show ?thesis using that unfolding map_append distinct_append by force
  qed
  then show "\<forall>b \<in> set (drop k cs). sqlite_hash_fresh (bu_height b) (bu_hash b) q"
    unfolding q_def using sq.deliver_blocks_fresh [OF E wf(1) dis bspec [OF fresh] con] cs(3) by (meson in_set_dropD)
  show "consecutive (h + int k) (drop k cs)" using consecutive_drop [OF cs(4) k] .
  show "ledger_upto (h + int k) (sqlite_view E q)"
    unfolding Q(2) using ledger_upto_run [OF ledger_upto_mono [OF h(1)] wf(1)] consecutive_heights [OF con] k
    by (force simp: changes_of_def)
  show "dom (sqlite_chain q) \<subseteq> {..h + int k}"
    using h(2) k dom_hashes_of [OF con] by (auto simp: Q(3))
  show "deliver_blocks (sqlite_ds E) cs p = deliver_blocks (sqlite_ds E) (drop k cs) q"
    unfolding q_def deliver_blocks_def by (metis append_take_drop_id comp_apply fold_append)
qed

text \<open>
  C4. A deeper fork leaves stale blocks.  With the tip at \<open>h + 7\<close> or above, and at most five
  above the last processed block, the window of the check starts above \<open>h + 1\<close>.  When the node
  answers other hashes than those of all the blocks \<open>cs\<close>, the cycle rolls the store back only to
  \<open>tip - 6\<close>: the updates of the blocks up to there stay in the ledger and their hashes in the
  main chain, although the node has others, and the check no longer looks at them.
\<close>

theorem deep_fork_keeps_stale:
  fixes h :: i32
  assumes E: "sqlite_healthy E" "sqlite_inv E p" and C: "codec_ok C" "reply_fault K = None"
    and cs: "wf_chain (sqlite_view E p) (map changes_of cs)" "distinct (map bu_hash cs)"
      "\<forall>b \<in> set cs. sqlite_hash_fresh (bu_height b) (bu_hash b) p" "consecutive h cs"
    and h: "0 \<le> h" "ledger_upto h (sqlite_view E p)" "dom (sqlite_chain p) \<subseteq> {..h}"
    and w: "w_storage w = deliver_blocks (sqlite_ds E) cs p" "last_height w = h + int (length cs)"
    and node: "node_count (ix_rpc (w_indexer w)) tip" "node_hashes (ix_rpc (w_indexer w)) hash (h + 1) (last_height w)"
    and tip: "last_height w < as_i32 tip" "h + 6 < as_i32 tip" "as_i32 tip - 5 \<le> last_height w"
    and stale: "\<forall>b \<in> set cs. bu_hash b \<noteq> hash (bu_height b)"
    and fit: "fits C (ReorgEvent (as_i32 tip - 6))" "\<forall>i. h < i \<longrightarrow> i \<le> last_height w \<longrightarrow> fits C (GetBlockHash i)"
      "\<forall>i x. sqlite_chain (w_storage w) i = Some x \<longrightarrow> fits C (BlockHashResponse x)"
  shows "\<exists>w'. process_new_blocks I C (storage_wire C K (sqlite_ds E)) w = (Ok 0, w') \<and> last_height w' = as_i32 tip - 6
     \<and> sqlite_view E (w_storage w') = ledger_run (map changes_of (take (nat (as_i32 tip - 6 - h)) cs)) (sqlite_view E p)
     \<and> (\<forall>i. h < i \<longrightarrow> i \<le> as_i32 tip - 6 \<longrightarrow> (\<exists>x. sqlite_chain (w_storage w') i = Some x \<and> x \<noteq> hash i))
     \<and> (\<exists>n. check_for_reorg C (storage_wire C K (sqlite_ds E)) w' = (Ok False, w'\<lparr>w_node := n\<rparr>))"
proof -
  let ?W = "storage_wire C K (sqlite_ds E)" and ?t = "as_i32 tip"
  define k where "k = nat (?t - 6 - h)"
  have k: "int k = ?t - 6 - h" "0 < k" "k < length cs" using tip w(2) by (simp_all add: k_def)
  let ?stale = "take k cs" and ?cs = "drop k cs"
  define q where "q = deliver_blocks (sqlite_ds E) ?stale p"
  have start: "check_start ?t = ?t - 5" using tip(2) h(1) by (intro check_start_tip) simp
  have bound: "?t < 2147483648" using in_i32_wrap [of tip] by (simp add: in_i32_def)
  have "k \<le> length cs" "h + int k = ?t - 6" using k by simp_all
  note Q = deliver_prefix [OF E cs h(2,3) this(1), folded q_def, unfolded this(2)]
  have last: "last_height w = ?t - 6 + int (length ?cs)" using k w(2) by simp
  have ne: "?cs \<noteq> []" using k by simp
  have six: "length ?cs \<le> 6" "?t - 6 + int (length ?cs) < 2147483648" using last tip(1) bound by simp_all
  have win: "\<forall>i. ?t - 5 \<le> i \<longrightarrow> i \<le> ?t - 6 \<longrightarrow> sqlite_chain q i = Some (hash i)"
    "\<forall>b \<in> set ?cs. bu_height b = ?t - 6 + 1 \<longrightarrow> bu_hash b \<noteq> hash (?t - 6 + 1)"
    using stale by simp (metis in_set_dropD stale)
  have nh: "node_hashes (ix_rpc (w_indexer w)) hash (?t - 5) (last_height w)"
    using node(2) tip(2) by (auto simp: node_hashes_def)
  have fits: "\<forall>i. ?t - 5 \<le> i \<longrightarrow> i \<le> last_height w \<longrightarrow> fits C (GetBlockHash i)"
    using fit(2) tip(2) by auto
  have "\<exists>n' s'. check_for_reorg C ?W (w\<lparr>w_node := n\<rparr>)
         = (Ok True, set_last (?t - 6) (w\<lparr>w_node := n', w_storage := s'\<rparr>))
     \<and> (sqlite_inv E s' \<and> sqlite_view E s' = sqlite_view E q \<and> sqlite_chain s' = sqlite_chain q)" for n
    using check_rolls_back [OF E(1) Q(1) C, of ?cs "?t - 6" "w\<lparr>w_node := n\<rparr>" tip hash]
      Q(4-8) Q(9,10) ne six last w(1) node(1) nh tip h(1) win fit(1,3) fits start by simp
  from cycle_rolls_back [OF node(1) tip(1) this, of I] obtain n' s' where
    run: "process_new_blocks I C ?W w = (Ok 0, set_last (?t - 6) (w\<lparr>w_node := n', w_storage := s'\<rparr>))"
    and s': "sqlite_view E s' = sqlite_view E q" "sqlite_chain s' = sqlite_chain q" by blast
  let ?w = "set_last (?t - 6) (w\<lparr>w_node := n', w_storage := s'\<rparr>)"
  have left: "\<exists>x. sqlite_chain q i = Some x \<and> x \<noteq> hash i" if i: "h < i" "i \<le> ?t - 6" for i
  proof -
    have "i \<le> h + int (length ?stale)" using i k by simp
    from consecutive_at [OF consecutive_take [OF cs(4)] i(1) this] obtain b where "b \<in> set ?stale" "bu_height b = i" .
    then show ?thesis using stale hashes_of_in [OF consecutive_take [OF cs(4)]] by (auto simp: Q(3) dest: in_set_takeD)
  qed
  have "node_count (ix_rpc (w_indexer ?w)) tip" using node(1) by (simp add: set_last_def)
  from ask_count [OF this] obtain n where "ask_node get_block_count ?w = (Ok tip, ?w\<lparr>w_node := n\<rparr>)" .
  then have quiet: "check_for_reorg C ?W ?w = (Ok False, ?w\<lparr>w_node := n\<rparr>)"
    using start by (simp add: check_for_reorg_def)
  show ?thesis
    unfolding run k_def [symmetric] using s' Q(2) left quiet by (intro exI [of _ ?w] conjI) auto
qed

text \<open>Six stale blocks, and a node on another chain whose tip is the seventh.\<close>

theorem deep_fork_keeps_stale_witness:
  "\<exists>w'. process_new_blocks small_ix_env fork_codec (storage_wire fork_codec small_conn (sqlite_ds plain_env)) (fork_world 6)
       = (Ok 0, w')
     \<and> last_height w' = 1 \<and> sqlite_view plain_env (w_storage w') = ledger_run (map changes_of [chain_block 1]) Map.empty
     \<and> (\<exists>x. sqlite_chain (w_storage w') 1 = Some x \<and> x \<noteq> ''n'')"
proof -
  have tip: "as_i32 (int 6 + 1) = 7" "as_i32 7 = 7" by (simp_all add: wrap_i32_def)
  have fit: "\<forall>i. 0 < i \<longrightarrow> i \<le> last_height (fork_world 6) \<longrightarrow> fits fork_codec (GetBlockHash i)"
    using fork_fits_height by simp
  have node: "node_count (ix_rpc (w_indexer (fork_world 6))) (int 6 + 1)"
    "node_hashes (ix_rpc (w_indexer (fork_world 6))) (\<lambda>_. ''n'') (0 + 1) (last_height (fork_world 6))"
    using fork_world_node [of "int 6 + 1"] by simp_all
  have six: "length (take 6 six_blocks) = 6" "take (Suc 0) six_blocks = [chain_block 1]" by (simp_all add: six_blocks_def)
  show ?thesis
    using deep_fork_keeps_stale [OF plain_env_healthy sqlite_empty_inv fork_codec_fits(1) small_conn_reply _ fork_chain(2) _ fork_chain(3)
        order_refl _ _ fork_world_sel(1) _ node _ _ _ _ _ fit, of small_ix_env]
      fork_codec_fits(3) fork_chain(1) [of 6] fork_chain(4) [of _ 6] fork_world_chain(2) [of 6] six by (force simp: tip)
qed

section \<open>Starting close to the tip\<close>

text \<open>
  C32. An indexer that starts at most four blocks below the tip falls back below its start
  height.  It starts after \<^verbatim>\<open>last_processed_height\<close>, one below its start height, over an empty
  SQLite store, with the tip at six or above; so the six latest heights of the chain contain one it never delivered.
  The first cycle takes the missing hash there for a reorganisation and continues from below
  those six, before the height it was configured to start at.  (From five blocks below the tip
  or more, the check has nothing to look at.)
\<close>

theorem start_near_tip:
  assumes "sqlite_healthy E" and "w_storage w = sqlite_empty"
    and "node_count (ix_rpc (w_indexer w)) tip" and "6 \<le> as_i32 tip"
    and "as_i32 tip - 5 \<le> last_height w" and "last_height w < as_i32 tip"
    and "node_hashes (ix_rpc (w_indexer w)) hash (as_i32 tip - 5) (last_height w)"
    and "hash (as_i32 tip - 5) \<noteq> []"
    and "codec_ok C" and "reply_fault K = None" and "fits C (BlockHashResponse [])"
    and "\<forall>i. as_i32 tip - 5 \<le> i \<longrightarrow> i \<le> last_height w \<longrightarrow> fits C (GetBlockHash i)"
    and "fits C (ReorgEvent (as_i32 tip - 6))"
  shows "\<exists>w'. process_new_blocks I C (storage_wire C K (sqlite_ds E)) w = (Ok 0, w')
     \<and> last_height w' = as_i32 tip - 6 \<and> w_storage w' = sqlite_empty"
proof -
  let ?start = "as_i32 tip - 5" and ?W = "storage_wire C K (sqlite_ds E)"
  note start = check_start_tip [OF assms(4)]
  obtain n1 where c: "ask_node get_block_count w = (Ok tip, w\<lparr>w_node := n1\<rparr>)" using ask_count [OF assms(3)] .
  let ?w1 = "w\<lparr>w_node := n1\<rparr>"
  have stored: "stored_hashes C ?W (w_storage ?w1) (\<lambda>_. []) ?start (last_height ?w1)"
    unfolding stored_hashes_def
  proof (intro allI impI)
    fix i assume i: "?start \<le> i" "i \<le> last_height ?w1"
    then have "handle_message (sqlite_ds E) (GetBlockHash i) sqlite_empty = (Ok (Some (BlockHashResponse [])), sqlite_empty)"
      using sq.db_get_block_hash_refines [OF assms(1) sqlite_empty_inv, of i] assms(4) by simp
    from request_storage [OF assms(9) _ assms(11,10) this] show
      "transport_get_block_hash C ?W i (w_storage ?w1) = (Ok [], w_storage ?w1)"
      using assms(2,12) i by (simp add: transport_get_block_hash_Ok)
  qed
  have small: "last_height w < 2147483648" using assms(6) in_i32_wrap [of tip] by (simp add: in_i32_def)
  from check_for_reorg_stable [of ?w1 tip hash C ?W "\<lambda>_. []"] assms(3,5,7,8) stored small start obtain n' m where
    m: "?start \<le> m" "hash m \<noteq> []" "\<forall>i. ?start \<le> i \<longrightarrow> i < m \<longrightarrow> hash i = []"
    and run: "check_for_reorg C ?W ?w1
        = then_do (ask_storage (send_reorg_event C ?W (m - 1))) (\<lambda>_ w'. (Ok True, set_last (m - 1) w')) (?w1\<lparr>w_node := n'\<rparr>)"
    by (auto split: if_splits)
  have "m = ?start"
  proof (rule ccontr)
    assume "m \<noteq> ?start"
    with m(1) have "?start < m" by simp
    with m(3) assms(8) show False by blast
  qed
  have "sqlite_get_latest_block E sqlite_empty = Ok 0"
    using assms(1) by (simp add: sqlite_get_latest_block_def sqlite_empty_def)
  then have "handle_message (sqlite_ds E) (ReorgEvent (?start - 1)) sqlite_empty = (Ok None, sqlite_empty)"
    by (simp add: revert_to_height_def db_get_latest_block_def)
  note reorg = this
  have "fits C (ReorgEvent (?start - 1))" using assms(13) by simp
  from notify_storage [OF assms(9) this reorg]
  have "ask_storage (send_reorg_event C ?W (?start - 1)) (?w1\<lparr>w_node := n'\<rparr>) = (Ok (), ?w1\<lparr>w_node := n'\<rparr>)"
    using assms(2) by (simp add: ask_storage_def send_reorg_event_def)
  then have "check_for_reorg C ?W ?w1 = (Ok True, set_last (?start - 1) (?w1\<lparr>w_node := n'\<rparr>))"
    using run \<open>m = ?start\<close> by simp
  then have "process_new_blocks I C ?W w = (Ok 0, set_last (?start - 1) (?w1\<lparr>w_node := n'\<rparr>))"
    using c assms(6) by (simp add: process_new_blocks_def)
  then show ?thesis using assms(2) by auto
qed

text \<open>Configured to start at height 12 of a chain of 14 blocks, it continues from height 9.\<close>

definition near_codec :: codec where
  "near_codec = listed_codec [BlockHashResponse [], GetBlockHash 9, GetBlockHash 10, GetBlockHash 11, ReorgEvent 8]"

definition near_world :: "(string, unit, lru, sqlite_db) world" where
  "near_world = \<lparr>w_indexer = (small_indexer (Core still_core))\<lparr>ix_start_height := 12, ix_last_processed_height := 11\<rparr>,
     w_node = (), w_storage = sqlite_empty\<rparr>"

theorem start_near_tip_witness:
  "\<exists>w'. process_new_blocks small_ix_env near_codec (storage_wire near_codec small_conn (sqlite_ds plain_env)) near_world
     = (Ok 0, w') \<and> last_height w' = 8 \<and> w_storage w' = sqlite_empty"
proof -
  have tip: "as_i32 14 = 14" by (simp add: wrap_i32_def)
  have w: "w_storage near_world = sqlite_empty" "last_height near_world = 11" "ix_rpc (w_indexer near_world) = Core still_core"
    by (simp_all add: near_world_def small_indexer_def)
  have N: "node_count (ix_rpc (w_indexer near_world)) 14"
    unfolding w by (simp add: node_count_def still_core_def core_call_def)
  have NH: "node_hashes (ix_rpc (w_indexer near_world)) (\<lambda>_. ''n'') (as_i32 14 - 5) (last_height near_world)"
    unfolding w(3) by (simp add: node_hashes_def still_core_def core_call_def)
  have C: "codec_ok near_codec" by (simp add: near_codec_def)
  have fit: "fits near_codec m"
    if "m \<in> set [BlockHashResponse [], GetBlockHash 9, GetBlockHash 10, GetBlockHash 11, ReorgEvent 8]" for m
    unfolding near_codec_def using that by (rule listed_codec_fits) simp
  have i: "i = 9 \<or> i = 10 \<or> i = 11" if "9 \<le> i" "i \<le> 11" for i :: int using that by arith
  have "fits near_codec (GetBlockHash i)" if "9 \<le> i" "i \<le> 11" for i
    using i [OF that] by (elim disjE; hypsubst) (rule fit, simp)+
  then have "\<forall>i. as_i32 14 - 5 \<le> i \<longrightarrow> i \<le> last_height near_world \<longrightarrow> fits near_codec (GetBlockHash i)"
    unfolding tip w by simp
  moreover have "fits near_codec (BlockHashResponse [])" "fits near_codec (ReorgEvent (as_i32 14 - 6))"
    unfolding tip by (rule fit, simp)+
  ultimately show ?thesis
    using start_near_tip [OF plain_env_healthy w(1) N _ _ _ NH _ C small_conn_reply] by (simp add: tip w)
qed

end
