(* ===== verification/Signed_Db.thy ===== *)
theory Signed_Db
  imports Sqlite_Correct
begin

text \<open>
  \<^verbatim>\<open>SignedTxDatabase\<close> (\<^verbatim>\<open>storage/src/signed_db.rs\<close>): the journal of signed transactions in a
  second SQLite file.  The table is a list of rows with the sequence number behind
  \<^verbatim>\<open>AUTOINCREMENT\<close> (the exhaustion of its 2^63 numbers is left out); the environment of the
  connection, the statements and chrono is the one of the SQLite data source.
\<close>

section \<open>State and operations\<close>

record signed_db =
  sd_rows :: "string signed_tx_rec list"
  sd_seq :: i64

definition signed_empty :: signed_db where
  "signed_empty = \<lparr>sd_rows = [], sd_seq = 0\<rparr>"

definition run_migrations :: "sqlite_env \<Rightarrow> unit sres" where
  "run_migrations E = and_then (pool_get E 0) (\<lambda>_. map_err MigrationFailed (raise_if (migration_fault E)))"

definition signed_new :: "os_env \<Rightarrow> sqlite_env \<Rightarrow> unit sres" where
  "signed_new os E = and_then (open_pool os) (\<lambda>_. run_migrations E)"

definition store_signed_tx :: "sqlite_env \<Rightarrow> datetime \<Rightarrow> string \<Rightarrow> string \<Rightarrow> string \<Rightarrow> i32 \<Rightarrow> i64
    \<Rightarrow> string \<Rightarrow> i64 \<Rightarrow> signed_db \<Rightarrow> unit sres \<times> signed_db" where
  "store_signed_tx E now t raw c h a dest fee s =
     settle (and_then (pool_get E 0) (\<lambda>_. execute E 0))
       (\<lambda>_. \<lparr>sd_rows = sd_rows s @
               [\<lparr>stx_id = sd_seq s + 1, stx_txid = t, stx_signed_tx = raw, stx_caller = c,
                 stx_block_height = h, stx_amount = a, stx_destination = dest, stx_fee = fee,
                 stx_timestamp = to_rfc3339 E now\<rparr>],
             sd_seq = sd_seq s + 1\<rparr>) s"

definition decode_signed :: "sqlite_env \<Rightarrow> string signed_tx_rec \<Rightarrow> (signed_tx, string) outcome" where
  "decode_signed E r =
     and_then (parse_from_rfc3339 E (stx_timestamp r)) (\<lambda>ts.
       Ok \<lparr>stx_id = stx_id r, stx_txid = stx_txid r, stx_signed_tx = stx_signed_tx r,
           stx_caller = stx_caller r, stx_block_height = stx_block_height r,
           stx_amount = stx_amount r, stx_destination = stx_destination r, stx_fee = stx_fee r,
           stx_timestamp = ts\<rparr>)"

text \<open>The prologue of every query, and the loop over its rows.\<close>

definition open_query :: "sqlite_env \<Rightarrow> unit sres" where
  "open_query E =
     and_then (pool_get E 0) (\<lambda>_.
     and_then (map_err DatabaseQueryFailed (raise_if (prepare_fault E))) (\<lambda>_.
     map_err DatabaseQueryFailed (raise_if (query_fault E))))"

fun collect_signed :: "sqlite_env \<Rightarrow> nat \<Rightarrow> string signed_tx_rec list \<Rightarrow> signed_tx list sres" where
  "collect_signed E n [] = Ok []"
| "collect_signed E n (r # rs) =
     and_then (map_err DatabaseQueryFailed (and_then (raise_if (row_fault E n)) (\<lambda>_. decode_signed E r)))
       (\<lambda>x. and_then (collect_signed E (Suc n) rs) (\<lambda>xs. Ok (x # xs)))"

text \<open>\<^verbatim>\<open>ORDER BY id DESC LIMIT 1\<close>; no row is \<^verbatim>\<open>None\<close>.\<close>

definition get_signed_tx_by_txid :: "sqlite_env \<Rightarrow> string \<Rightarrow> signed_db \<Rightarrow> signed_tx option sres" where
  "get_signed_tx_by_txid E t s =
     and_then (open_query E) (\<lambda>_.
       case rev (sort_key stx_id (filter (\<lambda>r. stx_txid r = t) (sd_rows s))) of
         [] \<Rightarrow> Ok None
       | r # _ \<Rightarrow> map_err DatabaseQueryFailed
           (and_then (raise_if (row_fault E 0)) (\<lambda>_. and_then (decode_signed E r) (\<lambda>x. Ok (Some x)))))"

definition signed_where :: "sqlite_env \<Rightarrow> (string signed_tx_rec \<Rightarrow> bool) \<Rightarrow> signed_db \<Rightarrow> signed_tx list sres" where
  "signed_where E P s =
     and_then (open_query E) (\<lambda>_. collect_signed E 0 (sort_key stx_id (filter P (sd_rows s))))"

definition get_signed_txs_by_caller :: "sqlite_env \<Rightarrow> string \<Rightarrow> signed_db \<Rightarrow> signed_tx list sres" where
  "get_signed_txs_by_caller E c s = signed_where E (\<lambda>r. stx_caller r = c) s"

definition get_signed_txs_by_block_height :: "sqlite_env \<Rightarrow> i32 \<Rightarrow> signed_db \<Rightarrow> signed_tx list sres" where
  "get_signed_txs_by_block_height E h s = signed_where E (\<lambda>r. stx_block_height r = h) s"

definition get_signed_txs_by_destination :: "sqlite_env \<Rightarrow> string \<Rightarrow> signed_db \<Rightarrow> signed_tx list sres" where
  "get_signed_txs_by_destination E d s = signed_where E (\<lambda>r. stx_destination r = d) s"

text \<open>
  \<^verbatim>\<open>LIMIT ?1 OFFSET ?2\<close>: SQLite reads a negative limit as no limit and a negative offset as 0.
\<close>

definition page_of :: "i64 \<Rightarrow> i64 \<Rightarrow> 'r list \<Rightarrow> 'r list" where
  "page_of offset limit xs =
     (let ys = drop (nat offset) xs in if limit < 0 then ys else take (nat limit) ys)"

definition get_signed_txs_paginated :: "sqlite_env \<Rightarrow> i64 \<Rightarrow> i64 \<Rightarrow> signed_db \<Rightarrow> signed_tx list sres" where
  "get_signed_txs_paginated E offset limit s =
     and_then (open_query E) (\<lambda>_. collect_signed E 0 (page_of offset limit (sort_key stx_id (sd_rows s))))"

section \<open>The journal\<close>

text \<open>
  The journal is the list of decoded records, in the order they were stored; the table keeps
  it when ids grow along the list and never exceed the sequence.
\<close>

definition encode_signed :: "sqlite_env \<Rightarrow> signed_tx \<Rightarrow> string signed_tx_rec" where
  "encode_signed E x =
     \<lparr>stx_id = stx_id x, stx_txid = stx_txid x, stx_signed_tx = stx_signed_tx x,
      stx_caller = stx_caller x, stx_block_height = stx_block_height x, stx_amount = stx_amount x,
      stx_destination = stx_destination x, stx_fee = stx_fee x,
      stx_timestamp = to_rfc3339 E (stx_timestamp x)\<rparr>"

definition journal :: "sqlite_env \<Rightarrow> signed_db \<Rightarrow> signed_tx list \<Rightarrow> bool" where
  "journal E s xs \<longleftrightarrow> sd_rows s = map (encode_signed E) xs \<and> sorted_wrt (<) (map stx_id xs)
     \<and> (\<forall>x \<in> set xs. stx_id x \<le> sd_seq s)"

lemma encode_signed_sel [simp]:
  "stx_id (encode_signed E x) = stx_id x" "stx_txid (encode_signed E x) = stx_txid x"
  "stx_caller (encode_signed E x) = stx_caller x" "stx_block_height (encode_signed E x) = stx_block_height x"
  "stx_destination (encode_signed E x) = stx_destination x"
  by (simp_all add: encode_signed_def)

lemma decode_encode_signed [simp]: "sqlite_healthy E \<Longrightarrow> decode_signed E (encode_signed E x) = Ok x"
  by (simp add: decode_signed_def encode_signed_def)

lemma open_query_healthy [simp]: "sqlite_healthy E \<Longrightarrow> open_query E = Ok ()"
  by (simp add: open_query_def)

lemma collect_signed_healthy:
  "sqlite_healthy E \<Longrightarrow> collect_signed E n (map (encode_signed E) xs) = Ok xs"
  by (induction xs arbitrary: n) simp_all

lemma sort_signed:
  assumes "sorted_wrt (<) (map stx_id xs)"
  shows "sort_key stx_id (map (encode_signed E) (filter P xs)) = map (encode_signed E) (filter P xs)"
proof -
  have "sorted (map stx_id (filter P xs))"
    using assms by (intro sorted_filter strict_sorted_imp_sorted)
  then show ?thesis by (simp add: sort_key_map sort_key_id_if_sorted)
qed

lemma journal_filter:
  "sqlite_healthy E \<Longrightarrow> journal E s xs \<Longrightarrow> (\<And>x. P (encode_signed E x) = Q x) \<Longrightarrow>
   signed_where E P s = Ok (filter Q xs)"
  by (simp add: signed_where_def journal_def filter_map comp_def sort_signed collect_signed_healthy)

lemma journal_page:
  assumes "sqlite_healthy E" and "journal E s xs"
  shows "get_signed_txs_paginated E offset limit s = Ok (page_of offset limit xs)"
  using assms sort_signed [of xs E "\<lambda>_. True"] collect_signed_healthy [OF assms(1)]
  by (simp add: get_signed_txs_paginated_def journal_def page_of_def Let_def take_map drop_map)

lemma journal_lookup:
  assumes "sqlite_healthy E" and "journal E s xs"
  shows "get_signed_tx_by_txid E t s = Ok (find (\<lambda>x. stx_txid x = t) (rev xs))"
proof -
  let ?ys = "filter (\<lambda>x. stx_txid x = t) xs"
  have "sort_key stx_id (filter (\<lambda>r. stx_txid r = t) (sd_rows s)) = map (encode_signed E) ?ys"
    using assms sort_signed [of xs E "\<lambda>x. stx_txid x = t"] by (simp add: journal_def filter_map comp_def)
  moreover have "find (\<lambda>x. stx_txid x = t) (rev xs) = (case rev ?ys of [] \<Rightarrow> None | y # _ \<Rightarrow> Some y)"
    by (simp add: find_filter rev_filter)
  ultimately show ?thesis
    using assms(1) by (cases "rev ?ys") (simp_all add: get_signed_tx_by_txid_def rev_map)
qed

lemma journal_empty: "journal E signed_empty []"
  by (simp add: journal_def signed_empty_def)

lemma journal_store:
  assumes "sqlite_healthy E" and "journal E s xs"
  shows "\<exists>s' x. store_signed_tx E now t raw c h a dest fee s = (Ok (), s') \<and> journal E s' (xs @ [x])
     \<and> x = \<lparr>stx_id = sd_seq s + 1, stx_txid = t, stx_signed_tx = raw, stx_caller = c,
           stx_block_height = h, stx_amount = a, stx_destination = dest, stx_fee = fee, stx_timestamp = now\<rparr>"
  using assms
  by (auto simp: store_signed_tx_def journal_def sorted_wrt_append encode_signed_def)

text \<open>Consecutive pages put together are the list they were taken from.\<close>

lemma pages_concat:
  assumes "0 < n" and "length xs \<le> k * n"
  shows "concat (map (\<lambda>i. page_of (int i * int n) (int n) xs) [0..<k]) = xs"
proof -
  have "concat (map (\<lambda>i. take n (drop (i * n) xs)) [0..<j]) = take (j * n) xs" for j
    by (induction j) (simp_all add: take_add [symmetric] add.commute)
  then show ?thesis
    using assms by (simp add: page_of_def Let_def nat_mult_distrib flip: of_nat_mult)
qed

section \<open>Properties\<close>

text \<open>
  A stored transaction is found again: without faults, storing succeeds, and looking its
  id up returns the record with the fields that were stored, under a fresh number, whatever
  was stored under the same id before.
\<close>

lemma signed_tx_round_trip:
  assumes "sqlite_healthy E" and "journal E s xs"
  shows "\<exists>s' n. store_signed_tx E now t raw c h a dest fee s = (Ok (), s')
     \<and> get_signed_tx_by_txid E t s'
        = Ok (Some \<lparr>stx_id = n, stx_txid = t, stx_signed_tx = raw, stx_caller = c, stx_block_height = h,
                    stx_amount = a, stx_destination = dest, stx_fee = fee, stx_timestamp = now\<rparr>)
     \<and> (\<forall>x \<in> set xs. stx_id x < n)"
proof -
  obtain s' x where s': "store_signed_tx E now t raw c h a dest fee s = (Ok (), s')" "journal E s' (xs @ [x])"
    and x: "x = \<lparr>stx_id = sd_seq s + 1, stx_txid = t, stx_signed_tx = raw, stx_caller = c,
           stx_block_height = h, stx_amount = a, stx_destination = dest, stx_fee = fee, stx_timestamp = now\<rparr>"
    using journal_store [OF assms] by blast
  have "get_signed_tx_by_txid E t s' = Ok (Some x)"
    by (simp add: journal_lookup [OF assms(1) s'(2)] x)
  moreover have "\<forall>y \<in> set xs. stx_id y < sd_seq s + 1"
    using assms(2) by (auto simp: journal_def intro: le_less_trans)
  ultimately show ?thesis using s'(1) x by blast
qed

lemma signed_tx_round_trip_witness:
  "\<exists>s' n. store_signed_tx plain_env 7 ''t'' ''00'' ''0xab'' 5 100 ''bob'' 2 signed_empty = (Ok (), s')
     \<and> get_signed_tx_by_txid plain_env ''t'' s'
        = Ok (Some \<lparr>stx_id = n, stx_txid = ''t'', stx_signed_tx = ''00'', stx_caller = ''0xab'',
                    stx_block_height = 5, stx_amount = 100, stx_destination = ''bob'', stx_fee = 2,
                    stx_timestamp = 7\<rparr>)
     \<and> (\<forall>x \<in> set []. stx_id (x :: signed_tx) < n)"
  by (rule signed_tx_round_trip [OF plain_env_healthy journal_empty])

text \<open>
  The journal is append-only and its listings are complete: without faults, storing adds
  exactly one record at the end, the listings by caller, block and destination are the
  journal's records in order of storing, and the pages of a listing put together are the
  whole journal, each record once.
\<close>

lemma signed_journal_listings:
  assumes "sqlite_healthy E" and "journal E s xs" and "0 < n" and "length xs \<le> k * n"
  shows "get_signed_txs_by_caller E c s = Ok (filter (\<lambda>x. stx_caller x = c) xs)
     \<and> get_signed_txs_by_block_height E h s = Ok (filter (\<lambda>x. stx_block_height x = h) xs)
     \<and> get_signed_txs_by_destination E d s = Ok (filter (\<lambda>x. stx_destination x = d) xs)
     \<and> (\<exists>pages. (\<forall>i < k. get_signed_txs_paginated E (int i * int n) (int n) s = Ok (pages i))
          \<and> concat (map pages [0..<k]) = xs)
     \<and> (\<exists>s' x. store_signed_tx E now t raw c h a d fee s = (Ok (), s') \<and> journal E s' (xs @ [x]))"
proof -
  have "\<exists>pages. (\<forall>i < k. get_signed_txs_paginated E (int i * int n) (int n) s = Ok (pages i))
          \<and> concat (map pages [0..<k]) = xs"
    using journal_page [OF assms(1,2)] pages_concat [OF assms(3,4)]
    by (intro exI [of _ "\<lambda>i. page_of (int i * int n) (int n) xs"]) simp
  moreover have "\<exists>s' x. store_signed_tx E now t raw c h a d fee s = (Ok (), s') \<and> journal E s' (xs @ [x])"
    using journal_store [OF assms(1,2)] by blast
  ultimately show ?thesis
    using assms(1,2) by (auto simp: get_signed_txs_by_caller_def get_signed_txs_by_block_height_def
        get_signed_txs_by_destination_def journal_filter)
qed

lemma signed_journal_listings_witness:
  "get_signed_txs_by_caller plain_env ''c'' signed_empty = Ok (filter (\<lambda>x. stx_caller x = ''c'') [])
     \<and> get_signed_txs_by_block_height plain_env 3 signed_empty = Ok (filter (\<lambda>x. stx_block_height x = 3) [])
     \<and> get_signed_txs_by_destination plain_env ''d'' signed_empty = Ok (filter (\<lambda>x. stx_destination x = ''d'') [])
     \<and> (\<exists>pages. (\<forall>i < 2. get_signed_txs_paginated plain_env (int i * int 250) (int 250) signed_empty = Ok (pages i))
          \<and> concat (map pages [0..<2]) = [])
     \<and> (\<exists>s' x. store_signed_tx plain_env 7 ''t'' ''00'' ''c'' 3 1 ''d'' 2 signed_empty = (Ok (), s')
          \<and> journal plain_env s' ([] @ [x]))"
  by (rule signed_journal_listings [OF plain_env_healthy journal_empty]) simp_all

end
