(* ===== verification/Storage_Http.thy ===== *)
theory Storage_Http
  imports Storage_Service Signed_Db Json Bitcoin_Types
begin

text \<open>
  The HTTP interface of the storage service (\<^verbatim>\<open>storage/src/network/http.rs\<close>): a request is what
  the framework extracted from path, query and body, a response its status and JSON body.
\<close>

section \<open>Requests and responses\<close>

datatype http_response = Reply nat "json option" | Crashed

definition json_reply :: "nat \<Rightarrow> (string \<times> json) list \<Rightarrow> http_response" where
  "json_reply status kvs = Reply status (Some (JObj kvs))"

definition error_reply :: "nat \<Rightarrow> string \<Rightarrow> http_response" where
  "error_reply status msg = json_reply status [(''error'', JStr msg)]"

datatype storage_request =
    Health
  | LatestBlock
  | BlockTxids i32
  | BlockAddressUtxos i32 string
  | SpendableUtxos i32 string
  | SelectUtxos i32 string i64
  | UtxoByOutpoint string i32
  | StoreSignedTx store_signed_tx_request
  | AllSignedTxs "u32 option"
  | SignedTxById string
  | SignedTxsByCaller string
  | SignedTxsByBlock i32
  | SignedTxsByDestination string

text \<open>
  \<^verbatim>\<open>AppState\<close> with the parameters its parts depend on; \<open>txid_pos\<close> is the iteration order of
  the hash set of transaction ids.
\<close>

record ('u, 'a, 's) app_env =
  app_lib :: "('u, 'a) bitcoin_lib"
  app_network :: network
  app_ds :: "'s datasource"
  app_signed :: sqlite_env
  app_time :: time_codec
  txid_pos :: "string \<Rightarrow> nat"

definition http_parse_address :: "('u, 'a, 's) app_env \<Rightarrow> string \<Rightarrow> ('a, string) outcome" where
  "http_parse_address A a =
     and_then (map_err (\<lambda>e. ''Invalid Bitcoin address format: '' @ e) (addr_from_str (app_lib A) a)) (\<lambda>u.
       map_err (\<lambda>e. ''Bitcoin address network mismatch: '' @ e) (addr_require_network (app_lib A) u (app_network A)))"

section \<open>Outputs\<close>

definition bad_height :: http_response where
  "bad_height = error_reply 400 ''Block height must be non-negative''"

text \<open>The checks the handlers share, in the order the code makes them.\<close>

definition with_address :: "('u, 'a, 's) app_env \<Rightarrow> string \<Rightarrow> http_response \<Rightarrow> http_response" where
  "with_address A a k =
     (case http_parse_address A a of Ok _ \<Rightarrow> k | Err msg \<Rightarrow> error_reply 400 msg | Panic \<Rightarrow> Crashed)"

definition with_known_block :: "('u, 'a, 's) app_env \<Rightarrow> i32 \<Rightarrow> 's \<Rightarrow> http_response \<Rightarrow> http_response" where
  "with_known_block A h s k =
     (case db_get_latest_block (app_ds A) s of
        Ok latest \<Rightarrow>
          if latest < h
          then json_reply 404 [(''error'', JStr ''Block not found''), (''latest_block'', JNum latest)]
          else k
      | Err e \<Rightarrow> error_reply 500 (''Failed to retrieve latest block: '' @ show_storage_error e)
      | Panic \<Rightarrow> Crashed)"

definition http_get_latest_block :: "('u, 'a, 's) app_env \<Rightarrow> 's \<Rightarrow> http_response" where
  "http_get_latest_block A s =
     (case db_get_latest_block (app_ds A) s of
        Ok latest \<Rightarrow> json_reply 200 [(''latest_block'', JNum latest)]
      | Err e \<Rightarrow> error_reply 500 (''Failed to retrieve latest block: '' @ show_storage_error e)
      | Panic \<Rightarrow> Crashed)"

definition http_get_block_txids :: "('u, 'a, 's) app_env \<Rightarrow> i32 \<Rightarrow> 's \<Rightarrow> http_response" where
  "http_get_block_txids A h s =
     (if h < 0 then bad_height
      else with_known_block A h s
        (case db_get_block_txids (app_ds A) (txid_pos A) h s of
           Ok txids \<Rightarrow> json_reply 200 [(''txids'', JArr (map JStr txids))]
         | Err e \<Rightarrow>
             (case e of
                BlockNotFound _ \<Rightarrow> error_reply 404 (show_storage_error e)
              | _ \<Rightarrow> error_reply 500 (''Failed to retrieve transaction IDs: '' @ show_storage_error e))
         | Panic \<Rightarrow> Crashed))"

definition utxos_json :: "('u, 'a, 's) app_env \<Rightarrow> utxo list \<Rightarrow> json" where
  "utxos_json A us = JArr (map (json_of_utxo (app_time A)) us)"

definition http_get_block_address_utxos :: "('u, 'a, 's) app_env \<Rightarrow> i32 \<Rightarrow> string \<Rightarrow> 's \<Rightarrow> http_response" where
  "http_get_block_address_utxos A h a s =
     (if h < 0 then bad_height
      else with_address A a (with_known_block A h s
        (case db_get_utxos_for_block_and_address (app_ds A) h a s of
           Ok us \<Rightarrow>
             if us = [] then error_reply 404 ''No UTXOs found for specified address in the specified block''
             else json_reply 200 [(''block_height'', JNum h), (''address'', JStr a), (''utxos'', utxos_json A us)]
         | Err e \<Rightarrow>
             (case e of
                BlockNotFound _ \<Rightarrow> error_reply 404 (show_storage_error e)
              | InvalidAddress _ \<Rightarrow> error_reply 404 (show_storage_error e)
              | _ \<Rightarrow> error_reply 500 (''Failed to retrieve UTXOs: '' @ show_storage_error e))
         | Panic \<Rightarrow> Crashed)))"

text \<open>\<^verbatim>\<open>iter().sum()\<close> in \<^verbatim>\<open>i64\<close>.\<close>

definition total_amount :: "utxo list \<Rightarrow> i64" where
  "total_amount us = wrap_i64 (sum_by amount us)"

definition http_get_spendable_utxos :: "('u, 'a, 's) app_env \<Rightarrow> i32 \<Rightarrow> string \<Rightarrow> 's \<Rightarrow> http_response" where
  "http_get_spendable_utxos A h a s =
     (if h < 0 then bad_height
      else with_address A a (with_known_block A h s
        (case db_get_spendable_utxos_at_height (app_ds A) h a s of
           Ok us \<Rightarrow> json_reply 200 [(''block_height'', JNum h), (''address'', JStr a),
               (''spendable_utxos'', utxos_json A us), (''total_amount'', JNum (total_amount us))]
         | Err e \<Rightarrow> error_reply 500 (''Failed to retrieve UTXOs: '' @ show_storage_error e)
         | Panic \<Rightarrow> Crashed)))"

definition http_select_utxos :: "('u, 'a, 's) app_env \<Rightarrow> i32 \<Rightarrow> string \<Rightarrow> i64 \<Rightarrow> 's \<Rightarrow> http_response" where
  "http_select_utxos A h a target s =
     (if h < 0 then bad_height
      else with_address A a
        (if target \<le> 0 then error_reply 400 ''Target amount must be greater than 0''
         else with_known_block A h s
        (case select_utxos_for_amount (app_ds A) h a target s of
           Ok us \<Rightarrow> json_reply 200 [(''block_height'', JNum h), (''address'', JStr a),
               (''target_amount'', JNum target), (''selected_utxos'', utxos_json A us),
               (''total_amount'', JNum (total_amount us))]
         | Err e \<Rightarrow>
             (case e of
                InsufficientFunds available required \<Rightarrow>
                  json_reply 404 [(''error'', JStr ''Insufficient funds to meet target amount''),
                    (''available_amount'', JNum available), (''target_amount'', JNum required)]
              | _ \<Rightarrow> error_reply 500 (''Failed to select UTXOs: '' @ show_storage_error e))
         | Panic \<Rightarrow> Crashed)))"

definition http_get_utxo_by_outpoint :: "('u, 'a, 's) app_env \<Rightarrow> string \<Rightarrow> i32 \<Rightarrow> 's \<Rightarrow> http_response" where
  "http_get_utxo_by_outpoint A t v s =
     (case db_get_utxo_by_outpoint (app_ds A) t v s of
        Ok (Some u) \<Rightarrow> json_reply 200 [(''utxo'', json_of_utxo (app_time A) u)]
      | Ok None \<Rightarrow> error_reply 404 ''UTXO not found''
      | Err e \<Rightarrow> error_reply 500 (show_storage_error e)
      | Panic \<Rightarrow> Crashed)"

section \<open>Signed transactions\<close>

definition http_store_signed_tx :: "('u, 'a, 's) app_env \<Rightarrow> datetime \<Rightarrow> store_signed_tx_request \<Rightarrow> signed_db
    \<Rightarrow> http_response \<times> signed_db" where
  "http_store_signed_tx A now rq d =
     (case store_signed_tx (app_signed A) now (rq_txid rq) (rq_signed_tx rq) (rq_caller rq)
             (rq_block_height rq) (rq_amount rq) (rq_destination rq) (rq_fee rq) d of
        (Ok _, d') \<Rightarrow> (json_reply 200 [(''status'', JStr ''OK'')], d')
      | (Err e, d') \<Rightarrow> (error_reply 500 (show_storage_error e), d')
      | (Panic, d') \<Rightarrow> (Crashed, d'))"

definition http_get_signed_tx :: "('u, 'a, 's) app_env \<Rightarrow> string \<Rightarrow> signed_db \<Rightarrow> http_response" where
  "http_get_signed_tx A t d =
     (case get_signed_tx_by_txid (app_signed A) t d of
        Ok (Some x) \<Rightarrow> json_reply 200 [(''signed_tx'', json_of_signed (app_time A) x)]
      | Ok None \<Rightarrow> error_reply 404 ''Signed transaction not found''
      | Err e \<Rightarrow> error_reply 500 (show_storage_error e)
      | Panic \<Rightarrow> Crashed)"

definition signed_list_reply :: "('u, 'a, 's) app_env \<Rightarrow> string \<Rightarrow> string \<times> json \<Rightarrow> signed_tx list sres
    \<Rightarrow> http_response" where
  "signed_list_reply A none_msg key r =
     (case r of
        Ok xs \<Rightarrow> if xs = [] then error_reply 404 none_msg
          else json_reply 200 [key, (''signed_txs'', JArr (map (json_of_signed (app_time A)) xs))]
      | Err e \<Rightarrow> error_reply 500 (show_storage_error e)
      | Panic \<Rightarrow> Crashed)"

definition http_get_signed_txs_by_caller :: "('u, 'a, 's) app_env \<Rightarrow> string \<Rightarrow> signed_db \<Rightarrow> http_response" where
  "http_get_signed_txs_by_caller A c d =
     signed_list_reply A ''No signed transactions found for caller'' (''caller'', JStr c)
       (get_signed_txs_by_caller (app_signed A) c d)"

definition http_get_signed_txs_by_block :: "('u, 'a, 's) app_env \<Rightarrow> i32 \<Rightarrow> signed_db \<Rightarrow> http_response" where
  "http_get_signed_txs_by_block A h d =
     signed_list_reply A ''No signed transactions found for block'' (''block_height'', JNum h)
       (get_signed_txs_by_block_height (app_signed A) h d)"

definition http_get_signed_txs_by_destination :: "('u, 'a, 's) app_env \<Rightarrow> string \<Rightarrow> signed_db \<Rightarrow> http_response" where
  "http_get_signed_txs_by_destination A a d =
     signed_list_reply A ''No signed transactions found for destination'' (''destination'', JStr a)
       (get_signed_txs_by_destination (app_signed A) a d)"

definition http_get_all_signed_txs :: "('u, 'a, 's) app_env \<Rightarrow> u32 option \<Rightarrow> signed_db \<Rightarrow> http_response" where
  "http_get_all_signed_txs A q d =
     (let page = (case q of None \<Rightarrow> 1 | Some p \<Rightarrow> p)
      in if page = 0 then error_reply 400 ''page must be greater than 0''
         else case get_signed_txs_paginated (app_signed A) ((page - 1) * 250) 250 d of
             Ok xs \<Rightarrow> json_reply 200 [(''page'', JNum page),
                 (''signed_txs'', JArr (map (json_of_signed (app_time A)) xs))]
           | Err e \<Rightarrow> error_reply 500 (show_storage_error e)
           | Panic \<Rightarrow> Crashed)"

section \<open>Routing\<close>

fun configure_routes :: "('u, 'a, 's) app_env \<Rightarrow> datetime \<Rightarrow> storage_request \<Rightarrow> 's \<Rightarrow> signed_db
    \<Rightarrow> http_response \<times> signed_db" where
  "configure_routes A now Health s d = (Reply 200 None, d)"
| "configure_routes A now LatestBlock s d = (http_get_latest_block A s, d)"
| "configure_routes A now (BlockTxids h) s d = (http_get_block_txids A h s, d)"
| "configure_routes A now (BlockAddressUtxos h a) s d = (http_get_block_address_utxos A h a s, d)"
| "configure_routes A now (SpendableUtxos h a) s d = (http_get_spendable_utxos A h a s, d)"
| "configure_routes A now (SelectUtxos h a t) s d = (http_select_utxos A h a t s, d)"
| "configure_routes A now (UtxoByOutpoint t v) s d = (http_get_utxo_by_outpoint A t v s, d)"
| "configure_routes A now (StoreSignedTx rq) s d = http_store_signed_tx A now rq d"
| "configure_routes A now (AllSignedTxs q) s d = (http_get_all_signed_txs A q d, d)"
| "configure_routes A now (SignedTxById t) s d = (http_get_signed_tx A t d, d)"
| "configure_routes A now (SignedTxsByCaller c) s d = (http_get_signed_txs_by_caller A c d, d)"
| "configure_routes A now (SignedTxsByBlock h) s d = (http_get_signed_txs_by_block A h d, d)"
| "configure_routes A now (SignedTxsByDestination a) s d = (http_get_signed_txs_by_destination A a d, d)"

section \<open>Properties\<close>

definition plain_time :: time_codec where
  "plain_time = \<lparr>time_json = show_int, time_of_json = (\<lambda>s. Some (read_int s))\<rparr>"

lemma plain_time_ok [simp]: "time_ok plain_time"
  by (simp add: time_ok_def plain_time_def)

definition plain_app :: "(string, string, sqlite_db) app_env" where
  "plain_app =
     \<lparr>app_lib = small_lib, app_network = Regtest, app_ds = sqlite_ds plain_env, app_signed = plain_env,
      app_time = plain_time, txid_pos = (\<lambda>_. 0)\<rparr>"

lemma plain_app_sel [simp]:
  "app_lib plain_app = small_lib" "app_ds plain_app = sqlite_ds plain_env"
  "app_signed plain_app = plain_env" "app_time plain_app = plain_time"
  by (simp_all add: plain_app_def)

lemma plain_address [simp]: "a \<noteq> [] \<Longrightarrow> http_parse_address plain_app a = Ok a"
  by (simp add: http_parse_address_def plain_app_def small_lib_def)

lemma sum_selection:
  assumes "set sel \<subseteq> S" and "distinct sel" and "finite S" and "\<And>u. u \<in> S \<Longrightarrow> 0 \<le> amount u"
  shows "0 \<le> sum_by amount sel \<and> sum_by amount sel \<le> sum amount S"
proof -
  have "sum_by amount sel = sum amount (set sel)"
    using assms(2) by (simp add: sum_by_def sum.distinct_set_conv_list)
  then show ?thesis
    using sum_mono2 [OF assms(3,1), of amount] assms(1,4) by (auto intro: sum_nonneg)
qed

lemma http_select_outcome:
  assumes "app_ds A = sqlite_ds E" and "sqlite_healthy E" and "sqlite_inv E s"
    and "http_parse_address A a = Ok p" and "sqlite_get_latest_block E s = Ok l"
    and "0 \<le> h" and "h \<le> l" and "a \<noteq> []" and "0 < t"
    and "sum amount (spendable_set (sqlite_view E s) h a) < 9223372036854775808"
  shows "let S = spendable_set (sqlite_view E s) h a
     in if S \<noteq> {} \<and> sum amount S < t
        then http_select_utxos A h a t s =
          json_reply 404 [(''error'', JStr ''Insufficient funds to meet target amount''),
            (''available_amount'', JNum (sum amount S)), (''target_amount'', JNum t)]
        else \<exists>sel. http_select_utxos A h a t s =
            json_reply 200 [(''block_height'', JNum h), (''address'', JStr a), (''target_amount'', JNum t),
              (''selected_utxos'', utxos_json A sel), (''total_amount'', JNum (sum_by amount sel))]
          \<and> set sel \<subseteq> S \<and> distinct sel \<and> (S \<noteq> {} \<longrightarrow> t \<le> sum_by amount sel)"
proof -
  let ?S = "spendable_set (sqlite_view E s) h a"
  let ?sel = "select_utxos_for_amount (sqlite_ds E) h a t s"
  have H: "http_select_utxos A h a t s =
      (case ?sel of
         Ok us \<Rightarrow> json_reply 200 [(''block_height'', JNum h), (''address'', JStr a),
               (''target_amount'', JNum t), (''selected_utxos'', utxos_json A us),
               (''total_amount'', JNum (total_amount us))]
       | Err e \<Rightarrow> (case e of
            InsufficientFunds available required \<Rightarrow>
              json_reply 404 [(''error'', JStr ''Insufficient funds to meet target amount''),
                    (''available_amount'', JNum available), (''target_amount'', JNum required)]
          | _ \<Rightarrow> error_reply 500 (''Failed to select UTXOs: '' @ show_storage_error e))
       | Panic \<Rightarrow> Crashed)"
    using assms(1,4-7,9)
    by (simp add: http_select_utxos_def with_address_def with_known_block_def db_get_latest_block_def)
  have out: "case ?sel of
      Ok sel \<Rightarrow> if ?S = {} then sel = [] else set sel \<subseteq> ?S \<and> distinct sel \<and> t \<le> sum_by amount sel
         \<and> sel \<noteq> [] \<and> sum_by amount (butlast sel) < t
         \<and> (\<forall>u \<in> set sel. \<forall>v \<in> ?S - set sel. block_height u \<le> block_height v)
    | Err e \<Rightarrow> ?S \<noteq> {} \<and> sum amount ?S < t \<and> e = InsufficientFunds (sum amount ?S) t
    | Panic \<Rightarrow> False"
    using sq.select_outcome [OF assms(2,3,6,8,9,10)] by (simp add: Let_def)
  have fin: "finite ?S"
    using sq.db_spendable_refines [OF assms(2,3,6,8)] by (metis List.finite_set)
  have pos: "0 \<le> amount u" if "u \<in> ?S" for u
    using that sqlite_view_valid [OF assms(2,3)] by (auto simp: spendable_set_def valid_utxo_def)
  show ?thesis
  proof (cases ?sel)
    case (Ok sel)
    then have sel: "set sel \<subseteq> ?S" "distinct sel" "?S \<noteq> {} \<longrightarrow> t \<le> sum_by amount sel"
      using out by (auto split: if_splits)
    then have sum: "0 \<le> sum_by amount sel" "sum_by amount sel \<le> sum amount ?S"
      using sum_selection [OF sel(1,2) fin pos] by auto
    then have "total_amount sel = sum_by amount sel"
      using assms(10) by (simp add: total_amount_def wrap_i64_id in_i64_def)
    with H Ok sel sum show ?thesis by (auto simp: Let_def)
  next
    case (Err e)
    with out H show ?thesis by (simp add: Let_def)
  next
    case Panic
    with out show ?thesis by simp
  qed
qed

text \<open>
  \<^verbatim>\<open>GET /select-utxos\<close> over SQLite, for a valid address, a stored height, a positive
  target and funds within the range of \<^verbatim>\<open>i64\<close>: the status is 404 with the exact available
  amount when the address owns outputs but not enough, and 200 otherwise; the body then
  lists a sound selection (or nothing, when the address owns nothing), and its total is the
  sum of the listed amounts, without wrap-around.
\<close>

lemma http_select_served:
  assumes "app_ds A = sqlite_ds E" and "sqlite_healthy E" and "sqlite_inv E s"
    and "http_parse_address A a = Ok p" and "sqlite_get_latest_block E s = Ok l"
    and "0 \<le> h" and "h \<le> l" and "a \<noteq> []" and "0 < t"
    and "sum amount (spendable_set (sqlite_view E s) h a) < 9223372036854775808"
  shows "let S = spendable_set (sqlite_view E s) h a
     in if S \<noteq> {} \<and> sum amount S < t
        then http_select_utxos A h a t s =
          json_reply 404 [(''error'', JStr ''Insufficient funds to meet target amount''),
            (''available_amount'', JNum (sum amount S)), (''target_amount'', JNum t)]
        else \<exists>sel. http_select_utxos A h a t s =
            json_reply 200 [(''block_height'', JNum h), (''address'', JStr a), (''target_amount'', JNum t),
              (''selected_utxos'', utxos_json A sel), (''total_amount'', JNum (sum_by amount sel))]
          \<and> set sel \<subseteq> S \<and> distinct sel \<and> (S \<noteq> {} \<longrightarrow> t \<le> sum_by amount sel)"
  using http_select_outcome [OF assms] .

lemma delivered_block1:
  "sqlite_inv plain_env (deliver_blocks (sqlite_ds plain_env) [block1] sqlite_empty)"
  "sqlite_get_latest_block plain_env (deliver_blocks (sqlite_ds plain_env) [block1] sqlite_empty) = Ok 1"
  "spendable_set (sqlite_view plain_env (deliver_blocks (sqlite_ds plain_env) [block1] sqlite_empty)) 1 ''alice''
     = {output_rec ''t1'' ''alice'' 50 1}"
proof -
  have W: "wf_chain Map.empty (map changes_of [block1])"
    using small_chain_wf by simp
  have R: "sqlite_inv plain_env (deliver_blocks (sqlite_ds plain_env) [block1] sqlite_empty)"
    "sqlite_view plain_env (deliver_blocks (sqlite_ds plain_env) [block1] sqlite_empty)
      = ledger_run (map changes_of [block1]) Map.empty"
    using sq.deliver_blocks_refines [of plain_env sqlite_empty "[block1]" 0] W by simp_all
  then show "sqlite_inv plain_env (deliver_blocks (sqlite_ds plain_env) [block1] sqlite_empty)" by simp
  show "sqlite_get_latest_block plain_env (deliver_blocks (sqlite_ds plain_env) [block1] sqlite_empty) = Ok 1"
    using sqlite_delivered_latest [of plain_env sqlite_empty "[block1]" 0] W by simp
  have "ledger_run (map changes_of [block1]) Map.empty
      = [outpoint_key ''t1'' 0 \<mapsto> output_rec ''t1'' ''alice'' 50 1]"
    by (rule ext) (simp add: ledger_run_def changes_of_blocks ledger_apply_def ledger_create_def ledger_spend_def)
  then show "spendable_set (sqlite_view plain_env (deliver_blocks (sqlite_ds plain_env) [block1] sqlite_empty)) 1 ''alice''
     = {output_rec ''t1'' ''alice'' 50 1}"
    unfolding R(2) by (auto simp: spendable_set_def unspent_at_def)
qed

lemma http_select_served_witness:
  "let s = deliver_blocks (sqlite_ds plain_env) [block1] sqlite_empty;
       S = spendable_set (sqlite_view plain_env s) 1 ''alice''
     in if S \<noteq> {} \<and> sum amount S < 10
        then http_select_utxos plain_app 1 ''alice'' 10 s =
          json_reply 404 [(''error'', JStr ''Insufficient funds to meet target amount''),
            (''available_amount'', JNum (sum amount S)), (''target_amount'', JNum 10)]
        else \<exists>sel. http_select_utxos plain_app 1 ''alice'' 10 s =
            json_reply 200 [(''block_height'', JNum 1), (''address'', JStr ''alice''), (''target_amount'', JNum 10),
              (''selected_utxos'', utxos_json plain_app sel), (''total_amount'', JNum (sum_by amount sel))]
          \<and> set sel \<subseteq> S \<and> distinct sel \<and> (S \<noteq> {} \<longrightarrow> 10 \<le> sum_by amount sel)"
  using http_select_served [of plain_app plain_env
      "deliver_blocks (sqlite_ds plain_env) [block1] sqlite_empty" "''alice''" "''alice''" 1 1 10] delivered_block1
  unfolding Let_def by simp

text \<open>
  Only \<^verbatim>\<open>POST /signed-tx\<close> writes: a request after which the journal of signed transactions
  differs was a store request, it was answered with status 200, and the journal has exactly
  one row more, carrying the request's fields.  A request answered otherwise changed nothing.
\<close>

lemma http_writes:
  assumes "configure_routes A now r s d = (resp, d')" and "d' \<noteq> d"
  shows "\<exists>rq x. r = StoreSignedTx rq \<and> resp = json_reply 200 [(''status'', JStr ''OK'')]
     \<and> sd_rows d' = sd_rows d @ [x] \<and> stx_txid x = rq_txid rq \<and> stx_signed_tx x = rq_signed_tx rq
     \<and> stx_caller x = rq_caller rq \<and> stx_amount x = rq_amount rq \<and> stx_fee x = rq_fee rq
     \<and> stx_destination x = rq_destination rq \<and> stx_block_height x = rq_block_height rq"
  using assms
  by (cases r) (auto simp: http_store_signed_tx_def store_signed_tx_def settle_cases
      split: outcome.splits prod.splits)

lemma http_writes_witness:
  "\<exists>rq x. StoreSignedTx \<lparr>rq_txid = ''t'', rq_signed_tx = ''00'', rq_caller = ''c'', rq_block_height = 1,
        rq_amount = 5, rq_destination = ''d'', rq_fee = 1\<rparr> = StoreSignedTx rq
     \<and> json_reply 200 [(''status'', JStr ''OK'')] = json_reply 200 [(''status'', JStr ''OK'')]
     \<and> sd_rows (snd (configure_routes plain_app 9 (StoreSignedTx rq) sqlite_empty signed_empty))
        = sd_rows signed_empty @ [x] \<and> stx_txid x = rq_txid rq \<and> stx_signed_tx x = rq_signed_tx rq
     \<and> stx_caller x = rq_caller rq \<and> stx_amount x = rq_amount rq \<and> stx_fee x = rq_fee rq
     \<and> stx_destination x = rq_destination rq \<and> stx_block_height x = rq_block_height rq"
proof -
  let ?rq = "\<lparr>rq_txid = ''t'', rq_signed_tx = ''00'', rq_caller = ''c'', rq_block_height = 1,
        rq_amount = 5, rq_destination = ''d'', rq_fee = 1\<rparr>"
  obtain d' where d': "configure_routes plain_app 9 (StoreSignedTx ?rq) sqlite_empty signed_empty
      = (json_reply 200 [(''status'', JStr ''OK'')], d')" "sd_seq d' = 1"
    by (simp add: http_store_signed_tx_def store_signed_tx_def signed_empty_def)
  then have "d' \<noteq> signed_empty" by (auto simp: signed_empty_def)
  from http_writes [OF d'(1) this] show ?thesis using d'(1) by auto
qed

text \<open>
  Pages over HTTP: without faults, page \<open>p > 0\<close> of the signed transactions is answered
  with records \<open>250 (p - 1) + 1\<close> to \<open>250 p\<close> of the journal, no page means page 1, and page 0 is
  refused with status 400.
\<close>

lemma http_pages:
  assumes "sqlite_healthy (app_signed A)" and "journal (app_signed A) d xs" and "0 \<le> p"
  shows "http_get_all_signed_txs A (Some p) d =
     (if p = 0 then error_reply 400 ''page must be greater than 0''
      else json_reply 200 [(''page'', JNum p),
        (''signed_txs'', JArr (map (json_of_signed (app_time A)) (take 250 (drop (250 * nat (p - 1)) xs))))])
     \<and> http_get_all_signed_txs A None d = http_get_all_signed_txs A (Some 1) d"
proof -
  have "nat ((p - 1) * 250) = 250 * nat (p - 1)"
    using assms(3) nat_mult_distrib [of 250 "p - 1"] by (cases "p = 0") (simp_all add: mult.commute)
  then show ?thesis
    using journal_page [OF assms(1,2)] by (simp add: http_get_all_signed_txs_def page_of_def Let_def)
qed

lemma http_pages_witness:
  "http_get_all_signed_txs plain_app (Some 3) signed_empty =
     (if (3::int) = 0 then error_reply 400 ''page must be greater than 0''
      else json_reply 200 [(''page'', JNum 3),
        (''signed_txs'', JArr (map (json_of_signed (app_time plain_app)) (take 250 (drop (250 * nat (3 - 1)) []))))])
     \<and> http_get_all_signed_txs plain_app None signed_empty = http_get_all_signed_txs plain_app (Some 1) signed_empty"
  by (rule http_pages) (simp_all add: journal_empty)

end
