(* ===== verification/Storage_Main.thy ===== *)
theory Storage_Main
  imports Storage_Safety Storage_Http
begin

text \<open>
  The storage service's startup (\<^verbatim>\<open>storage/src/main.rs\<close>, the factory of
  \<^verbatim>\<open>storage/src/datasources/mod.rs\<close>) and the accept loop of its socket server.
\<close>

section \<open>Choosing the data source\<close>

text \<open>A CSV data source holds its state; a SQLite one is a pool on a database file.\<close>

datatype source = CsvSource csv_db | SqliteSource

definition sqlite_new :: "os_env \<Rightarrow> unit sres" where
  "sqlite_new os = open_pool os"

definition quoted :: "string \<Rightarrow> string" where
  "quoted s = [CHR 0x27] @ s @ [CHR 0x27]"

definition create_datasource :: "os_env \<Rightarrow> utxo_row csv_file \<Rightarrow> block_row csv_file \<Rightarrow> string \<Rightarrow> source sres" where
  "create_datasource os fu fb arg =
     (if arg = ''csv'' then and_then (csv_new os fu fb) (\<lambda>s. Ok (CsvSource s))
      else if arg = ''sqlite'' then and_then (sqlite_new os) (\<lambda>_. Ok SqliteSource)
      else Err (UnexpectedError
        (''Invalid argument for datasource: '' @ arg @ '', Use '' @ quoted ''csv'' @ '' or '' @ quoted ''sqlite'')))"

section \<open>Startup\<close>

record storage_args =
  sa_host :: string
  sa_port :: int
  sa_datasource :: string
  sa_socket_path :: string
  sa_network :: string

text \<open>What the parser of the command line yields without arguments.\<close>

definition default_storage_args :: storage_args where
  "default_storage_args =
     \<lparr>sa_host = ''127.0.0.1'', sa_port = 5557, sa_datasource = ''sqlite'', sa_socket_path = ''/tmp/network-utxos.sock'',
      sa_network = ''regtest''\<rparr>"

definition storage_parse_network :: "string \<Rightarrow> (network, string) outcome" where
  "storage_parse_network n =
     (let l = to_lowercase n
      in if l = ''mainnet'' \<or> l = ''bitcoin'' then Ok Bitcoin
         else if l = ''testnet'' then Ok Testnet
         else if l = ''regtest'' then Ok Regtest
         else if l = ''signet'' then Ok Signet
         else Panic)"

record running =
  run_source :: source
  run_network :: network
  run_socket :: string
  run_bind :: string

text \<open>The steps before the servers run; \<open>bind_fault\<close> is the HTTP listener's.\<close>

definition storage_main :: "os_env \<Rightarrow> sqlite_env \<Rightarrow> sqlite_env \<Rightarrow> string option \<Rightarrow> utxo_row csv_file
    \<Rightarrow> block_row csv_file \<Rightarrow> storage_args \<Rightarrow> (running, string) outcome" where
  "storage_main os E ES bind_fault fu fb args =
     and_then (map_err (\<lambda>e. ''Failed to create datasource: '' @ show_storage_error e)
       (create_datasource os fu fb (sa_datasource args))) (\<lambda>src.
     and_then (map_err (\<lambda>e. ''Failed to setup datasource: '' @ show_storage_error e)
       (case src of CsvSource _ \<Rightarrow> Ok () | SqliteSource \<Rightarrow> fst (sqlite_setup E sqlite_empty))) (\<lambda>_.
     and_then (map_err show_storage_error (signed_new os ES)) (\<lambda>_.
     and_then (storage_parse_network (sa_network args)) (\<lambda>n.
     and_then (raise_if bind_fault) (\<lambda>_.
       Ok \<lparr>run_source = src, run_network = n, run_socket = sa_socket_path args,
           run_bind = sa_host args @ '':'' @ show_int (sa_port args)\<rparr>)))))"

section \<open>The socket server\<close>

record listener_env =
  socket_exists :: bool
  remove_fault :: "string option"
  listen_fault :: "string option"

text \<open>
  The events of the accept loop: a client's bytes (with what its connection meets), or an
  error of \<^verbatim>\<open>accept\<close>.  A handler that fails or panics ends its own task only.
\<close>

datatype accept_event = Accepted string conn_env | AcceptError string

fun accept_loop :: "codec \<Rightarrow> 's datasource \<Rightarrow> accept_event list \<Rightarrow> 's \<Rightarrow> 's" where
  "accept_loop C D [] s = s"
| "accept_loop C D (Accepted input K # evs) s =
     accept_loop C D evs (snd (handle_socket_connection C K D input s))"
| "accept_loop C D (AcceptError e # evs) s = accept_loop C D evs s"

definition run_socket_server :: "listener_env \<Rightarrow> codec \<Rightarrow> 's datasource \<Rightarrow> accept_event list \<Rightarrow> 's
    \<Rightarrow> (unit, string) outcome \<times> 's" where
  "run_socket_server L C D evs s =
     (case and_then (if socket_exists L then raise_if (remove_fault L) else Ok ()) (\<lambda>_. raise_if (listen_fault L)) of
        Ok _ \<Rightarrow> (Ok (), accept_loop C D evs s)
      | r \<Rightarrow> (r, s))"

section \<open>Properties\<close>

lemma accept_loop_service:
  "sqlite_service s \<Longrightarrow> sqlite_service (accept_loop C (sqlite_ds E) evs s)"
proof (induction C "sqlite_ds E" evs s rule: accept_loop.induct)
  case (2 C input K evs s)
  then show ?case
    using sqlite_service.connection [OF "2.prems" prod.collapse [symmetric]] by simp
qed simp_all

text \<open>
  The server's loop stays among the reachable states: started on an empty SQLite
  database it leaves, after any sequence of connections and accept errors, a database whose
  output rows are unique by id and by outpoint and valid, and whose block rows are unique by
  height and by hash; if the listener cannot be set up the database is untouched.
\<close>

lemma socket_server_schema:
  "case run_socket_server L C (sqlite_ds E) evs sqlite_empty of
     (Ok _, s) \<Rightarrow> sqlite_service s \<and> rows_ok (sq_utxo s) \<and> blocks_ok (sq_blocks s)
   | (_, s) \<Rightarrow> s = sqlite_empty"
  using accept_loop_service [OF sqlite_service.start, of C E evs]
    sqlite_service_schema [OF accept_loop_service [OF sqlite_service.start, of C E evs]]
  by (auto simp: run_socket_server_def sqlite_schema_def split: outcome.splits)

text \<open>
  What a successful start means: the data source is one of the two known ones, by the
  exact name \<^verbatim>\<open>csv\<close> or \<^verbatim>\<open>sqlite\<close>; the network is the one the argument names, whatever its
  case; and no fault occurred on the way.  Any other name of a data source is an error, any
  other name of a network a panic.
\<close>

lemma storage_start:
  assumes "storage_main os E ES bf fu fb args = Ok r"
  shows "(sa_datasource args = ''csv'' \<and> (\<exists>s. csv_new os fu fb = Ok s \<and> run_source r = CsvSource s)
      \<or> sa_datasource args = ''sqlite'' \<and> run_source r = SqliteSource)
     \<and> to_lowercase (sa_network args) \<in> {''mainnet'', ''bitcoin'', ''testnet'', ''regtest'', ''signet''}
     \<and> storage_parse_network (sa_network args) = Ok (run_network r)
     \<and> run_bind r = sa_host args @ '':'' @ show_int (sa_port args)
     \<and> cwd_fault os = None \<and> mkdir_fault os = None \<and> bf = None"
  using assms
  by (auto simp: storage_main_def create_datasource_def and_then_eq_Ok storage_parse_network_def Let_def
      signed_new_def open_pool_def split: if_splits)

lemma storage_start_witness:
  "\<exists>r. storage_main \<lparr>cwd_fault = None, mkdir_fault = None, path_is_utf8 = True, pool_open_fault = None\<rparr>
        plain_env plain_env None Missing Missing
        \<lparr>sa_host = ''127.0.0.1'', sa_port = 5557, sa_datasource = ''sqlite'', sa_socket_path = ''s'',
         sa_network = ''MainNet''\<rparr> = Ok r \<and> run_source r = SqliteSource \<and> run_network r = Bitcoin"
proof -
  let ?os = "\<lparr>cwd_fault = None, mkdir_fault = None, path_is_utf8 = True, pool_open_fault = None\<rparr>"
  let ?args = "\<lparr>sa_host = ''127.0.0.1'', sa_port = 5557, sa_datasource = ''sqlite'', sa_socket_path = ''s'',
         sa_network = ''MainNet''\<rparr>"
  have low: "to_lowercase ''MainNet'' = ''mainnet''" by code_simp
  have "migration_fault plain_env = None" by (simp add: plain_env_def)
  then obtain r where r: "storage_main ?os plain_env plain_env None Missing Missing ?args = Ok r"
    by (simp add: storage_main_def create_datasource_def sqlite_new_def open_pool_def signed_new_def
        run_migrations_def sqlite_setup_def storage_parse_network_def low Let_def)
  from storage_start [OF r] r low show ?thesis by (auto simp: storage_parse_network_def Let_def)
qed

end
