(* ===== verification/Indexer_Api.thy ===== *)
theory Indexer_Api
  imports Storage_Http Rpc_Client "HOL-Library.List_Lexorder" "HOL-Library.Char_ord"
begin

text \<open>
  The HTTP interface of the indexer (\<^verbatim>\<open>indexer/src/api.rs\<close>): watched addresses, the selection of
  outputs through the UTXO service, unsigned transactions, signing through the enclave and the
  idempotent preparation of transactions with its cache.  A request is what warp's filters
  extracted.  The services at the other end, the clock and the cache file are a state \<open>'x\<close>
  that every call may change.
\<close>

section \<open>State and requests\<close>

record cached_prepare =
  cp_txid :: string
  cp_created_at :: datetime

record 'a api_state =
  st_watched :: "'a set"
  st_network :: network
  st_enclave_url :: string
  st_utxo_url :: string
  st_enclave_key :: string
  st_indexer_key :: string
  st_cache :: "(string \<times> cached_prepare) list"

text \<open>
  \<open>visit\<close> is the order in which a hash set is visited; \<open>sha256_hex\<close> is the digest in lower-case
  hexadecimal; \<open>json_string\<close> and \<open>json_parse\<close> are serde_json's; \<open>api_post\<close> takes the url, the
  \<^verbatim>\<open>X-API-Key\<close> header if any, and the body.
\<close>

record ('u, 'a, 'x) api_env =
  api_lib :: "('u, 'a) bitcoin_lib"
  api_time :: time_codec
  visit :: "'a set \<Rightarrow> 'a list"
  api_get :: "string \<Rightarrow> 'x \<Rightarrow> (rpc_response, string) outcome \<times> 'x"
  api_post :: "string \<Rightarrow> string option \<Rightarrow> json \<Rightarrow> 'x \<Rightarrow> (rpc_response, string) outcome \<times> 'x"
  sha256_hex :: "string \<Rightarrow> string"
  utc_now :: "'x \<Rightarrow> datetime"
  read_file :: "string \<Rightarrow> 'x \<Rightarrow> (string, string) outcome"
  write_file :: "string \<Rightarrow> string \<Rightarrow> 'x \<Rightarrow> (unit, string) outcome \<times> 'x"
  json_string :: "json \<Rightarrow> string"
  json_parse :: "string \<Rightarrow> (json, string) outcome"

record sign_request =
  sr_block_height :: i32
  sr_amount :: i64
  sr_destination :: string
  sr_fee :: i64
  sr_caller :: string

record prepare_request =
  pr_block_height :: i32
  pr_amount :: i64
  pr_destination :: string
  pr_fee :: i64

datatype api_request =
    WatchAddress string string
  | GetWatchAddress string
  | DeriveAddress string string
  | SelectWatched string i32 i64
  | PrepareTransaction string prepare_request
  | SignTransaction string sign_request
  | ApiHealth

text \<open>What a handler does: an answer, and the state of the interface and of the world around it.\<close>

type_synonym ('a, 'x) handler = "'a api_state \<times> 'x \<Rightarrow> http_response \<times> 'a api_state \<times> 'x"

section \<open>Strings\<close>

text \<open>
  Bytes of the first character of a UTF-8 string when it is white space (Unicode's
  \<^verbatim>\<open>White_Space\<close>), and 0 otherwise.
\<close>

fun white_bytes :: "nat list \<Rightarrow> nat" where
  "white_bytes [] = 0"
| "white_bytes (a # bs) =
     (if a \<in> {9, 10, 11, 12, 13, 32} then 1
      else case bs of
          [] \<Rightarrow> 0
        | b # cs \<Rightarrow>
            if a = 194 \<and> (b = 133 \<or> b = 160) then 2
            else case cs of
                [] \<Rightarrow> 0
              | c # _ \<Rightarrow>
                  if a = 225 \<and> b = 154 \<and> c = 128
                   \<or> a = 226 \<and> b = 128 \<and> (128 \<le> c \<and> c \<le> 138 \<or> c \<in> {168, 169, 175})
                   \<or> a = 226 \<and> b = 129 \<and> c = 159 \<or> a = 227 \<and> b = 128 \<and> c = 128
                  then 3 else 0)"

text \<open>\<^verbatim>\<open>trim().is_empty()\<close>.\<close>

function is_blank :: "string \<Rightarrow> bool" where
  "is_blank s =
     (if s = [] then True
      else if 0 < white_bytes (map of_char s) then is_blank (drop (white_bytes (map of_char s)) s)
      else False)"
  by auto
termination by (relation "measure length") auto

declare is_blank.simps [simp del]

text \<open>\<^verbatim>\<open>trim_start_matches("0x")\<close>.\<close>

fun trim_0x :: "string \<Rightarrow> string" where
  "trim_0x (a # b # s) = (if a = CHR ''0'' \<and> b = CHR ''x'' then trim_0x s else a # b # s)"
| "trim_0x s = s"

section \<open>Addresses\<close>

definition api_parse_address :: "('u, 'a) bitcoin_lib \<Rightarrow> network \<Rightarrow> string \<Rightarrow> ('a, string) outcome" where
  "api_parse_address L n a =
     and_then (map_err (\<lambda>e. ''Address parse error: '' @ e) (addr_from_str L a)) (\<lambda>u.
       map_err (\<lambda>e. ''Network mismatch: '' @ e) (addr_require_network L u n))"

text \<open>The check every handler behind a key starts with.\<close>

definition with_key :: "string \<Rightarrow> ('a, 'x) handler \<Rightarrow> ('a, 'x) handler" where
  "with_key key k sx = (if key \<noteq> st_indexer_key (fst sx) then (error_reply 401 ''Unauthorized'', sx) else k sx)"

definition watch :: "'a \<Rightarrow> 'a api_state \<Rightarrow> 'a api_state" where
  "watch a st = st\<lparr>st_watched := insert a (st_watched st)\<rparr>"

definition watch_address_handler :: "('u, 'a, 'x) api_env \<Rightarrow> string \<Rightarrow> ('a, 'x) handler" where
  "watch_address_handler E btc_address sx =
     (case api_parse_address (api_lib E) (st_network (fst sx)) btc_address of
        Ok a \<Rightarrow> (json_reply 200 [(''status'', JStr ''OK'')], watch a (fst sx), snd sx)
      | Err _ \<Rightarrow> (error_reply 400 ''Invalid BTC address'', sx)
      | Panic \<Rightarrow> (Crashed, sx))"

definition get_watch_address_handler :: "('u, 'a, 'x) api_env \<Rightarrow> string \<Rightarrow> ('a, 'x) handler" where
  "get_watch_address_handler E btc_address sx =
     (case api_parse_address (api_lib E) (st_network (fst sx)) btc_address of
        Ok a \<Rightarrow> (json_reply 200 [(''watched'', JBool (a \<in> st_watched (fst sx)))], sx)
      | Err _ \<Rightarrow> (error_reply 400 ''Invalid BTC address'', sx)
      | Panic \<Rightarrow> (Crashed, sx))"

definition is_success :: "nat \<Rightarrow> bool" where
  "is_success status \<longleftrightarrow> 200 \<le> status \<and> status < 300"

definition derive_address_handler :: "('u, 'a, 'x) api_env \<Rightarrow> string \<Rightarrow> ('a, 'x) handler" where
  "derive_address_handler E evm_address sx =
     (case sx of (st, x) \<Rightarrow>
      if is_blank (st_enclave_key st) then (error_reply 500 ''ENCLAVE_API_KEY missing'', st, x)
      else case api_post E (st_enclave_url st @ ''/derive_address'') (Some (st_enclave_key st))
                  (JObj [(''evm_address'', JStr (trim_0x evm_address))]) x of
          (Panic, x') \<Rightarrow> (Crashed, st, x')
        | (Err _, x') \<Rightarrow> (error_reply 500 ''Failed to derive'', st, x')
        | (Ok r, x') \<Rightarrow>
            if \<not> is_success (rr_status r) then (error_reply 500 ''Failed to derive'', st, x')
            else case rr_json r of
                Panic \<Rightarrow> (Crashed, st, x')
              | Err _ \<Rightarrow> (error_reply 500 ''Invalid response'', st, x')
              | Ok j \<Rightarrow>
                  (case req_field as_str ''address'' j of
                     None \<Rightarrow> (error_reply 500 ''Invalid response'', st, x')
                   | Some addr \<Rightarrow>
                      (case api_parse_address (api_lib E) (st_network st) addr of
                         Panic \<Rightarrow> (Crashed, st, x')
                       | Ok a \<Rightarrow> (json_reply 200 [(''btc_address'', JStr addr)], watch a st, x')
                       | Err _ \<Rightarrow> (json_reply 200 [(''btc_address'', JStr addr)], st, x'))))"

section \<open>Selecting among all watched addresses\<close>

definition spendable_url :: "'a api_state \<Rightarrow> ('u, 'a) bitcoin_lib \<Rightarrow> i32 \<Rightarrow> 'a \<Rightarrow> string" where
  "spendable_url st L h a =
     st_utxo_url st @ ''/spendable-utxos/block/'' @ show_int h @ ''/address/'' @ addr_to_string L a"

text \<open>A response that does not carry the list counts as none.\<close>

definition spendable_reply :: "time_codec \<Rightarrow> rpc_response \<Rightarrow> (utxo list, string) outcome" where
  "spendable_reply T r =
     (if \<not> is_success (rr_status r) then Ok []
      else case rr_json r of
          Panic \<Rightarrow> Panic
        | Err _ \<Rightarrow> Ok []
        | Ok j \<Rightarrow> Ok (case Option.bind (json_get ''spendable_utxos'' j) (utxos_of_json T) of
             Some us \<Rightarrow> us | None \<Rightarrow> []))"

fun gather_spendable :: "('u, 'a, 'x) api_env \<Rightarrow> 'a api_state \<Rightarrow> i32 \<Rightarrow> 'a list \<Rightarrow> utxo list \<Rightarrow> 'x
    \<Rightarrow> (utxo list, string) outcome \<times> 'x" where
  "gather_spendable E st h [] utxos x = (Ok utxos, x)"
| "gather_spendable E st h (a # as) utxos x =
     (case api_get E (spendable_url st (api_lib E) h a) x of
        (Panic, x') \<Rightarrow> (Panic, x')
      | (Err _, x') \<Rightarrow> gather_spendable E st h as utxos x'
      | (Ok r, x') \<Rightarrow>
          (case spendable_reply (api_time E) r of
             Ok us \<Rightarrow> gather_spendable E st h as (utxos @ us) x'
           | Err _ \<Rightarrow> gather_spendable E st h as utxos x'
           | Panic \<Rightarrow> (Panic, x')))"

text \<open>The loop over the sorted outputs is the one of the storage service's coin selection.\<close>

definition select_utxos_handler :: "('u, 'a, 'x) api_env \<Rightarrow> i32 \<Rightarrow> i64 \<Rightarrow> ('a, 'x) handler" where
  "select_utxos_handler E h target sx =
     (case sx of (st, x) \<Rightarrow>
      case gather_spendable E st h (visit E (st_watched st)) [] x of
        (Ok utxos, x') \<Rightarrow>
          (let (selected, total) = select_loop target (sort_key block_height utxos) [] 0
           in (if total < target then error_reply 400 ''Insufficient funds''
               else json_reply 200 [(''selected_utxos'', JArr (map (json_of_utxo (api_time E)) selected)),
                      (''total'', JNum total)], st, x'))
      | (_, x') \<Rightarrow> (Crashed, st, x'))"

section \<open>Fetching a selection\<close>

text \<open>An error of these functions is the text and the status of the answer.\<close>

type_synonym 'r fetched = "('r, string \<times> nat) outcome"

definition select_url :: "'a api_state \<Rightarrow> ('u, 'a) bitcoin_lib \<Rightarrow> i32 \<Rightarrow> 'a \<Rightarrow> i64 \<Rightarrow> string" where
  "select_url st L h a needed =
     st_utxo_url st @ ''/select-utxos/block/'' @ show_int h @ ''/address/'' @ addr_to_string L a
       @ ''/amount/'' @ show_int needed"

definition selection_reply :: "time_codec \<Rightarrow> rpc_response \<Rightarrow> utxo list fetched" where
  "selection_reply T r =
     (if \<not> is_success (rr_status r) then
        (case rr_text r of
           Ok t \<Rightarrow> Err (''UTXO service error: '' @ t, 502)
         | Err _ \<Rightarrow> Err (''UTXO service error: Unknown error'', 502)
         | Panic \<Rightarrow> Panic)
      else case rr_json r of
          Panic \<Rightarrow> Panic
        | Err _ \<Rightarrow> Err (''Invalid UTXO response'', 500)
        | Ok j \<Rightarrow>
            (case utxos_of_json T (case json_get ''selected_utxos'' j of Some v \<Rightarrow> v | None \<Rightarrow> JNull) of
               Some us \<Rightarrow> Ok us
             | None \<Rightarrow> Err (''Malformed UTXO data'', 500)))"

definition ask_selection :: "('u, 'a, 'x) api_env \<Rightarrow> 'a api_state \<Rightarrow> i32 \<Rightarrow> 'a \<Rightarrow> i64 \<Rightarrow> 'x \<Rightarrow> utxo list fetched \<times> 'x" where
  "ask_selection E st h a needed x =
     (case api_get E (select_url st (api_lib E) h a needed) x of
        (Ok r, x') \<Rightarrow> (selection_reply (api_time E) r, x')
      | (Err _, x') \<Rightarrow> (Err (''Failed to fetch UTXOs'', 500), x')
      | (Panic, x') \<Rightarrow> (Panic, x'))"

text \<open>The loop over one answer: the outputs so far, their total, and whether it was ended by reaching the target.\<close>

fun take_until :: "i64 \<Rightarrow> utxo list \<Rightarrow> utxo list \<Rightarrow> i64 \<Rightarrow> utxo list \<times> i64 \<times> bool" where
  "take_until needed [] sel tot = (sel, tot, False)"
| "take_until needed (u # us) sel tot =
     (let tot' = wrap_i64 (tot + amount u)
      in if needed \<le> tot' then (sel @ [u], tot', True) else take_until needed us (sel @ [u]) tot')"

definition insufficient :: "string \<times> nat" where
  "insufficient = (''Insufficient funds across watched addresses'', 400)"

fun fetch_loop :: "('u, 'a, 'x) api_env \<Rightarrow> 'a api_state \<Rightarrow> i32 \<Rightarrow> i64 \<Rightarrow> 'a list \<Rightarrow> utxo list \<Rightarrow> i64 \<Rightarrow> 'x
    \<Rightarrow> utxo list fetched \<times> 'x" where
  "fetch_loop E st h needed [] sel tot x = (Err insufficient, x)"
| "fetch_loop E st h needed (a # as) sel tot x =
     then_do (ask_selection E st h a (wrap_i64 (needed - tot))) (\<lambda>us x'.
       case take_until needed us sel tot of
         (sel', tot', True) \<Rightarrow> (Ok sel', x')
       | (sel', tot', False) \<Rightarrow> fetch_loop E st h needed as sel' tot' x') x"

definition fetch_selected_utxos :: "('u, 'a, 'x) api_env \<Rightarrow> 'a api_state \<Rightarrow> i32 \<Rightarrow> i64 \<Rightarrow> 'x \<Rightarrow> utxo list fetched \<times> 'x" where
  "fetch_selected_utxos E st h needed x = fetch_loop E st h needed (visit E (st_watched st)) [] 0 x"

fun fetch_loop_deterministic :: "('u, 'a, 'x) api_env \<Rightarrow> 'a api_state \<Rightarrow> i32 \<Rightarrow> i64 \<Rightarrow> 'a list \<Rightarrow> utxo list \<Rightarrow> i64 \<Rightarrow> 'x
    \<Rightarrow> utxo list fetched \<times> 'x" where
  "fetch_loop_deterministic E st h needed [] sel tot x =
     (if tot < needed then (Err insufficient, x) else (Ok sel, x))"
| "fetch_loop_deterministic E st h needed (a # as) sel tot x =
     (if needed \<le> tot then (Ok sel, x)
      else then_do (ask_selection E st h a (wrap_i64 (needed - tot))) (\<lambda>us x'.
        case take_until needed us sel tot of
          (sel', tot', _) \<Rightarrow> fetch_loop_deterministic E st h needed as sel' tot' x') x)"

definition sorted_addresses :: "('u, 'a, 'x) api_env \<Rightarrow> 'a set \<Rightarrow> 'a list" where
  "sorted_addresses E W = sort_key (addr_to_string (api_lib E)) (visit E W)"

definition fetch_selected_utxos_deterministic :: "('u, 'a, 'x) api_env \<Rightarrow> 'a api_state \<Rightarrow> i32 \<Rightarrow> i64 \<Rightarrow> 'x
    \<Rightarrow> utxo list fetched \<times> 'x" where
  "fetch_selected_utxos_deterministic E st h needed x =
     fetch_loop_deterministic E st h needed (sorted_addresses E (st_watched st)) [] 0 x"

section \<open>The cache of prepared transactions\<close>

definition cache_preimage :: "prepare_request \<Rightarrow> string" where
  "cache_preimage r =
     le_bytes 4 (pr_block_height r) @ le_bytes 8 (pr_amount r) @ le_bytes 8 (pr_fee r) @ pr_destination r"

definition generate_prepare_tx_cache_key :: "('u, 'a, 'x) api_env \<Rightarrow> prepare_request \<Rightarrow> string" where
  "generate_prepare_tx_cache_key E r = sha256_hex E (cache_preimage r)"

definition json_of_prepared :: "string \<Rightarrow> json" where
  "json_of_prepared t = JObj [(''txid'', JStr t)]"

definition json_of_cached :: "time_codec \<Rightarrow> cached_prepare \<Rightarrow> json" where
  "json_of_cached T c =
     JObj [(''response'', json_of_prepared (cp_txid c)), (''created_at'', JStr (time_json T (cp_created_at c)))]"

definition cached_of_json :: "time_codec \<Rightarrow> json \<Rightarrow> cached_prepare option" where
  "cached_of_json T j =
     Option.bind (req_field (req_field as_str ''txid'') ''response'' j) (\<lambda>t.
     Option.bind (req_field (as_time T) ''created_at'' j) (\<lambda>c.
       Some \<lparr>cp_txid = t, cp_created_at = c\<rparr>))"

text \<open>A later entry of the same key replaces an earlier one.\<close>

fun cache_of_json :: "time_codec \<Rightarrow> json \<Rightarrow> (string \<times> cached_prepare) list option" where
  "cache_of_json T (JObj kvs) =
     map_option (\<lambda>es. fold (\<lambda>(k, c) m. AList.update k c m) es [])
       (all_some (map (\<lambda>(k, j). map_option (Pair k) (cached_of_json T j)) kvs))"
| "cache_of_json T _ = None"

definition PREPARE_TX_CACHE_FILE :: string where
  "PREPARE_TX_CACHE_FILE = ''/app/cache/prepare_tx_cache.json''"

definition load_prepare_tx_cache :: "('u, 'a, 'x) api_env \<Rightarrow> 'x \<Rightarrow> (string \<times> cached_prepare) list" where
  "load_prepare_tx_cache E x =
     (case read_file E PREPARE_TX_CACHE_FILE x of
        Ok contents \<Rightarrow>
          (case json_parse E contents of
             Ok j \<Rightarrow> (case cache_of_json (api_time E) j of Some m \<Rightarrow> m | None \<Rightarrow> [])
           | _ \<Rightarrow> [])
      | _ \<Rightarrow> [])"

definition cache_document :: "time_codec \<Rightarrow> (string \<times> cached_prepare) list \<Rightarrow> json" where
  "cache_document T m = JObj (map (\<lambda>(k, c). (k, json_of_cached T c)) m)"

definition save_prepare_tx_cache :: "('u, 'a, 'x) api_env \<Rightarrow> (string \<times> cached_prepare) list \<Rightarrow> 'x
    \<Rightarrow> (unit, string) outcome \<times> 'x" where
  "save_prepare_tx_cache E m =
     write_file E PREPARE_TX_CACHE_FILE (json_string E (cache_document (api_time E) m))"

section \<open>The unsigned transaction\<close>

text \<open>Outputs whose transaction id does not parse are left out.\<close>

definition unsigned_inputs :: "('u, 'a) bitcoin_lib \<Rightarrow> utxo list \<Rightarrow> txin list" where
  "unsigned_inputs L us =
     List.map_filter (\<lambda>u. map_option (\<lambda>t. \<lparr>prev_txid = t, prev_vout = as_u32 (vout u), script_sig = [],
         sequence = 4294967295, witness = []\<rparr>) (txid_from_str L (txid u))) us"

definition change_output :: "('u, 'a) bitcoin_lib \<Rightarrow> network \<Rightarrow> utxo list \<Rightarrow> i64 \<Rightarrow> txout list fetched" where
  "change_output L n us change =
     (if change \<le> 0 then Ok []
      else case us of
          [] \<Rightarrow> Ok []
        | u # _ \<Rightarrow>
            (case api_parse_address L n (address u) of
               Ok a \<Rightarrow> Ok [\<lparr>txo_value = as_u64 change, script_pubkey = addr_script_pubkey L a\<rparr>]
             | Err _ \<Rightarrow> Ok []
             | Panic \<Rightarrow> Panic))"

definition build_unsigned_transaction :: "('u, 'a) bitcoin_lib \<Rightarrow> utxo list \<Rightarrow> i64 \<Rightarrow> i64 \<Rightarrow> string \<Rightarrow> network
    \<Rightarrow> (transaction \<times> i64) fetched" where
  "build_unsigned_transaction L us amt fee destination n =
     (let total_needed = wrap_i64 (amt + fee); total_selected = total_amount us
      in if total_selected < total_needed then Err (''Insufficient funds'', 400)
         else case api_parse_address L n destination of
             Panic \<Rightarrow> Panic
           | Err _ \<Rightarrow> Err (''Invalid destination'', 400)
           | Ok dest \<Rightarrow>
               (let change = wrap_i64 (total_selected - total_needed)
                in and_then (change_output L n us change) (\<lambda>change_outs.
                  Ok (\<lparr>tx_version = 2, lock_time = 0, tx_input = unsigned_inputs L us,
                       tx_output = \<lparr>txo_value = as_u64 amt, script_pubkey = addr_script_pubkey L dest\<rparr> # change_outs\<rparr>,
                      change))))"

section \<open>Signing\<close>

text \<open>The result is dropped by the task that runs it.\<close>

definition api_store_signed_tx :: "('u, 'a, 'x) api_env \<Rightarrow> 'a api_state \<Rightarrow> store_signed_tx_request \<Rightarrow> 'x
    \<Rightarrow> (unit, string) outcome \<times> 'x" where
  "api_store_signed_tx E st rq x =
     (case api_post E (st_utxo_url st @ ''/signed-tx'') None (json_of_store_request rq) x of
        (Ok _, x') \<Rightarrow> (Ok (), x')
      | (Err e, x') \<Rightarrow> (Err e, x')
      | (Panic, x') \<Rightarrow> (Panic, x'))"

definition enclave_input :: "utxo \<Rightarrow> json" where
  "enclave_input u =
     JObj [(''txid'', JStr (txid u)), (''vout'', JNum (vout u)), (''amount'', JNum (amount u)), (''address'', JStr (address u))]"

definition enclave_output :: "string \<Rightarrow> i64 \<Rightarrow> json" where
  "enclave_output a v = JObj [(''address'', JStr a), (''amount'', JNum v)]"

definition enclave_request :: "utxo list \<Rightarrow> sign_request \<Rightarrow> i64 \<Rightarrow> json" where
  "enclave_request us req change =
     JObj [(''inputs'', JArr (map enclave_input us)),
       (''outputs'', JArr (enclave_output (sr_destination req) (sr_amount req)
          # (if 0 < change then case us of [] \<Rightarrow> [] | u # _ \<Rightarrow> [enclave_output (address u) change] else [])))]"

definition fetched_error :: "string \<times> nat \<Rightarrow> http_response" where
  "fetched_error e = error_reply (snd e) (fst e)"

text \<open>What the enclave's answer becomes; a signed transaction is handed to the UTXO service to be kept.\<close>

definition finish_signing :: "('u, 'a, 'x) api_env \<Rightarrow> 'a api_state \<Rightarrow> sign_request \<Rightarrow> string
    \<Rightarrow> (rpc_response, string) outcome \<Rightarrow> 'x \<Rightarrow> http_response \<times> 'x" where
  "finish_signing E st req t sign_resp x =
     (case sign_resp of
        Panic \<Rightarrow> (Crashed, x)
      | Err _ \<Rightarrow> (error_reply 500 ''Failed to contact enclave'', x)
      | Ok r \<Rightarrow>
          if is_success (rr_status r) then
            (case rr_json r of
               Panic \<Rightarrow> (Crashed, x)
             | Err _ \<Rightarrow> (error_reply 500 ''Invalid response'', x)
             | Ok j \<Rightarrow>
                 (case req_field as_str ''signed_tx'' j of
                    None \<Rightarrow> (error_reply 500 ''Invalid response'', x)
                  | Some raw \<Rightarrow>
                      if hex_decode (api_lib E) raw = None then (error_reply 500 ''Invalid response'', x)
                      else (json_reply 200 [(''signed_tx'', JStr raw), (''txid'', JStr t)],
                        snd (api_store_signed_tx E st
                          \<lparr>rq_txid = t, rq_signed_tx = raw, rq_caller = sr_caller req,
                           rq_block_height = sr_block_height req, rq_amount = sr_amount req,
                           rq_destination = sr_destination req, rq_fee = sr_fee req\<rparr> x))))
          else
            (case rr_text r of
               Ok e \<Rightarrow> (error_reply (rr_status r) e, x)
             | Err _ \<Rightarrow> (error_reply (rr_status r) ''Failed'', x)
             | Panic \<Rightarrow> (Crashed, x)))"

definition sign_transaction_handler :: "('u, 'a, 'x) api_env \<Rightarrow> sign_request \<Rightarrow> ('a, 'x) handler" where
  "sign_transaction_handler E req sx =
     (case sx of (st, x) \<Rightarrow>
      if is_blank (st_enclave_key st) then (error_reply 500 ''ENCLAVE_API_KEY missing'', st, x)
      else case fetch_selected_utxos E st (sr_block_height req) (wrap_i64 (sr_amount req + sr_fee req)) x of
          (Panic, x1) \<Rightarrow> (Crashed, st, x1)
        | (Err e, x1) \<Rightarrow> (fetched_error e, st, x1)
        | (Ok us, x1) \<Rightarrow>
            (case build_unsigned_transaction (api_lib E) us (sr_amount req) (sr_fee req) (sr_destination req)
                    (st_network st) of
               Panic \<Rightarrow> (Crashed, st, x1)
             | Err e \<Rightarrow> (fetched_error e, st, x1)
             | Ok (unsigned_tx, change) \<Rightarrow>
                 (case api_post E (st_enclave_url st @ ''/sign_transaction'') (Some (st_enclave_key st))
                         (enclave_request us req change) x1 of
                    (sign_resp, x2) \<Rightarrow>
                      (case finish_signing E st req (compute_txid (api_lib E) unsigned_tx) sign_resp x2 of
                         (reply, x3) \<Rightarrow> (reply, st, x3)))))"

section \<open>Preparing\<close>

definition prepare_transaction_handler_idempotent :: "('u, 'a, 'x) api_env \<Rightarrow> prepare_request \<Rightarrow> ('a, 'x) handler" where
  "prepare_transaction_handler_idempotent E req sx =
     (case sx of (st, x) \<Rightarrow>
      let key = generate_prepare_tx_cache_key E req
      in case map_of (st_cache st) key of
          Some entry \<Rightarrow> (Reply 200 (Some (json_of_prepared (cp_txid entry))), st, x)
        | None \<Rightarrow>
           (case fetch_selected_utxos_deterministic E st (pr_block_height req) (wrap_i64 (pr_amount req + pr_fee req)) x of
              (Panic, x1) \<Rightarrow> (Crashed, st, x1)
            | (Err e, x1) \<Rightarrow> (fetched_error e, st, x1)
            | (Ok us, x1) \<Rightarrow>
               (case build_unsigned_transaction (api_lib E) us (pr_amount req) (pr_fee req) (pr_destination req)
                       (st_network st) of
                  Panic \<Rightarrow> (Crashed, st, x1)
                | Err e \<Rightarrow> (fetched_error e, st, x1)
                | Ok (unsigned_tx, _) \<Rightarrow>
                    (let t = compute_txid (api_lib E) unsigned_tx;
                         cache = AList.update key \<lparr>cp_txid = t, cp_created_at = utc_now E x1\<rparr> (st_cache st)
                     in case save_prepare_tx_cache E cache x1 of
                          (Panic, x2) \<Rightarrow> (Crashed, st\<lparr>st_cache := cache\<rparr>, x2)
                        | (_, x2) \<Rightarrow> (Reply 200 (Some (json_of_prepared t)), st\<lparr>st_cache := cache\<rparr>, x2)))))"

section \<open>Routing\<close>

text \<open>\<^verbatim>\<open>run_server\<close> sends each request to its handler; the handlers of all \<^verbatim>\<open>POST\<close> routes check the key first.\<close>

fun api_dispatch :: "('u, 'a, 'x) api_env \<Rightarrow> api_request \<Rightarrow> ('a, 'x) handler" where
  "api_dispatch E (WatchAddress key a) sx = with_key key (watch_address_handler E a) sx"
| "api_dispatch E (GetWatchAddress a) sx = get_watch_address_handler E a sx"
| "api_dispatch E (DeriveAddress key a) sx = with_key key (derive_address_handler E a) sx"
| "api_dispatch E (SelectWatched key h target) sx = with_key key (select_utxos_handler E h target) sx"
| "api_dispatch E (PrepareTransaction key req) sx = with_key key (prepare_transaction_handler_idempotent E req) sx"
| "api_dispatch E (SignTransaction key req) sx = with_key key (sign_transaction_handler E req) sx"
| "api_dispatch E ApiHealth sx = (Reply 200 None, sx)"

end
