(* ===== verification/Api_Correct.thy ===== *)
theory Api_Correct
  imports Indexer_Api
begin

text \<open>
  What the indexer's HTTP interface promises: nothing happens without the key, prepared
  transactions are idempotent and survive a restart, a transaction balances its inputs, and
  which selections the UTXO service lets it find.
\<close>

section \<open>An instance\<close>

text \<open>
  An interface whose UTXO service gives one answer to every query, whose enclave is down,
  whose digest is the identity, whose world is the list of written documents, and which can print one document.
\<close>

definition small_api :: "(rpc_response, string) outcome \<Rightarrow> json \<Rightarrow> (string, string, string list) api_env" where
  "small_api answer doc =
     \<lparr>api_lib = small_lib, api_time = plain_time, visit = (\<lambda>W. filter (\<lambda>a. a \<in> W) [''alice'']),
      api_get = (\<lambda>url x. (answer, x)), api_post = (\<lambda>url key body x. (Err ''down'', x)),
      sha256_hex = (\<lambda>s. s), utc_now = (\<lambda>x. 7),
      read_file = (\<lambda>f x. case x of [] \<Rightarrow> Err ''missing'' | d # _ \<Rightarrow> Ok d), write_file = (\<lambda>f d x. (Ok (), d # x)),
      json_string = (\<lambda>j. if j = doc then ''doc'' else ''other''),
      json_parse = (\<lambda>t. if t = ''doc'' then Ok doc else Err ''syntax'')\<rparr>"

definition small_api_state :: "string api_state" where
  "small_api_state =
     \<lparr>st_watched = {''alice''}, st_network = Regtest, st_enclave_url = ''http://enclave'', st_utxo_url = ''http://utxos'',
      st_enclave_key = ''e'', st_indexer_key = ''k'', st_cache = []\<rparr>"

abbreviation down_api :: "(string, string, string list) api_env" where
  "down_api \<equiv> small_api (Err ''down'') JNull"

definition no_funds :: prepare_request where
  "no_funds = \<lparr>pr_block_height = 1, pr_amount = - 5, pr_destination = ''bob'', pr_fee = 2\<rparr>"

definition prepared :: "http_response \<times> string api_state \<times> string list" where
  "prepared = api_dispatch down_api (PrepareTransaction ''k'' no_funds) (small_api_state, [])"

section \<open>Access\<close>

fun request_key :: "api_request \<Rightarrow> string option" where
  "request_key (WatchAddress key _) = Some key"
| "request_key (DeriveAddress key _) = Some key"
| "request_key (SelectWatched key _ _) = Some key"
| "request_key (PrepareTransaction key _) = Some key"
| "request_key (SignTransaction key _) = Some key"
| "request_key _ = None"

lemma with_key_wrong: "key \<noteq> st_indexer_key (fst sx) \<Longrightarrow> with_key key k sx = (error_reply 401 ''Unauthorized'', sx)"
  by (simp add: with_key_def)

lemma get_watch_effect: "get_watch_address_handler E a sx = (reply, sx') \<Longrightarrow> sx' = sx"
  by (auto simp: get_watch_address_handler_def split: outcome.splits)

text \<open>
  C36. Nothing happens without the key: a request that changes the interface's state or that
  reaches the enclave, the UTXO service or the cache file carried the configured key; and a
  request behind the key that carries another one is answered with 401.
\<close>

theorem api_needs_key:
  assumes "api_dispatch E r sx = (reply, sx')"
  shows "(sx' = sx \<or> request_key r = Some (st_indexer_key (fst sx)))
     \<and> (case request_key r of None \<Rightarrow> True
         | Some key \<Rightarrow> key = st_indexer_key (fst sx) \<or> reply = error_reply 401 ''Unauthorized'')"
  using assms by (cases r) (auto simp: with_key_def dest: get_watch_effect split: if_splits)

theorem api_needs_key_witness:
  "api_dispatch down_api (WatchAddress ''guess'' ''mallory'') (small_api_state, [])
     = (error_reply 401 ''Unauthorized'', small_api_state, [])"
proof -
  obtain reply sx' where d: "api_dispatch down_api (WatchAddress ''guess'' ''mallory'') (small_api_state, []) = (reply, sx')"
    by (meson surj_pair)
  from api_needs_key [OF d] show ?thesis using d by (simp add: small_api_state_def)
qed

section \<open>The cache\<close>

lemma prepare_hit:
  "map_of (st_cache st) (generate_prepare_tx_cache_key E req) = Some entry \<Longrightarrow>
   prepare_transaction_handler_idempotent E req (st, x) = (Reply 200 (Some (json_of_prepared (cp_txid entry))), st, x)"
  by (simp add: prepare_transaction_handler_idempotent_def)

text \<open>A prepared transaction is entered once, and nothing else changes the cache.\<close>

lemma prepare_cache:
  assumes "prepare_transaction_handler_idempotent E req (st, x) = (reply, st', x')"
  shows "st' = st \<or> (\<exists>entry. map_of (st_cache st) (generate_prepare_tx_cache_key E req) = None
     \<and> st' = st\<lparr>st_cache := AList.update (generate_prepare_tx_cache_key E req) entry (st_cache st)\<rparr>)"
  using assms
  by (auto simp: prepare_transaction_handler_idempotent_def Let_def split: option.splits outcome.splits prod.splits)

lemma selection_reply_status: "selection_reply T r = Err (msg, status) \<Longrightarrow> status \<noteq> 200"
  by (auto simp: selection_reply_def split: if_splits outcome.splits option.splits)

lemma ask_selection_status: "ask_selection E st h a n x = (Err (msg, status), x') \<Longrightarrow> status \<noteq> 200"
  by (auto simp: ask_selection_def split: outcome.splits prod.splits dest: selection_reply_status)

lemma fetch_deterministic_status:
  "fetch_loop_deterministic E st h needed as sel tot x = (Err (msg, status), x') \<Longrightarrow> status \<noteq> 200"
proof (induction as arbitrary: sel tot x)
  case Nil
  then show ?case by (auto simp: insufficient_def split: if_splits)
next
  case (Cons a as)
  then show ?case
    by (auto simp: then_do_def split: if_splits prod.splits outcome.splits dest: ask_selection_status)
qed

lemma build_status: "build_unsigned_transaction L us amt fee dest n = Err (msg, status) \<Longrightarrow> status = 400"
  by (auto simp: build_unsigned_transaction_def change_output_def Let_def
      split: if_splits outcome.splits list.splits)

lemma prepare_reply:
  assumes "prepare_transaction_handler_idempotent E req (st, x) = (Reply 200 j, st', x')"
  obtains entry where "map_of (st_cache st') (generate_prepare_tx_cache_key E req) = Some entry"
    and "j = Some (json_of_prepared (cp_txid entry))"
proof (cases "map_of (st_cache st) (generate_prepare_tx_cache_key E req)")
  case (Some entry)
  then show ?thesis using assms prepare_hit [OF Some, of x] that by auto
next
  case None
  then have "\<exists>entry. st' = st\<lparr>st_cache := AList.update (generate_prepare_tx_cache_key E req) entry (st_cache st)\<rparr>
      \<and> j = Some (json_of_prepared (cp_txid entry))"
    using assms
    by (auto simp: prepare_transaction_handler_idempotent_def Let_def fetched_error_def error_reply_def json_reply_def
        fetch_selected_utxos_deterministic_def split: outcome.splits prod.splits
        dest: fetch_deterministic_status build_status)
  then show ?thesis using that by (auto simp: alist_lookup_update)
qed

text \<open>
  States the interface passes through while it answers requests; between two requests the
  world around it changes in any way.
\<close>

inductive api_reaches :: "('u, 'a, 'x) api_env \<Rightarrow> 'a api_state \<Rightarrow> 'a api_state \<Rightarrow> bool" for E where
  here: "api_reaches E st st"
| request: "api_reaches E st st' \<Longrightarrow> api_dispatch E r (st', x) = (reply, st'', x') \<Longrightarrow> api_reaches E st st''"

lemma derive_state:
  "derive_address_handler E a (st, x) = (reply, st', x') \<Longrightarrow> st' = st \<or> (\<exists>p. st' = watch p st)"
  by (auto simp: derive_address_handler_def split: if_splits outcome.splits prod.splits option.splits)

lemma watch_state:
  "watch_address_handler E a (st, x) = (reply, st', x') \<Longrightarrow> st' = st \<or> (\<exists>p. st' = watch p st)"
  by (auto simp: watch_address_handler_def split: outcome.splits)

lemma select_state: "select_utxos_handler E h t (st, x) = (reply, st', x') \<Longrightarrow> st' = st"
  by (auto simp: select_utxos_handler_def Let_def split: outcome.splits prod.splits)

lemma sign_state: "sign_transaction_handler E req (st, x) = (reply, st', x') \<Longrightarrow> st' = st"
  by (auto simp: sign_transaction_handler_def split: if_splits outcome.splits prod.splits)

text \<open>One request keeps every entry of the cache.\<close>

lemma dispatch_state:
  assumes "api_dispatch E r (st, x) = (reply, st', x')"
  shows "st' = st \<or> (\<exists>p. st' = watch p st) \<or> (\<exists>k entry. map_of (st_cache st) k = None
     \<and> st' = st\<lparr>st_cache := AList.update k entry (st_cache st)\<rparr>)"
  using assms
  by (cases r)
    (auto simp: with_key_def split: if_splits
      dest: derive_state watch_state select_state sign_state prepare_cache get_watch_effect)

lemma dispatch_keeps:
  assumes "api_dispatch E r (st, x) = (reply, st', x')"
  shows "st_indexer_key st' = st_indexer_key st \<and> st_network st' = st_network st \<and> st_watched st \<subseteq> st_watched st'
     \<and> (\<forall>k entry. map_of (st_cache st) k = Some entry \<longrightarrow> map_of (st_cache st') k = Some entry)"
  using dispatch_state [OF assms] by (auto simp: watch_def alist_lookup_update)

lemma reaches_keeps:
  "api_reaches E st st' \<Longrightarrow> st_indexer_key st' = st_indexer_key st \<and> st_network st' = st_network st
     \<and> st_watched st \<subseteq> st_watched st'
     \<and> (\<forall>k entry. map_of (st_cache st) k = Some entry \<longrightarrow> map_of (st_cache st') k = Some entry)"
proof (induction rule: api_reaches.induct)
  case (request st st' r x reply st'' x')
  from dispatch_keeps [OF request.hyps(2)] request.IH show ?case by auto
qed simp

text \<open>
  C13. Preparing is idempotent.  Once a preparation was answered with a transaction id, the
  same parameters are answered with the same id, whatever requests the interface has
  answered since and however the outputs, the services and the clock have changed; and the
  repetition changes nothing and asks nobody.
\<close>

theorem prepare_idempotent:
  assumes "api_dispatch E (PrepareTransaction key req) (st, x) = (Reply 200 j, st1, x1)"
    and "api_reaches E st1 st2"
  shows "api_dispatch E (PrepareTransaction key req) (st2, x2) = (Reply 200 j, st2, x2)"
proof -
  have k: "key = st_indexer_key st" "prepare_transaction_handler_idempotent E req (st, x) = (Reply 200 j, st1, x1)"
    using assms(1) by (auto simp: with_key_def error_reply_def json_reply_def split: if_splits)
  obtain entry where e: "map_of (st_cache st1) (generate_prepare_tx_cache_key E req) = Some entry"
    "j = Some (json_of_prepared (cp_txid entry))"
    using prepare_reply [OF k(2)] .
  have "map_of (st_cache st2) (generate_prepare_tx_cache_key E req) = Some entry"
    "st_indexer_key st2 = st_indexer_key st"
    using reaches_keeps [OF assms(2)] dispatch_keeps [OF assms(1)] e(1) by auto
  then show ?thesis using prepare_hit [of st2 E req entry x2] e(2) k(1) by (simp add: with_key_def)
qed

theorem prepare_idempotent_witness:
  "\<exists>j st1 x1. prepared = (Reply 200 j, st1, x1)
     \<and> api_dispatch down_api (PrepareTransaction ''k'' no_funds) (watch ''carol'' st1, [''later''])
       = (Reply 200 j, watch ''carol'' st1, [''later''])"
proof -
  have "fst prepared = Reply 200 (Some (json_of_prepared ''-bob''))" by code_simp
  then obtain st1 x1 where p: "prepared = (Reply 200 (Some (json_of_prepared ''-bob'')), st1, x1)"
    by (metis prod.collapse)
  have keep: "st_indexer_key st1 = ''k''" "st_network st1 = Regtest"
    using dispatch_keeps [OF p [unfolded prepared_def]] by (simp_all add: small_api_state_def)
  have "api_dispatch down_api (WatchAddress ''k'' ''carol'') (st1, x1)
      = (json_reply 200 [(''status'', JStr ''OK'')], watch ''carol'' st1, x1)"
    by (simp add: with_key_def watch_address_handler_def api_parse_address_def small_api_def small_lib_def keep)
  from api_reaches.request [OF api_reaches.here this]
  show ?thesis using prepare_idempotent [OF p [unfolded prepared_def], of "watch ''carol'' st1" "[''later'']"] p by blast
qed

text \<open>
  Two preparations share a cache entry only if they are the same request, or the bytes hashed
  for them are a collision of the digest.
\<close>

lemma cache_key_injective:
  assumes "generate_prepare_tx_cache_key E r = generate_prepare_tx_cache_key E r'"
    and "in_i32 (pr_block_height r)" "in_i32 (pr_block_height r')" "in_i64 (pr_amount r)" "in_i64 (pr_amount r')"
    and "in_i64 (pr_fee r)" "in_i64 (pr_fee r')"
  shows "r = r' \<or> cache_preimage r \<noteq> cache_preimage r'
     \<and> sha256_hex E (cache_preimage r) = sha256_hex E (cache_preimage r')"
proof (cases "cache_preimage r = cache_preimage r'")
  case True
  then have "le_bytes 4 (pr_block_height r) = le_bytes 4 (pr_block_height r')"
    "le_bytes 8 (pr_amount r) = le_bytes 8 (pr_amount r')" "le_bytes 8 (pr_fee r) = le_bytes 8 (pr_fee r')"
    "pr_destination r = pr_destination r'"
    by (auto simp: cache_preimage_def)
  then show ?thesis
    using le_bytes_inj_i32 le_bytes_inj_i64 assms(2-) by (cases r; cases r') simp
next
  case False
  then show ?thesis using assms(1) by (auto simp: generate_prepare_tx_cache_key_def)
qed

lemma cache_key_injective_witness:
  "cache_preimage no_funds \<noteq> cache_preimage (no_funds\<lparr>pr_fee := 3\<rparr>)"
  using cache_key_injective [of "down_api\<lparr>sha256_hex := (\<lambda>_. ''h'')\<rparr>" no_funds "no_funds\<lparr>pr_fee := 3\<rparr>"]
  by (simp add: no_funds_def in_i32_def in_i64_def generate_prepare_tx_cache_key_def)

section \<open>The cache file\<close>

lemma cached_of_json_of: "time_ok T \<Longrightarrow> cached_of_json T (json_of_cached T c) = Some c"
  by (simp add: cached_of_json_def json_of_cached_def json_of_prepared_def req_field_def as_time_def time_ok_def)

lemma all_some_map: "(\<And>x. x \<in> set xs \<Longrightarrow> f x = Some (g x)) \<Longrightarrow> all_some (map f xs) = Some (map g xs)"
  by (induction xs) auto

lemma update_fresh: "k \<notin> fst ` set m \<Longrightarrow> AList.update k v m = m @ [(k, v)]"
  by (induction m) auto

lemma fold_update_distinct:
  "distinct (map fst (m @ es)) \<Longrightarrow> fold (\<lambda>(k, c) m. AList.update k c m) es m = m @ es"
proof (induction es arbitrary: m)
  case (Cons e es)
  obtain k c where e: "e = (k, c)" by (cases e)
  have "k \<notin> fst ` set m" using Cons.prems by (auto simp: e)
  then show ?case using Cons.IH [of "m @ [(k, c)]"] Cons.prems by (simp add: e update_fresh)
qed simp

lemma cache_of_json_of:
  assumes "time_ok T" and "distinct (map fst m)"
  shows "cache_of_json T (cache_document T m) = Some m"
proof -
  have "all_some (map (\<lambda>(k, j). map_option (Pair k) (cached_of_json T j)) (map (\<lambda>(k, c). (k, json_of_cached T c)) m))
      = Some m"
    using all_some_map [of m "\<lambda>e. map_option (Pair (fst e)) (cached_of_json T (json_of_cached T (snd e)))" "\<lambda>e. e"]
    by (simp add: assms(1) cached_of_json_of split_def comp_def)
  then show ?thesis using fold_update_distinct [of "[]" m] assms(2) by (simp add: cache_document_def)
qed

text \<open>
  C37. The cache survives a restart: when the file system returns what was written, and the
  text of the document parses to it, loading after a successful save yields the very entries
  that were saved.
\<close>

theorem cache_round_trip:
  assumes "save_prepare_tx_cache E m x = (Ok (), x')" and "distinct (map fst m)" and "time_ok (api_time E)"
    and "\<forall>f d x x'. write_file E f d x = (Ok (), x') \<longrightarrow> read_file E f x' = Ok d"
    and "json_parse E (json_string E (cache_document (api_time E) m)) = Ok (cache_document (api_time E) m)"
  shows "load_prepare_tx_cache E x' = m"
  using assms cache_of_json_of [OF assms(3,2)]
  by (simp add: save_prepare_tx_cache_def load_prepare_tx_cache_def)

definition one_entry :: "(string \<times> cached_prepare) list" where
  "one_entry = [(''key'', \<lparr>cp_txid = ''t'', cp_created_at = 7\<rparr>)]"

theorem cache_round_trip_witness:
  "load_prepare_tx_cache (small_api (Err ''down'') (cache_document plain_time one_entry)) [''doc''] = one_entry"
  by (rule cache_round_trip [of _ _ "[]"])
    (simp_all add: small_api_def save_prepare_tx_cache_def one_entry_def)

section \<open>Unsigned transactions\<close>

lemma total_amount_exact:
  assumes "\<forall>u \<in> set us. 0 \<le> amount u" and "sum_by amount us < 9223372036854775808"
  shows "total_amount us = sum_by amount us"
  using sum_by_nonneg [of us amount] assms by (simp add: total_amount_def wrap_i64_id in_i64_def)

lemma unsigned_inputs_all:
  "\<forall>u \<in> set us. txid_from_str L (txid u) = Some (txid u) \<and> 0 \<le> vout u \<and> vout u < 4294967296 \<Longrightarrow>
   map (\<lambda>i. (prev_txid i, prev_vout i)) (unsigned_inputs L us) = map (\<lambda>u. (txid u, vout u)) us"
  by (induction us) (simp_all add: unsigned_inputs_def List.map_filter_simps as_u32_def)

lemma build_unsigned_balanced:
  assumes "build_unsigned_transaction L us amt fee dest n = Ok (tx, change)"
    and "\<forall>u \<in> set us. 0 \<le> amount u" and "sum_by amount us < 9223372036854775808"
    and "\<forall>u \<in> set us. txid_from_str L (txid u) = Some (txid u) \<and> 0 \<le> vout u \<and> vout u < 4294967296"
    and "0 \<le> amt" and "0 \<le> fee" and "amt + fee < 9223372036854775808"
  shows "change = sum_by amount us - amt - fee \<and> 0 \<le> change
     \<and> map (\<lambda>i. (prev_txid i, prev_vout i)) (tx_input tx) = map (\<lambda>u. (txid u, vout u)) us
     \<and> (\<exists>a outs. api_parse_address L n dest = Ok a \<and> tx_output tx = \<lparr>txo_value = amt, script_pubkey = addr_script_pubkey L a\<rparr> # outs)
     \<and> sum_by txo_value (tx_output tx) + fee
       + (if \<exists>a. us \<noteq> [] \<and> api_parse_address L n (address (hd us)) = Ok a then 0 else change) = sum_by amount us"
proof -
  note total = total_amount_exact [OF assms(2,3)]
  have needed: "wrap_i64 (amt + fee) = amt + fee" using assms(5-7) by (simp add: wrap_i64_id in_i64_def)
  have enough: "amt + fee \<le> sum_by amount us"
    using assms(1) by (auto simp: build_unsigned_transaction_def total needed Let_def split: if_splits)
  then have ch: "wrap_i64 (sum_by amount us - (amt + fee)) = sum_by amount us - (amt + fee)"
    using assms(3,5,6) by (simp add: wrap_i64_id in_i64_def)
  obtain a outs where a: "api_parse_address L n dest = Ok a"
    and outs: "change_output L n us (sum_by amount us - (amt + fee)) = Ok outs"
    and tx: "change = sum_by amount us - (amt + fee)" "tx_input tx = unsigned_inputs L us"
      "tx_output tx = \<lparr>txo_value = as_u64 amt, script_pubkey = addr_script_pubkey L a\<rparr> # outs"
    using assms(1) enough
    by (auto simp: build_unsigned_transaction_def total needed ch Let_def and_then_eq_Ok split: if_splits outcome.splits)
  have u64: "as_u64 amt = amt" "as_u64 change = change"
    using assms(3,5,6,7) enough tx(1) by (simp_all add: as_u64_def)
  have "sum_by txo_value outs = (if \<exists>a. us \<noteq> [] \<and> api_parse_address L n (address (hd us)) = Ok a then change else 0)"
    using outs u64(2) enough tx(1)
    by (cases us) (auto simp: change_output_def split: if_splits outcome.splits)
  then show ?thesis
    using unsigned_inputs_all [OF assms(4)] a tx u64(1) enough by auto
qed

lemma build_unsigned_succeeds:
  assumes "\<forall>u \<in> set us. 0 \<le> amount u" and "sum_by amount us < 9223372036854775808"
    and "wrap_i64 (amt + fee) \<le> sum_by amount us" and "api_parse_address L n dest = Ok a"
    and "\<forall>u \<in> set us. api_parse_address L n (address u) \<noteq> Panic"
  shows "\<exists>tx change. build_unsigned_transaction L us amt fee dest n = Ok (tx, change)"
proof -
  let ?c = "wrap_i64 (sum_by amount us - wrap_i64 (amt + fee))"
  have "\<exists>outs. change_output L n us ?c = Ok outs"
    using assms(5) by (auto simp: change_output_def split: list.splits outcome.splits)
  then show ?thesis
    using assms(3,4) by (auto simp: build_unsigned_transaction_def total_amount_exact [OF assms(1,2)] Let_def)
qed

text \<open>
  C12. A transaction balances its inputs: built from outputs with known ids, for a
  non-negative amount and fee, it spends exactly the selected outputs in their order, pays
  the amount to the destination first, and what its outputs leave of the inputs is the fee;
  except that the change is lost to the fee when the address of the first selected output
  is not one of the network.
\<close>

theorem tx_balanced:
  assumes "build_unsigned_transaction L us amt fee dest n = Ok (tx, change)"
    and "\<forall>u \<in> set us. 0 \<le> amount u" and "sum_by amount us < 9223372036854775808"
    and "\<forall>u \<in> set us. txid_from_str L (txid u) = Some (txid u) \<and> 0 \<le> vout u \<and> vout u < 4294967296"
    and "0 \<le> amt" and "0 \<le> fee" and "amt + fee < 9223372036854775808"
  shows "change = sum_by amount us - amt - fee \<and> 0 \<le> change
     \<and> map (\<lambda>i. (prev_txid i, prev_vout i)) (tx_input tx) = map (\<lambda>u. (txid u, vout u)) us
     \<and> (\<exists>a outs. api_parse_address L n dest = Ok a \<and> tx_output tx = \<lparr>txo_value = amt, script_pubkey = addr_script_pubkey L a\<rparr> # outs)
     \<and> sum_by txo_value (tx_output tx) + fee
       + (if \<exists>a. us \<noteq> [] \<and> api_parse_address L n (address (hd us)) = Ok a then 0 else change) = sum_by amount us"
  by (rule build_unsigned_balanced [OF assms])

theorem tx_balanced_witness:
  "\<exists>tx. build_unsigned_transaction small_lib [output_rec ''t1'' ''alice'' 50 1] 30 5 ''bob'' Regtest = Ok (tx, 15)
     \<and> sum_by txo_value (tx_output tx) + 5 = 50"
proof -
  let ?us = "[output_rec ''t1'' ''alice'' 50 1]"
  have p: "api_parse_address small_lib Regtest ''alice'' = Ok ''alice''"
    "api_parse_address small_lib Regtest ''bob'' = Ok ''bob''"
    by (simp_all add: api_parse_address_def small_lib_def)
  have "\<exists>tx. build_unsigned_transaction small_lib ?us 30 5 ''bob'' Regtest = Ok (tx, 15)"
    by (simp add: build_unsigned_transaction_def total_amount_def wrap_i64_def change_output_def p Let_def)
  then obtain tx where tx: "build_unsigned_transaction small_lib ?us 30 5 ''bob'' Regtest = Ok (tx, 15)" by blast
  from tx_balanced [OF tx] have "sum_by txo_value (tx_output tx) + 5 = 50"
    by (simp add: p) (simp add: small_lib_def)
  with tx show ?thesis by blast
qed

text \<open>
  C33. An amount and fee whose 64-bit sum is not positive (a negative amount, or a sum that
  wraps) are prepared all the same: the answer is a transaction id with status 200, of a
  transaction without any input whose output carries the amount's 64 bits, and no service was asked.
\<close>

theorem prepare_unfunded:
  assumes "wrap_i64 (pr_amount req + pr_fee req) \<le> 0"
    and "api_parse_address (api_lib E) (st_network st) (pr_destination req) = Ok a"
    and "map_of (st_cache st) (generate_prepare_tx_cache_key E req) = None"
    and "\<forall>f d. fst (write_file E f d x) \<noteq> Panic"
  shows "\<exists>st' x' d. prepare_transaction_handler_idempotent E req (st, x)
       = (Reply 200 (Some (json_of_prepared (compute_txid (api_lib E)
            \<lparr>tx_version = 2, lock_time = 0, tx_input = [],
             tx_output = [\<lparr>txo_value = as_u64 (pr_amount req), script_pubkey = addr_script_pubkey (api_lib E) a\<rparr>]\<rparr>))), st', x')
     \<and> x' = snd (write_file E PREPARE_TX_CACHE_FILE d x)"
proof -
  let ?needed = "wrap_i64 (pr_amount req + pr_fee req)"
  have f: "fetch_selected_utxos_deterministic E st (pr_block_height req) ?needed x = (Ok [], x)"
    using assms(1) unfolding fetch_selected_utxos_deterministic_def
    by (cases "sorted_addresses E (st_watched st)") simp_all
  have t: "total_amount [] = 0" by (simp add: total_amount_def wrap_i64_def)
  let ?tx = "\<lparr>tx_version = 2, lock_time = 0, tx_input = [],
      tx_output = [\<lparr>txo_value = as_u64 (pr_amount req), script_pubkey = addr_script_pubkey (api_lib E) a\<rparr>]\<rparr>"
  obtain change where b: "build_unsigned_transaction (api_lib E) [] (pr_amount req) (pr_fee req) (pr_destination req)
      (st_network st) = Ok (?tx, change)"
    using assms(1,2) by (simp add: build_unsigned_transaction_def t Let_def change_output_def unsigned_inputs_def List.map_filter_simps)
  let ?m = "AList.update (generate_prepare_tx_cache_key E req)
      \<lparr>cp_txid = compute_txid (api_lib E) ?tx, cp_created_at = utc_now E x\<rparr> (st_cache st)"
  let ?d = "json_string E (cache_document (api_time E) ?m)"
  obtain r x' where w: "write_file E PREPARE_TX_CACHE_FILE ?d x = (r, x')" "r \<noteq> Panic"
    using assms(4) by (metis prod.collapse)
  have "prepare_transaction_handler_idempotent E req (st, x)
      = (Reply 200 (Some (json_of_prepared (compute_txid (api_lib E) ?tx))), st\<lparr>st_cache := ?m\<rparr>, x')"
    using w(2) by (cases r) (simp_all add: prepare_transaction_handler_idempotent_def Let_def save_prepare_tx_cache_def f b assms(3) w(1))
  moreover have "x' = snd (write_file E PREPARE_TX_CACHE_FILE ?d x)" by (simp only: w(1) snd_conv)
  ultimately show ?thesis by blast
qed

theorem prepare_unfunded_witness:
  "\<exists>st' x'. prepare_transaction_handler_idempotent down_api no_funds (small_api_state, [])
     = (Reply 200 (Some (json_of_prepared (compute_txid small_lib
            \<lparr>tx_version = 2, lock_time = 0, tx_input = [],
             tx_output = [\<lparr>txo_value = 18446744073709551611, script_pubkey = ''bob''\<rparr>]\<rparr>))), st', x')"
proof -
  have s: "api_lib down_api = small_lib" "pr_amount no_funds = - 5" "pr_fee no_funds = 2" "pr_destination no_funds = ''bob''"
    "addr_script_pubkey small_lib ''bob'' = ''bob''"
    by (simp_all add: small_api_def no_funds_def small_lib_def)
  have u: "as_u64 (- 5) = 18446744073709551611" by (simp add: as_u64_def)
  have "api_parse_address (api_lib down_api) (st_network small_api_state) (pr_destination no_funds) = Ok ''bob''"
    unfolding s by (simp add: api_parse_address_def small_lib_def)
  from prepare_unfunded [OF _ this, of "[]"] show ?thesis
    unfolding s u by (simp add: wrap_i64_def small_api_state_def small_api_def) blast
qed

section \<open>What the UTXO service lets it find\<close>

definition response_of :: "(json \<Rightarrow> string) \<Rightarrow> http_response \<Rightarrow> (rpc_response, string) outcome" where
  "response_of js r =
     (case r of
        Reply status (Some j) \<Rightarrow> Ok \<lparr>rr_status = status, rr_json = Ok j, rr_text = Ok (js j)\<rparr>
      | Reply status None \<Rightarrow> Ok \<lparr>rr_status = status, rr_json = Err ''empty'', rr_text = Ok []\<rparr>
      | Crashed \<Rightarrow> Err ''connection closed'')"

lemma take_until_reaches:
  assumes "\<forall>u \<in> set us. 0 \<le> amount u" and "0 \<le> tot" and "tot < needed" and "needed \<le> tot + sum_by amount us"
    and "tot + sum_by amount us < 9223372036854775808"
  shows "\<exists>k. take_until needed us sel tot = (sel @ take k us, tot + sum_by amount (take k us), True)
     \<and> needed \<le> tot + sum_by amount (take k us)"
  using assms
proof (induction us arbitrary: sel tot)
  case (Cons u us)
  have nonneg: "0 \<le> amount u" "0 \<le> sum_by amount us" using Cons.prems(1) by (auto intro: sum_by_nonneg)
  then have w: "wrap_i64 (tot + amount u) = tot + amount u"
    using Cons.prems(2,5) by (simp add: wrap_i64_id in_i64_def)
  show ?case
  proof (cases "needed \<le> tot + amount u")
    case True
    then show ?thesis by (intro exI [of _ 1]) (simp add: w)
  next
    case False
    then obtain k where "take_until needed us (sel @ [u]) (tot + amount u)
        = ((sel @ [u]) @ take k us, tot + amount u + sum_by amount (take k us), True)"
      "needed \<le> tot + amount u + sum_by amount (take k us)"
      using Cons.IH [of "tot + amount u" "sel @ [u]"] Cons.prems nonneg by (auto simp: add.assoc)
    then show ?thesis using False by (intro exI [of _ "Suc k"]) (simp add: w add.assoc)
  qed
qed simp


text \<open>One address asked of a service that runs the storage service's handler over SQLite.\<close>

lemma ask_selection_served:
  assumes A: "app_ds A = sqlite_ds Q" "sqlite_healthy Q" "sqlite_inv Q s" "sqlite_get_latest_block Q s = Ok l"
    and h: "0 \<le> h" "h \<le> l" and n: "0 < needed"
    and a: "addr_to_string (api_lib E) a \<noteq> []" "http_parse_address A (addr_to_string (api_lib E) a) = Ok p"
    and T: "app_time A = api_time E" "time_ok (api_time E)"
    and S: "sum amount (spendable_set (sqlite_view Q s) h (addr_to_string (api_lib E) a)) < 9223372036854775808"
      "\<forall>u \<in> spendable_set (sqlite_view Q s) h (addr_to_string (api_lib E) a). utxo_in_range u"
    and G: "api_get E (select_url st (api_lib E) h a needed) x
      = (response_of (json_string E) (http_select_utxos A h (addr_to_string (api_lib E) a) needed s), x')"
  shows "let S = spendable_set (sqlite_view Q s) h (addr_to_string (api_lib E) a)
     in if S \<noteq> {} \<and> sum amount S < needed
        then \<exists>msg. ask_selection E st h a needed x = (Err (msg, 502), x')
        else \<exists>sel. ask_selection E st h a needed x = (Ok sel, x')
          \<and> set sel \<subseteq> S \<and> distinct sel \<and> (S \<noteq> {} \<longrightarrow> needed \<le> sum_by amount sel)"
proof -
  let ?S = "spendable_set (sqlite_view Q s) h (addr_to_string (api_lib E) a)"
  let ?r = "http_select_utxos A h (addr_to_string (api_lib E) a) needed s"
  note out = http_select_outcome [OF A(1-3) a(2) A(4) h a(1) n S(1), unfolded Let_def]
  show ?thesis
  proof (cases "?S \<noteq> {} \<and> sum amount ?S < needed")
    case True
    with out have "?r = json_reply 404 [(''error'', JStr ''Insufficient funds to meet target amount''),
            (''available_amount'', JNum (sum amount ?S)), (''target_amount'', JNum needed)]" by simp
    then have "\<exists>msg. ask_selection E st h a needed x = (Err (msg, 502), x')"
      using G by (simp add: ask_selection_def response_of_def json_reply_def selection_reply_def is_success_def)
    with True show ?thesis by (simp add: Let_def)
  next
    case False
    with out obtain sel where r: "?r = json_reply 200 [(''block_height'', JNum h), (''address'', JStr (addr_to_string (api_lib E) a)),
              (''target_amount'', JNum needed), (''selected_utxos'', utxos_json A sel), (''total_amount'', JNum (sum_by amount sel))]"
      and sel: "set sel \<subseteq> ?S" "distinct sel" "?S \<noteq> {} \<longrightarrow> needed \<le> sum_by amount sel"
      by (simp only: if_False) blast
    have "utxos_of_json (api_time E) (utxos_json A sel) = Some sel"
      unfolding utxos_json_def T(1) using sel(1) S(2) by (intro utxos_of_json_of [OF T(2)]) auto
    then have "ask_selection E st h a needed x = (Ok sel, x')"
      using G r by (simp add: ask_selection_def response_of_def json_reply_def selection_reply_def is_success_def)
    with sel False show ?thesis by (auto simp: Let_def)
  qed
qed

text \<open>One round of the loop at the start of a selection.\<close>

lemma fetch_first_address:
  assumes A: "app_ds A = sqlite_ds Q" "sqlite_healthy Q" "sqlite_inv Q s" "sqlite_get_latest_block Q s = Ok l"
    and h: "0 \<le> h" "h \<le> l" and n: "0 < needed" "needed < 9223372036854775808"
    and a: "addr_to_string (api_lib E) a \<noteq> []" "http_parse_address A (addr_to_string (api_lib E) a) = Ok p"
    and T: "app_time A = api_time E" "time_ok (api_time E)"
    and S: "sum amount (spendable_set (sqlite_view Q s) h (addr_to_string (api_lib E) a)) < 9223372036854775808"
      "\<forall>u \<in> spendable_set (sqlite_view Q s) h (addr_to_string (api_lib E) a). utxo_in_range u"
    and G: "api_get E (select_url st (api_lib E) h a needed) x
      = (response_of (json_string E) (http_select_utxos A h (addr_to_string (api_lib E) a) needed s), x1)"
  shows "let S = spendable_set (sqlite_view Q s) h (addr_to_string (api_lib E) a);
      r = fetch_loop_deterministic E st h needed (a # as) [] 0 x
    in if S = {} then r = fetch_loop_deterministic E st h needed as [] 0 x1
       else if sum amount S < needed then \<exists>msg. r = (Err (msg, 502), x1)
       else \<exists>sel. r = (Ok sel, x1) \<and> set sel \<subseteq> S \<and> distinct sel \<and> needed \<le> sum_by amount sel"
proof -
  let ?S = "spendable_set (sqlite_view Q s) h (addr_to_string (api_lib E) a)"
  have w: "wrap_i64 needed = needed" using n by (simp add: wrap_i64_id in_i64_def)
  have fin: "finite ?S" using sq.db_spendable_refines [OF A(2,3) h(1) a(1)] by (metis List.finite_set)
  have pos: "0 \<le> amount u" if "u \<in> ?S" for u
    using that sqlite_view_valid [OF A(2,3)] by (auto simp: spendable_set_def valid_utxo_def)
  note ask = ask_selection_served [OF A h n(1) a T S G, unfolded Let_def]
  consider "?S = {}" | "?S \<noteq> {}" "sum amount ?S < needed" | "?S \<noteq> {}" "\<not> sum amount ?S < needed" by blast
  then show ?thesis
  proof cases
    case 1
    then have "ask_selection E st h a needed x = (Ok [], x1)" using ask by auto
    then show ?thesis using 1 n(1) by (simp add: w)
  next
    case 2
    then obtain msg where "ask_selection E st h a needed x = (Err (msg, 502), x1)" using ask by auto
    then show ?thesis using 2 n(1) by (simp add: w)
  next
    case 3
    then obtain sel where sel: "ask_selection E st h a needed x = (Ok sel, x1)" "set sel \<subseteq> ?S" "distinct sel"
      "needed \<le> sum_by amount sel" using ask by auto
    have "sum_by amount sel < 9223372036854775808" using sum_selection [OF sel(2,3) fin pos] S(1) by fastforce
    then obtain k where k: "take_until needed sel [] 0 = (take k sel, sum_by amount (take k sel), True)"
      "needed \<le> sum_by amount (take k sel)"
      using take_until_reaches [of sel 0 needed "[]"] sel(2,4) pos n(1) by auto
    have "fetch_loop_deterministic E st h needed as (take k sel) (sum_by amount (take k sel)) x1 = (Ok (take k sel), x1)"
      using k(2) by (cases as) auto
    then have "fetch_loop_deterministic E st h needed (a # as) [] 0 x = (Ok (take k sel), x1)"
      using n(1) sel(1) k(1) by (simp add: w)
    moreover have "set (take k sel) \<subseteq> ?S" using sel(2) by (meson order_trans set_take_subset)
    ultimately show ?thesis using 3 sel(3) k(2) by auto
  qed
qed

lemma fetch_single_address:
  assumes A: "app_ds A = sqlite_ds Q" "sqlite_healthy Q" "sqlite_inv Q s" "sqlite_get_latest_block Q s = Ok l"
    and h: "0 \<le> h" "h \<le> l" and n: "0 < needed" "needed < 9223372036854775808"
    and a: "\<forall>a \<in> set (sorted_addresses E (st_watched st)). addr_to_string (api_lib E) a \<noteq> []
        \<and> (\<exists>p. http_parse_address A (addr_to_string (api_lib E) a) = Ok p)"
    and T: "app_time A = api_time E" "time_ok (api_time E)"
    and S: "\<forall>a \<in> set (sorted_addresses E (st_watched st)).
        sum amount (spendable_set (sqlite_view Q s) h (addr_to_string (api_lib E) a)) < 9223372036854775808
        \<and> (\<forall>u \<in> spendable_set (sqlite_view Q s) h (addr_to_string (api_lib E) a). utxo_in_range u)"
    and G: "\<forall>a \<in> set (sorted_addresses E (st_watched st)). \<forall>x. \<exists>x'. api_get E (select_url st (api_lib E) h a needed) x
      = (response_of (json_string E) (http_select_utxos A h (addr_to_string (api_lib E) a) needed s), x')"
  shows "let S = (\<lambda>a. spendable_set (sqlite_view Q s) h (addr_to_string (api_lib E) a))
     in case filter (\<lambda>a. S a \<noteq> {}) (sorted_addresses E (st_watched st)) of
          [] \<Rightarrow> \<exists>x'. fetch_selected_utxos_deterministic E st h needed x = (Err insufficient, x')
        | a # _ \<Rightarrow>
            if sum amount (S a) < needed
            then \<exists>msg x'. fetch_selected_utxos_deterministic E st h needed x = (Err (msg, 502), x')
            else \<exists>sel x'. fetch_selected_utxos_deterministic E st h needed x = (Ok sel, x')
              \<and> set sel \<subseteq> S a \<and> distinct sel \<and> needed \<le> sum_by amount sel"
proof -
  let ?S = "\<lambda>a. spendable_set (sqlite_view Q s) h (addr_to_string (api_lib E) a)"
  let ?run = "\<lambda>as x. fetch_loop_deterministic E st h needed as [] 0 x"
  have "case filter (\<lambda>a. ?S a \<noteq> {}) as of
          [] \<Rightarrow> \<exists>x'. ?run as x = (Err insufficient, x')
        | a # _ \<Rightarrow> if sum amount (?S a) < needed then \<exists>msg x'. ?run as x = (Err (msg, 502), x')
            else \<exists>sel x'. ?run as x = (Ok sel, x') \<and> set sel \<subseteq> ?S a \<and> distinct sel \<and> needed \<le> sum_by amount sel"
    if "set as \<subseteq> set (sorted_addresses E (st_watched st))" for as
    using that
  proof (induction as arbitrary: x)
    case Nil
    then show ?case using n(1) by simp
  next
    case (Cons a as)
    then have a_in: "a \<in> set (sorted_addresses E (st_watched st))" by simp
    obtain p x1 where p: "addr_to_string (api_lib E) a \<noteq> []" "http_parse_address A (addr_to_string (api_lib E) a) = Ok p"
      and g: "api_get E (select_url st (api_lib E) h a needed) x
        = (response_of (json_string E) (http_select_utxos A h (addr_to_string (api_lib E) a) needed s), x1)"
      using a G a_in by blast
    have sa: "sum amount (?S a) < 9223372036854775808" "\<forall>u \<in> ?S a. utxo_in_range u" using S a_in by blast+
    note first = fetch_first_address [OF A h n p T sa g, of as, unfolded Let_def]
    show ?case
    proof (cases "?S a = {}")
      case True
      then have eq: "?run (a # as) x = ?run as x1" using first by (simp only: if_True)
      show ?thesis unfolding eq using Cons.IH [of x1] Cons.prems True by (simp del: fetch_loop_deterministic.simps)
    next
      case False
      then show ?thesis using first by (auto simp del: fetch_loop_deterministic.simps)
    qed
  qed
  from this [OF subset_refl] show ?thesis unfolding Let_def fetch_selected_utxos_deterministic_def .
qed

text \<open>
  C19. Selections never combine addresses.  When the UTXO service is the storage service over
  SQLite without faults, the deterministic fetch for a positive total is decided by the first
  watched address, in the order of their texts, that owns anything: if its outputs reach the
  total they alone are selected; if they do not, the fetch fails with status 502, even when
  later addresses own enough; and with no such address the funds are insufficient.
\<close>

theorem single_address_selection:
  assumes A: "app_ds A = sqlite_ds Q" "sqlite_healthy Q" "sqlite_inv Q s" "sqlite_get_latest_block Q s = Ok l"
    and h: "0 \<le> h" "h \<le> l" and n: "0 < needed" "needed < 9223372036854775808"
    and a: "\<forall>a \<in> set (sorted_addresses E (st_watched st)). addr_to_string (api_lib E) a \<noteq> []
        \<and> (\<exists>p. http_parse_address A (addr_to_string (api_lib E) a) = Ok p)"
    and T: "app_time A = api_time E" "time_ok (api_time E)"
    and S: "\<forall>a \<in> set (sorted_addresses E (st_watched st)).
        sum amount (spendable_set (sqlite_view Q s) h (addr_to_string (api_lib E) a)) < 9223372036854775808
        \<and> (\<forall>u \<in> spendable_set (sqlite_view Q s) h (addr_to_string (api_lib E) a). utxo_in_range u)"
    and G: "\<forall>a \<in> set (sorted_addresses E (st_watched st)). \<forall>x. \<exists>x'. api_get E (select_url st (api_lib E) h a needed) x
      = (response_of (json_string E) (http_select_utxos A h (addr_to_string (api_lib E) a) needed s), x')"
  shows "let S = (\<lambda>a. spendable_set (sqlite_view Q s) h (addr_to_string (api_lib E) a))
     in case filter (\<lambda>a. S a \<noteq> {}) (sorted_addresses E (st_watched st)) of
          [] \<Rightarrow> \<exists>x'. fetch_selected_utxos_deterministic E st h needed x = (Err insufficient, x')
        | a # _ \<Rightarrow>
            if sum amount (S a) < needed
            then \<exists>msg x'. fetch_selected_utxos_deterministic E st h needed x = (Err (msg, 502), x')
            else \<exists>sel x'. fetch_selected_utxos_deterministic E st h needed x = (Ok sel, x')
              \<and> set sel \<subseteq> S a \<and> distinct sel \<and> needed \<le> sum_by amount sel"
  by (rule fetch_single_address [OF assms])

definition one_block_db :: sqlite_db where
  "one_block_db = deliver_blocks (sqlite_ds plain_env) [block1] sqlite_empty"

definition served_api :: "(string, string, string list) api_env" where
  "served_api = small_api (response_of (json_string down_api) (http_select_utxos plain_app 1 ''alice'' 40 one_block_db)) JNull"

theorem single_address_selection_witness:
  "\<exists>sel x'. fetch_selected_utxos_deterministic served_api small_api_state 1 40 [] = (Ok sel, x')
     \<and> set sel \<subseteq> {output_rec ''t1'' ''alice'' 50 1} \<and> distinct sel \<and> 40 \<le> sum_by amount sel"
proof -
  let ?E = served_api
  have as: "sorted_addresses ?E (st_watched small_api_state) = [''alice'']"
    by (simp add: sorted_addresses_def served_api_def small_api_def small_api_state_def)
  have L: "api_lib ?E = small_lib" "addr_to_string small_lib ''alice'' = ''alice''" "api_time ?E = plain_time"
    "json_string ?E = json_string down_api"
    by (simp_all add: served_api_def small_api_def small_lib_def)
  have S: "spendable_set (sqlite_view plain_env one_block_db) 1 ''alice'' = {output_rec ''t1'' ''alice'' 50 1}"
    unfolding one_block_db_def by (rule delivered_block1(3))
  have R: "utxo_in_range (output_rec ''t1'' ''alice'' 50 1)"
    by (simp add: utxo_in_range_def output_rec_def in_i32_def in_i64_def)
  have G: "api_get ?E url x = (response_of (json_string ?E) (http_select_utxos plain_app 1 ''alice'' 40 one_block_db), x)" for url x
    unfolding L by (simp add: served_api_def small_api_def)
  have I: "sqlite_inv plain_env one_block_db" "sqlite_get_latest_block plain_env one_block_db = Ok 1"
    unfolding one_block_db_def by (rule delivered_block1)+
  from single_address_selection [OF plain_app_sel(2) plain_env_healthy I, of 1 40 ?E small_api_state "[]"]
  show ?thesis
    unfolding as by (simp add: L S R G Let_def)
qed

end
