(* ===== verification/Indexer_Main.thy ===== *)
theory Indexer_Main
  imports Indexer_Sync Api_Correct
begin

unbundle bit_operations_syntax

text \<open>
  Start-up of the indexer (\<^verbatim>\<open>indexer/src/main.rs\<close>): the configuration from environment
  variables and command line, the check of the enclave's url, and what the two halves of the
  process are started with.  The url crate's parser is a parameter; the parsers of Rust's
  standard library for numbers and addresses are modelled.
\<close>

section \<open>Numbers\<close>

definition digit_value :: "nat \<Rightarrow> char \<Rightarrow> nat option" where
  "digit_value radix c =
     (let n = of_char c :: nat;
          d = (if 48 \<le> n \<and> n \<le> 57 then Some (n - 48)
               else if 97 \<le> n \<and> n \<le> 102 then Some (n - 87)
               else if 65 \<le> n \<and> n \<le> 70 then Some (n - 55) else None)
      in case d of None \<Rightarrow> None | Some v \<Rightarrow> if v < radix then Some v else None)"

definition digits_value :: "nat \<Rightarrow> string \<Rightarrow> nat" where
  "digits_value radix ds = foldl (\<lambda>a c. radix * a + the (digit_value radix c)) 0 ds"

definition is_digit :: "nat \<Rightarrow> char \<Rightarrow> bool" where
  "is_digit radix c \<longleftrightarrow> digit_value radix c \<noteq> None"

text \<open>\<^verbatim>\<open>str::parse\<close> for an integer type: a sign (minus only when signed), at least one digit, in range.\<close>

definition parse_int :: "int \<Rightarrow> int \<Rightarrow> string \<Rightarrow> int option" where
  "parse_int lo hi s =
     (let (neg, ds) = (case s of
          [] \<Rightarrow> (False, [])
        | c # r \<Rightarrow> if c = CHR ''+'' \<and> r \<noteq> [] then (False, r)
            else if c = CHR ''-'' \<and> lo < 0 \<and> r \<noteq> [] then (True, r) else (False, s));
          v = (if neg then - int (digits_value 10 ds) else int (digits_value 10 ds))
      in if ds \<noteq> [] \<and> list_all (is_digit 10) ds \<and> lo \<le> v \<and> v \<le> hi then Some v else None)"

section \<open>IP addresses\<close>

datatype ip_addr = V4 nat nat nat nat | V6 "nat list"

text \<open>A number of at most \<open>maxd\<close> digits and at most \<open>hi\<close>: the longest run of digits must be one.\<close>

definition read_number :: "nat \<Rightarrow> nat \<Rightarrow> nat \<Rightarrow> bool \<Rightarrow> string \<Rightarrow> (nat \<times> string) option" where
  "read_number radix maxd hi allow_zero_prefix s =
     (let ds = takeWhile (is_digit radix) s
      in if ds = [] \<or> maxd < length ds \<or> hi < digits_value radix ds
          \<or> \<not> allow_zero_prefix \<and> hd ds = CHR ''0'' \<and> 1 < length ds then None
         else Some (digits_value radix ds, dropWhile (is_digit radix) s))"

definition read_char :: "char \<Rightarrow> string \<Rightarrow> string option" where
  "read_char c s = (case s of [] \<Rightarrow> None | d # r \<Rightarrow> if d = c then Some r else None)"

definition read_octet :: "string \<Rightarrow> (nat \<times> string) option" where
  "read_octet = read_number 10 3 255 False"

definition read_ipv4 :: "string \<Rightarrow> ((nat \<times> nat \<times> nat \<times> nat) \<times> string) option" where
  "read_ipv4 s =
     Option.bind (read_octet s) (\<lambda>(a, s).
     Option.bind (read_char (CHR ''.'') s) (\<lambda>s. Option.bind (read_octet s) (\<lambda>(b, s).
     Option.bind (read_char (CHR ''.'') s) (\<lambda>s. Option.bind (read_octet s) (\<lambda>(c, s).
     Option.bind (read_char (CHR ''.'') s) (\<lambda>s. Option.bind (read_octet s) (\<lambda>(d, s).
       Some ((a, b, c, d), s))))))))"

text \<open>
  At most \<open>limit - i\<close> groups separated by colons; an IPv4 address may stand for the last two,
  which the flag reports.
\<close>

definition after_colon :: "nat \<Rightarrow> string \<Rightarrow> string option" where
  "after_colon i s = (if i = 0 then Some s else read_char (CHR '':'') s)"

function read_groups :: "nat \<Rightarrow> nat \<Rightarrow> nat list \<Rightarrow> string \<Rightarrow> nat list \<times> bool \<times> string" where
  "read_groups limit i gs s =
     (if limit \<le> i then (gs, False, s)
      else case (if i + 1 < limit then Option.bind (after_colon i s) read_ipv4 else None) of
          Some ((a, b, c, d), r) \<Rightarrow> (gs @ [256 * a + b, 256 * c + d], True, r)
        | None \<Rightarrow>
            (case Option.bind (after_colon i s) (read_number 16 4 65535 True) of
               Some (g, r) \<Rightarrow> read_groups limit (i + 1) (gs @ [g]) r
             | None \<Rightarrow> (gs, False, s)))"
  by auto
termination by (relation "measure (\<lambda>(limit, i, gs, s). limit - i)") auto

declare read_groups.simps [simp del]

definition read_ipv6 :: "string \<Rightarrow> (nat list \<times> string) option" where
  "read_ipv6 s =
     (case read_groups 8 0 [] s of
        (head, head_ipv4, r) \<Rightarrow>
          if length head = 8 then Some (head, r)
          else if head_ipv4 then None
          else Option.bind (read_char (CHR '':'') r) (\<lambda>r. Option.bind (read_char (CHR '':'') r) (\<lambda>r.
            case read_groups (8 - (length head + 1)) 0 [] r of
              (tail, _, r') \<Rightarrow> Some (head @ replicate (8 - length head - length tail) 0 @ tail, r'))))"

definition parse_ip :: "string \<Rightarrow> ip_addr option" where
  "parse_ip s =
     (case read_ipv4 s of
        Some ((a, b, c, d), r) \<Rightarrow> if r = [] then Some (V4 a b c d) else None
      | None \<Rightarrow>
          (case read_ipv6 s of
             Some (g, r) \<Rightarrow> if r = [] then Some (V6 g) else None
           | None \<Rightarrow> None))"

fun is_loopback :: "ip_addr \<Rightarrow> bool" where
  "is_loopback (V4 a b c d) \<longleftrightarrow> a = 127"
| "is_loopback (V6 g) \<longleftrightarrow> g = [0, 0, 0, 0, 0, 0, 0, 1]"

definition v4_is_private :: "nat \<Rightarrow> nat \<Rightarrow> bool" where
  "v4_is_private a b \<longleftrightarrow> a = 10 \<or> a = 172 \<and> 16 \<le> b \<and> b \<le> 31 \<or> a = 192 \<and> b = 168"

text \<open>The first octet of an IPv6 address is the high byte of its first group.\<close>

fun accepted_ip :: "ip_addr \<Rightarrow> bool" where
  "accepted_ip (V4 a b c d) \<longleftrightarrow> is_loopback (V4 a b c d) \<or> v4_is_private a b"
| "accepted_ip (V6 g) \<longleftrightarrow> is_loopback (V6 g) \<or> (hd g div 256) AND 254 = 252"

section \<open>The enclave's url\<close>

text \<open>\<open>host_of\<close> is \<^verbatim>\<open>Url::parse\<close> followed by \<^verbatim>\<open>host_str\<close>: no url, a url without host, or its host.\<close>

definition validate_enclave_url :: "(string \<Rightarrow> string option option) \<Rightarrow> string \<Rightarrow> (unit, string) outcome" where
  "validate_enclave_url host_of url =
     (case host_of url of
        None \<Rightarrow> Err ''Invalid ENCLAVE_URL''
      | Some None \<Rightarrow> Err ''ENCLAVE_URL missing host''
      | Some (Some host) \<Rightarrow>
          if host = ''localhost'' then Ok ()
          else if CHR ''.'' \<notin> set host then Ok ()
          else case parse_ip host of
              Some ip \<Rightarrow> if accepted_ip ip then Ok ()
                else Err ''ENCLAVE_URL must point to localhost or private network''
            | None \<Rightarrow> Err ''ENCLAVE_URL must point to localhost or private network'')"

section \<open>Arguments\<close>

record indexer_args =
  ar_socket_path :: string
  ar_network :: string
  ar_rpc_user :: string
  ar_rpc_password :: string
  ar_rpc_host :: string
  ar_rpc_connection_type :: string
  ar_start_height :: i32
  ar_polling_rate :: u64
  ar_max_blocks_per_batch :: i32
  ar_batch_size :: nat
  ar_api_host :: string
  ar_api_port :: nat

text \<open>What the parser of the command line yields without arguments.\<close>

definition default_indexer_args :: indexer_args where
  "default_indexer_args =
     \<lparr>ar_socket_path = ''/tmp/network-utxos.sock'', ar_network = ''regtest'', ar_rpc_user = ''user'',
      ar_rpc_password = ''password'', ar_rpc_host = ''http://localhost:18443'', ar_rpc_connection_type = ''bitcoincore'',
      ar_start_height = 0, ar_polling_rate = 15000, ar_max_blocks_per_batch = 200, ar_batch_size = 10,
      ar_api_host = ''0.0.0.0'', ar_api_port = 3031\<rparr>"

definition network_named :: "string \<Rightarrow> network ires" where
  "network_named s =
     (let n = to_lowercase s
      in if n = ''mainnet'' then Ok Bitcoin
         else if n = ''regtest'' then Ok Regtest
         else if n = ''signet'' then Ok Signet
         else if n = ''testnet'' then Ok Testnet
         else Panic)"

definition indexer_parse_network :: "indexer_args \<Rightarrow> network ires" where
  "indexer_parse_network args = network_named (ar_network args)"

definition parse_connection_type :: "indexer_args \<Rightarrow> (string, string) outcome" where
  "parse_connection_type args =
     (let t = to_lowercase (ar_rpc_connection_type args)
      in if t = ''bitcoincore'' \<or> t = ''external'' then Ok t
         else Err (''Unsupported connection type: '' @ ar_rpc_connection_type args))"

section \<open>Start\<close>

text \<open>\<open>env\<close> is the process environment.\<close>

definition env_or :: "(string \<Rightarrow> string option) \<Rightarrow> string \<Rightarrow> string \<Rightarrow> string" where
  "env_or env v def = (case env v of Some s \<Rightarrow> s | None \<Rightarrow> def)"

definition env_int :: "(string \<Rightarrow> string option) \<Rightarrow> string \<Rightarrow> int \<Rightarrow> int \<Rightarrow> int \<Rightarrow> int" where
  "env_int env v lo hi def =
     (case Option.bind (env v) (parse_int lo hi) of Some i \<Rightarrow> i | None \<Rightarrow> def)"

definition config_of :: "indexer_args \<Rightarrow> (string \<Rightarrow> string option) \<Rightarrow> indexer_config ires" where
  "config_of args env =
     and_then (network_named (env_or env ''NETWORK'' (ar_network args))) (\<lambda>net.
       let connection_type = to_lowercase (env_or env ''RPC_CONNECTION_TYPE'' (ar_rpc_connection_type args))
       in if connection_type \<noteq> ''bitcoincore'' \<and> connection_type \<noteq> ''external'' then Panic
          else Ok \<lparr>cf_network = net, cf_rpc_user = env_or env ''RPC_USER'' (ar_rpc_user args),
             cf_rpc_password = env_or env ''RPC_PASSWORD'' (ar_rpc_password args),
             cf_rpc_host = env_or env ''RPC_HOST'' (ar_rpc_host args), cf_connection_type = connection_type,
             cf_socket_path = env_or env ''SOCKET_PATH'' (ar_socket_path args),
             cf_start_height = env_int env ''START_HEIGHT'' (- 2147483648) 2147483647 (ar_start_height args),
             cf_max_blocks_per_batch =
               env_int env ''MAX_BLOCKS_PER_BATCH'' (- 2147483648) 2147483647 (ar_max_blocks_per_batch args),
             cf_batch_size = nat (env_int env ''BATCH_SIZE'' 0 18446744073709551615 (int (ar_batch_size args)))\<rparr>)"

text \<open>\<^verbatim>\<open>expect\<close> on a variable, with the check that it is not blank.\<close>

definition required :: "(string \<Rightarrow> string option) \<Rightarrow> string \<Rightarrow> string ires" where
  "required env v = (case env v of None \<Rightarrow> Panic | Some s \<Rightarrow> if is_blank s then Panic else Ok s)"

definition enclave_url_of :: "(string \<Rightarrow> string option option) \<Rightarrow> (string \<Rightarrow> string option) \<Rightarrow> string ires" where
  "enclave_url_of host_of env =
     (case env ''ENCLAVE_URL'' of
        None \<Rightarrow> Panic
      | Some url \<Rightarrow> (case validate_enclave_url host_of url of Ok _ \<Rightarrow> Ok url | _ \<Rightarrow> Panic))"

definition indexer_main :: "('u, 'a, 'c) ix_env \<Rightarrow> 'n connector \<Rightarrow> ('u, 'a, 'x) api_env
    \<Rightarrow> (string \<Rightarrow> string option option) \<Rightarrow> indexer_args \<Rightarrow> (string \<Rightarrow> string option) \<Rightarrow> 'x
    \<Rightarrow> 'n \<Rightarrow> (('a, 'n, 'c) indexer \<times> 'a api_state) ires \<times> 'n" where
  "indexer_main I N E host_of args env x =
     then_do (lift_result (config_of args env)) (\<lambda>config.
     then_do (indexer_new I N config) (\<lambda>ix. lift_result
       (and_then (enclave_url_of host_of env) (\<lambda>enclave_url.
        and_then (required env ''ENCLAVE_API_KEY'') (\<lambda>enclave_key.
        and_then (required env ''INDEXER_API_KEY'') (\<lambda>indexer_key.
        and_then (indexer_parse_network args) (\<lambda>net.
          Ok (ix, \<lparr>st_watched = ix_watched ix, st_network = net, st_enclave_url = enclave_url,
               st_utxo_url = env_or env ''UTXO_URL'' ''http://network-utxos:5557'',
               st_enclave_key = enclave_key, st_indexer_key = indexer_key,
               st_cache = load_prepare_tx_cache E x\<rparr>))))))))"

section \<open>Reading addresses\<close>

lemma decimal_digit: "48 \<le> (of_char c :: nat) \<Longrightarrow> (of_char c :: nat) < 58 \<Longrightarrow> digit_value 10 c = Some (of_char c - 48)"
  by (simp add: digit_value_def Let_def)

lemma digits_value_decimal:
  "\<forall>c \<in> set ds. 48 \<le> (of_char c :: nat) \<and> (of_char c :: nat) < 58 \<Longrightarrow> digits_value 10 ds = read_digits ds"
  by (induction ds rule: rev_induct) (simp_all add: digits_value_def read_digits_def decimal_digit)

lemma show_nat_digits: "c \<in> set (show_nat n) \<Longrightarrow> is_digit 10 c"
  using show_nat_chars [of c n] by (simp add: is_digit_def decimal_digit)

lemma digits_value_show [simp]: "digits_value 10 (show_nat n) = n"
  using show_nat_chars by (subst digits_value_decimal) (auto simp: read_show_nat)

lemma show_nat_small: "n < 10 \<Longrightarrow> show_nat n = [char_of (48 + n)]"
  by (simp add: show_nat.simps [of n])

lemma show_nat_octet:
  assumes "n < 1000"
  shows "length (show_nat n) \<le> 3" and "1 < length (show_nat n) \<Longrightarrow> hd (show_nat n) \<noteq> CHR ''0''"
proof -
  have zero: "char_of (48 + k) = CHR ''0'' \<Longrightarrow> k = 0" if "k < 10" for k :: nat
  proof -
    assume "char_of (48 + k) = CHR ''0''"
    then have "of_char (char_of (48 + k)) = (of_char (CHR ''0'') :: nat)" by simp
    then show "k = 0" using that by simp
  qed
  consider "n < 10" | "10 \<le> n" "n < 100" | "100 \<le> n" by linarith
  then have "length (show_nat n) \<le> 3 \<and> (1 < length (show_nat n) \<longrightarrow> hd (show_nat n) \<noteq> CHR ''0'')"
  proof cases
    case 1
    then show ?thesis by (simp add: show_nat_small)
  next
    case 2
    then have "show_nat n = [char_of (48 + n div 10), char_of (48 + n mod 10)]"
      by (simp add: show_nat.simps [of n] show_nat_small)
    moreover have "n div 10 < 10" "n div 10 \<noteq> 0" using 2 by auto
    ultimately show ?thesis using zero [of "n div 10"] by auto
  next
    case 3
    then have "show_nat n = [char_of (48 + n div 10 div 10), char_of (48 + n div 10 mod 10), char_of (48 + n mod 10)]"
      using assms by (simp add: show_nat.simps [of n] show_nat.simps [of "n div 10"] show_nat_small)
    moreover have "n div 10 div 10 < 10" "n div 10 div 10 \<noteq> 0" using 3 assms by auto
    ultimately show ?thesis using zero [of "n div 10 div 10"] by auto
  qed
  then show "length (show_nat n) \<le> 3" and "1 < length (show_nat n) \<Longrightarrow> hd (show_nat n) \<noteq> CHR ''0''" by auto
qed

lemma read_octet_show:
  assumes "n \<le> 255" and "rest = [] \<or> \<not> is_digit 10 (hd rest)"
  shows "read_octet (show_nat n @ rest) = Some (n, rest)"
proof -
  have t: "takeWhile (is_digit 10) (show_nat n @ rest) = show_nat n" "dropWhile (is_digit 10) (show_nat n @ rest) = rest"
    using assms(2) show_nat_digits [of _ n]
    by (cases rest, simp_all add: takeWhile_append2 dropWhile_append2)+
  have "n < 1000" using assms(1) by simp
  from show_nat_octet [OF this] assms(1) show ?thesis
    using show_nat_nonempty [of n] by (auto simp: read_octet_def read_number_def Let_def t)
qed

definition dotted :: "nat \<Rightarrow> nat \<Rightarrow> nat \<Rightarrow> nat \<Rightarrow> string" where
  "dotted a b c d = show_nat a @ ''.'' @ show_nat b @ ''.'' @ show_nat c @ ''.'' @ show_nat d"

lemma dot_no_digit [simp]: "\<not> is_digit 10 (CHR ''.'')"
  by (simp add: is_digit_def digit_value_def)

lemma parse_ip_dotted:
  "a \<le> 255 \<Longrightarrow> b \<le> 255 \<Longrightarrow> c \<le> 255 \<Longrightarrow> d \<le> 255 \<Longrightarrow> parse_ip (dotted a b c d) = Some (V4 a b c d)"
  using read_octet_show [of d "[]"]
  by (simp add: parse_ip_def read_ipv4_def dotted_def read_octet_show read_char_def)

lemma digit_valueD: "digit_value 10 c = Some v \<Longrightarrow> v < 10 \<and> c = char_of (48 + v)"
  by (auto simp: digit_value_def Let_def split: if_splits)

lemma digits_value_snoc: "digits_value 10 (ds @ [c]) = 10 * digits_value 10 ds + the (digit_value 10 c)"
  by (simp add: digits_value_def)

lemma digits_value_pos:
  "ds \<noteq> [] \<Longrightarrow> list_all (is_digit 10) ds \<Longrightarrow> hd ds \<noteq> CHR ''0'' \<Longrightarrow> 0 < digits_value 10 ds"
proof (induction ds rule: rev_induct)
  case (snoc c ds)
  then obtain v where v: "digit_value 10 c = Some v" by (auto simp: is_digit_def)
  show ?case
  proof (cases "ds = []")
    case True
    have "char_of (48 :: nat) = CHR ''0''" by code_simp
    then have "v \<noteq> 0" using True snoc.prems(3) digit_valueD [OF v] by (cases v) auto
    then show ?thesis using True v by (simp add: digits_value_def)
  next
    case False
    then show ?thesis using snoc by (simp add: digits_value_snoc)
  qed
qed simp

lemma show_digits_value:
  "ds \<noteq> [] \<Longrightarrow> list_all (is_digit 10) ds \<Longrightarrow> hd ds \<noteq> CHR ''0'' \<or> length ds = 1 \<Longrightarrow> show_nat (digits_value 10 ds) = ds"
proof (induction ds rule: rev_induct)
  case (snoc c ds)
  then obtain v where v: "digit_value 10 c = Some v" by (auto simp: is_digit_def)
  then have c: "v < 10" "c = char_of (48 + v)" using digit_valueD by auto
  show ?case
  proof (cases "ds = []")
    case True
    then show ?thesis using v c by (simp add: digits_value_def show_nat_small)
  next
    case False
    then have h: "hd ds \<noteq> CHR ''0''" "list_all (is_digit 10) ds" using snoc.prems by auto
    then have "0 < digits_value 10 ds" "show_nat (digits_value 10 ds) = ds"
      using False snoc.IH digits_value_pos by auto
    then show ?thesis using v c by (simp add: digits_value_snoc show_nat.simps [of "10 * digits_value 10 ds + v"])
  qed
qed simp

lemma read_octetD:
  assumes "read_octet s = Some (n, r)"
  shows "n \<le> 255 \<and> s = show_nat n @ r"
proof -
  let ?ds = "takeWhile (is_digit 10) s"
  have ds: "?ds \<noteq> []" "digits_value 10 ?ds \<le> 255" "hd ?ds \<noteq> CHR ''0'' \<or> \<not> 1 < length ?ds"
    and n: "n = digits_value 10 ?ds" and r: "r = dropWhile (is_digit 10) s"
    using assms by (auto simp: read_octet_def read_number_def Let_def split: if_splits)
  have "length ?ds = 1" if "\<not> 1 < length ?ds" using that ds(1) by (cases ?ds) auto
  moreover have "list_all (is_digit 10) ?ds" by (auto simp: list_all_iff dest: set_takeWhileD)
  ultimately have "show_nat n = ?ds" unfolding n using ds show_digits_value by blast
  then have "s = show_nat n @ r" by (simp add: r)
  then show ?thesis using ds(2) n by simp
qed

lemma read_char_eq: "read_char c s = Some r \<longleftrightarrow> s = c # r"
  by (cases s) (auto simp: read_char_def)

lemma parse_ip_V4D:
  assumes "parse_ip s = Some (V4 a b c d)"
  shows "a \<le> 255 \<and> b \<le> 255 \<and> c \<le> 255 \<and> d \<le> 255 \<and> s = dotted a b c d"
proof -
  have "read_ipv4 s = Some ((a, b, c, d), [])"
    using assms by (auto simp: parse_ip_def split: option.splits if_splits)
  then have "\<exists>s1 s2 s3. read_octet s = Some (a, CHR ''.'' # s1) \<and> read_octet s1 = Some (b, CHR ''.'' # s2)
      \<and> read_octet s2 = Some (c, CHR ''.'' # s3) \<and> read_octet s3 = Some (d, [])"
    unfolding read_ipv4_def bind_eq_Some_conv read_char_eq split_paired_Ex prod.case prod.inject option.inject by blast
  then show ?thesis by (auto dest!: read_octetD simp: dotted_def)
qed

text \<open>An IPv6 address has a colon.\<close>

lemma read_groups_no_colon: "CHR '':'' \<notin> set s \<Longrightarrow> 0 < i \<Longrightarrow> read_groups limit i gs s = (gs, False, s)"
  by (cases s) (auto simp: read_groups.simps [of limit] after_colon_def read_char_def)

lemma parse_ip_V6D:
  assumes "parse_ip s = Some (V6 g)"
  shows "CHR '':'' \<in> set s"
proof (rule ccontr)
  assume n: "CHR '':'' \<notin> set s"
  have c: "read_char (CHR '':'') r = None" if "CHR '':'' \<notin> set r" for r
    using that by (cases r) (auto simp: read_char_def)
  have "read_ipv6 s = None"
  proof (cases "read_ipv4 s")
    case (Some x)
    then show ?thesis by (cases x) (auto simp: read_ipv6_def read_groups.simps [of 8 0] after_colon_def)
  next
    case None
    show ?thesis
    proof (cases "read_number 16 4 65535 True s")
      case Some': (Some x)
      obtain v r where x: "x = (v, r)" by fastforce
      have "CHR '':'' \<notin> set r" using Some' n x by (auto simp: read_number_def Let_def split: if_splits dest: set_dropWhileD)
      then show ?thesis
        using None Some' x c by (simp add: read_ipv6_def read_groups.simps [of 8 0] after_colon_def read_groups_no_colon)
    qed (use None n c in \<open>simp add: read_ipv6_def read_groups.simps [of 8 0] after_colon_def\<close>)
  qed
  then show False using assms by (auto simp: parse_ip_def split: option.splits if_splits)
qed

text \<open>
  C39. Which enclaves may be addressed: a url is accepted exactly when its host has no dot
  (\<^verbatim>\<open>localhost\<close> among them), or is an IPv4 address written as four octets that is in the loopback or
  one of the private ranges, or reads as an IPv6 address, which is the loopback or in \<^verbatim>\<open>fc00::/7\<close>.
  In particular every host with a dot, without a colon, that is not such an address is refused.
\<close>

theorem enclave_url_policy:
  assumes "host_of url = Some (Some host)"
  shows "(validate_enclave_url host_of url = Ok ()
       \<longleftrightarrow> CHR ''.'' \<notin> set host
         \<or> (\<exists>a b c d. a \<le> 255 \<and> b \<le> 255 \<and> c \<le> 255 \<and> d \<le> 255 \<and> host = dotted a b c d
             \<and> (a = 127 \<or> a = 10 \<or> a = 172 \<and> 16 \<le> b \<and> b \<le> 31 \<or> a = 192 \<and> b = 168))
         \<or> (\<exists>g. parse_ip host = Some (V6 g) \<and> (g = [0, 0, 0, 0, 0, 0, 0, 1] \<or> (hd g div 256) AND 254 = 252)))
     \<and> (CHR '':'' \<notin> set host \<longrightarrow> (\<forall>g. parse_ip host \<noteq> Some (V6 g)))"
proof -
  have v4: "parse_ip host = Some (V4 a b c d) \<longleftrightarrow> a \<le> 255 \<and> b \<le> 255 \<and> c \<le> 255 \<and> d \<le> 255 \<and> host = dotted a b c d"
    for a b c d using parse_ip_V4D parse_ip_dotted by blast
  have dots: "validate_enclave_url host_of url = Ok ()
      \<longleftrightarrow> CHR ''.'' \<notin> set host \<or> (\<exists>ip. parse_ip host = Some ip \<and> accepted_ip ip)"
    using assms by (auto simp: validate_enclave_url_def split: option.splits)
  have "(\<exists>ip. parse_ip host = Some ip \<and> accepted_ip ip)
      \<longleftrightarrow> (\<exists>a b c d. parse_ip host = Some (V4 a b c d) \<and> accepted_ip (V4 a b c d))
        \<or> (\<exists>g. parse_ip host = Some (V6 g) \<and> accepted_ip (V6 g))"
    by (metis ip_addr.exhaust)
  then show ?thesis
    unfolding dots v4 using parse_ip_V6D [of host] by (auto simp: v4_is_private_def)
qed

theorem enclave_url_policy_witness:
  "validate_enclave_url (\<lambda>_. Some (Some (dotted 8 8 4 4))) ''u'' \<noteq> Ok ()
   \<and> validate_enclave_url (\<lambda>_. Some (Some ''evil.example.com'')) ''u'' \<noteq> Ok ()
   \<and> validate_enclave_url (\<lambda>_. Some (Some (dotted 192 168 0 2))) ''u'' = Ok ()"
proof -
  have d: "CHR ''.'' \<in> set (dotted a b c d)" "CHR '':'' \<notin> set (dotted a b c d)" for a b c d
    using show_nat_chars [of "CHR '':''"] by (auto simp: dotted_def)
  have p: "parse_ip (dotted 8 8 4 4) = Some (V4 8 8 4 4)" by (rule parse_ip_dotted) simp_all
  have inj: "dotted 8 8 4 4 = dotted a b c d \<Longrightarrow> a \<le> 255 \<Longrightarrow> b \<le> 255 \<Longrightarrow> c \<le> 255 \<Longrightarrow> d \<le> 255 \<Longrightarrow> a = 8" for a b c d
    using p parse_ip_dotted [of a b c d] by (metis ip_addr.inject(1) option.inject)
  have evil: "''evil.example.com'' \<noteq> dotted a b c d" for a b c d
    using show_nat_chars [of "CHR ''e''" a] show_nat_nonempty [of a] by (cases "show_nat a") (auto simp: dotted_def)
  let ?h = "\<lambda>x. (\<lambda>_ :: string. Some (Some x))"
  have "validate_enclave_url (?h (dotted 8 8 4 4)) ''u'' \<noteq> Ok ()"
    using enclave_url_policy [of "?h (dotted 8 8 4 4)" "''u''" "dotted 8 8 4 4"] d inj by fastforce
  moreover have "validate_enclave_url (?h ''evil.example.com'') ''u'' \<noteq> Ok ()"
    using enclave_url_policy [of "?h ''evil.example.com''" "''u''" "''evil.example.com''"] evil by simp
  moreover have "\<exists>a b c d. a \<le> 255 \<and> b \<le> 255 \<and> c \<le> 255 \<and> d \<le> 255 \<and> dotted 192 168 0 2 = dotted a b c d
      \<and> (a = 127 \<or> a = 10 \<or> a = 172 \<and> 16 \<le> b \<and> b \<le> 31 \<or> a = 192 \<and> b = 168)"
    by (intro exI [of _ 192] exI [of _ 168] exI [of _ 0] exI [of _ 2]) simp
  then have "validate_enclave_url (?h (dotted 192 168 0 2)) ''u'' = Ok ()"
    using enclave_url_policy [of "?h (dotted 192 168 0 2)" "''u''" "dotted 192 168 0 2"] by blast
  ultimately show ?thesis by blast
qed

section \<open>A successful start\<close>

text \<open>
  C38. What a successful start means: the start height is between 0 and the node's height and
  synchronisation begins with it; both keys are set and not blank; the enclave's url passed
  its check; nothing is watched yet; and while the indexer runs on the network of the
  environment variable \<^verbatim>\<open>NETWORK\<close> or else of the argument, the HTTP interface runs on the
  network of the argument alone.
\<close>

theorem indexer_start:
  assumes "indexer_main I N E host_of args env x n = (Ok (ix, st), n')"
  shows "0 \<le> ix_start_height ix \<and> ix_last_processed_height ix = ix_start_height ix - 1
     \<and> (\<exists>tip. get_block_count (ix_rpc ix) n = (Ok tip, n') \<and> ix_start_height ix \<le> as_i32 tip)
     \<and> env ''ENCLAVE_API_KEY'' = Some (st_enclave_key st) \<and> \<not> is_blank (st_enclave_key st)
     \<and> env ''INDEXER_API_KEY'' = Some (st_indexer_key st) \<and> \<not> is_blank (st_indexer_key st)
     \<and> validate_enclave_url host_of (st_enclave_url st) = Ok ()
     \<and> ix_watched ix = {} \<and> st_watched st = {}
     \<and> network_named (env_or env ''NETWORK'' (ar_network args)) = Ok (ix_network ix)
     \<and> network_named (ar_network args) = Ok (st_network st)"
proof -
  obtain cf where cf: "config_of args env = Ok cf" and ix: "indexer_new I N cf n = (Ok ix, n')"
    and st: "enclave_url_of host_of env = Ok (st_enclave_url st)" "required env ''ENCLAVE_API_KEY'' = Ok (st_enclave_key st)"
      "required env ''INDEXER_API_KEY'' = Ok (st_indexer_key st)" "network_named (ar_network args) = Ok (st_network st)"
      "st_watched st = ix_watched ix"
    using assms by (auto simp: indexer_main_def then_do_eq_Ok and_then_eq_Ok indexer_parse_network_def)
  have net: "network_named (env_or env ''NETWORK'' (ar_network args)) = Ok (cf_network cf)"
    using cf by (auto simp: config_of_def and_then_eq_Ok Let_def split: if_splits)
  have new: "(\<exists>tip. get_block_count (ix_rpc ix) n = (Ok tip, n') \<and> ix_start_height ix \<le> as_i32 tip)
     \<and> 0 \<le> ix_start_height ix \<and> ix_last_processed_height ix = ix_start_height ix - 1 \<and> ix_watched ix = {}
     \<and> ix_network ix = cf_network cf"
  proof -
    obtain rpc where rpc: "make_client N cf = Ok rpc"
      using ix by (auto simp: indexer_new_def then_do_eq_Ok)
    obtain r n3 where count: "get_block_count rpc n = (r, n3)" by fastforce
    show ?thesis using ix rpc count
      by (cases r) (auto simp: indexer_new_def then_do_eq_Ok Let_def split: if_splits)
  qed
  have req: "required env v = Ok s \<Longrightarrow> env v = Some s \<and> \<not> is_blank s" for v s
    by (auto simp: required_def split: option.splits if_splits)
  have url: "validate_enclave_url host_of (st_enclave_url st) = Ok ()"
    using st(1) by (auto simp: enclave_url_of_def split: option.splits outcome.splits)
  show ?thesis using new net req [OF st(2)] req [OF st(3)] url st(4,5) by auto
qed

definition some_args :: indexer_args where
  "some_args =
     \<lparr>ar_socket_path = ''/tmp/network-utxos.sock'', ar_network = ''regtest'', ar_rpc_user = ''user'',
      ar_rpc_password = ''password'', ar_rpc_host = ''http://localhost:18443'',
      ar_rpc_connection_type = ''bitcoincore'', ar_start_height = 0, ar_polling_rate = 15000,
      ar_max_blocks_per_batch = 200, ar_batch_size = 10, ar_api_host = ''0.0.0.0'', ar_api_port = 3031\<rparr>"

definition some_env :: "string \<Rightarrow> string option" where
  "some_env = [''NETWORK'' \<mapsto> ''mainnet'', ''START_HEIGHT'' \<mapsto> ''5'', ''ENCLAVE_URL'' \<mapsto> ''http://enclave:8080'',
     ''ENCLAVE_API_KEY'' \<mapsto> ''e'', ''INDEXER_API_KEY'' \<mapsto> ''k'']"

definition some_connector :: "unit connector" where
  "some_connector = \<lparr>connect_core = (\<lambda>host login. Ok still_core),
     connect_external = (\<lambda>host user password size.
       t1_service\<lparr>ext_user := user, ext_password := password, ext_batch_size := size\<rparr>)\<rparr>"

definition started :: "((string, unit, lru) indexer \<times> string api_state) ires \<times> unit" where
  "started = indexer_main small_ix_env some_connector down_api (\<lambda>_. Some (Some ''enclave'')) some_args some_env [] ()"

lemma started_state:
  obtains ix st where "started = (Ok (ix, st), ())" and "ix_start_height ix = 5" and "st_indexer_key st = ''k''"
proof -
  obtain cf where cf: "config_of some_args some_env = Ok cf" "cf_connection_type cf = ''bitcoincore''" "cf_start_height cf = 5"
  proof -
    have "(case config_of some_args some_env of Ok cf \<Rightarrow> cf_connection_type cf = ''bitcoincore'' \<and> cf_start_height cf = 5 | _ \<Rightarrow> False)"
      by code_simp
    then show ?thesis using that by (auto split: outcome.splits)
  qed
  have rest: "enclave_url_of (\<lambda>_. Some (Some ''enclave'')) some_env = Ok ''http://enclave:8080''"
    "required some_env ''ENCLAVE_API_KEY'' = Ok ''e''" "required some_env ''INDEXER_API_KEY'' = Ok ''k''"
    "indexer_parse_network some_args = Ok Regtest" "as_i32 14 = 14"
    by code_simp+
  obtain ix where new: "indexer_new small_ix_env some_connector cf () = (Ok ix, ())" and h: "ix_start_height ix = 5"
    using cf rest(5)
    by (simp add: indexer_new_def make_client_def some_connector_def core_call_def still_core_def then_do_def
        lift_result_def Let_def)
  obtain st where "started = (Ok (ix, st), ())" "st_indexer_key st = ''k''"
    using cf(1) new rest by (simp add: started_def indexer_main_def then_do_def lift_result_def)
  with h show ?thesis using that by blast
qed

theorem indexer_start_witness:
  "\<exists>ix st. started = (Ok (ix, st), ()) \<and> ix_start_height ix = 5
     \<and> network_named ''mainnet'' = Ok (ix_network ix) \<and> network_named ''regtest'' = Ok (st_network st)"
proof -
  obtain ix st where s: "started = (Ok (ix, st), ())" and h: "ix_start_height ix = 5" by (rule started_state)
  from indexer_start [OF s [unfolded started_def]] have
    "network_named ''mainnet'' = Ok (ix_network ix) \<and> network_named ''regtest'' = Ok (st_network st)"
    by (simp add: env_or_def some_env_def some_args_def)
  with h s show ?thesis by blast
qed

end
