(* ===== verification/Indexer_Process.thy ===== *)
theory Indexer_Process
  imports System_Safety Indexer_Main
begin

text \<open>
  The indexer's process: its synchronisation loop and its HTTP interface, which share the set
  of watched addresses, next to the storage service that the loop writes to and the interface
  asks.  A request is answered between two cycles of the loop.
\<close>

section \<open>The process\<close>

record ('a, 'n, 'c, 's, 'x) process =
  p_world :: "('a, 'n, 'c, 's) world"
  p_api :: "'a api_state"
  p_outside :: 'x

text \<open>
  The set of watched addresses is one object behind an \<^verbatim>\<open>Arc\<close>; the loop reads what the
  interface wrote.
\<close>

definition share_watched :: "('a, 'n, 'c, 's, 'x) process \<Rightarrow> ('a, 'n, 'c, 's, 'x) process" where
  "share_watched p =
     p\<lparr>p_world := (p_world p)\<lparr>w_indexer := (w_indexer (p_world p))\<lparr>ix_watched := st_watched (p_api p)\<rparr>\<rparr>\<rparr>"

text \<open>What \<^verbatim>\<open>main\<close> spawns and runs.\<close>

definition start_process :: "('a, 'n, 'c) indexer \<Rightarrow> 'a api_state \<Rightarrow> 'n \<Rightarrow> 's \<Rightarrow> 'x \<Rightarrow> ('a, 'n, 'c, 's, 'x) process" where
  "start_process ix st n s x =
     \<lparr>p_world = \<lparr>w_indexer = ix, w_node = n, w_storage = s\<rparr>, p_api = st, p_outside = x\<rparr>"

text \<open>\<open>G s\<close> answers the interface's \<^verbatim>\<open>GET\<close> requests while the storage service is in the state \<open>s\<close>.\<close>

definition answer_request :: "('s \<Rightarrow> string \<Rightarrow> 'x \<Rightarrow> (rpc_response, string) outcome \<times> 'x) \<Rightarrow> ('u, 'a, 'x) api_env
    \<Rightarrow> api_request \<Rightarrow> ('a, 'n, 'c, 's, 'x) process \<Rightarrow> http_response \<times> ('a, 'n, 'c, 's, 'x) process" where
  "answer_request G E r p =
     (case api_dispatch (E\<lparr>api_get := G (w_storage (p_world p))\<rparr>) r (p_api p, p_outside p) of
        (reply, st, x) \<Rightarrow> (reply, share_watched (p\<lparr>p_api := st, p_outside := x\<rparr>)))"

definition process_cycle :: "('u, 'a, 'c) ix_env \<Rightarrow> codec \<Rightarrow> 's wire \<Rightarrow> ('a, 'n, 'c, 's, 'x) process
    \<Rightarrow> i32 ires \<times> ('a, 'n, 'c, 's, 'x) process" where
  "process_cycle I C W p = (case process_new_blocks I C W (p_world p) of (r, w) \<Rightarrow> (r, p\<lparr>p_world := w\<rparr>))"

text \<open>
  What the process can become: requests are answered, cycles run (whatever their error), and
  the node, the storage service and the other services change on their own.
\<close>

inductive process_reaches :: "('s \<Rightarrow> string \<Rightarrow> 'x \<Rightarrow> (rpc_response, string) outcome \<times> 'x) \<Rightarrow> ('u, 'a, 'x) api_env
    \<Rightarrow> ('u, 'a, 'c) ix_env \<Rightarrow> codec \<Rightarrow> 's wire
    \<Rightarrow> ('a, 'n, 'c, 's, 'x) process \<Rightarrow> ('a, 'n, 'c, 's, 'x) process \<Rightarrow> bool" for G E I C W where
  here: "process_reaches G E I C W p p"
| request: "process_reaches G E I C W p q \<Longrightarrow> answer_request G E r q = (reply, q') \<Longrightarrow> process_reaches G E I C W p q'"
| cycle: "process_reaches G E I C W p q \<Longrightarrow> process_cycle I C W q = (r, q') \<Longrightarrow> process_reaches G E I C W p q'"
| outside: "process_reaches G E I C W p q \<Longrightarrow>
    process_reaches G E I C W p (q\<lparr>p_world := (p_world q)\<lparr>w_node := n, w_storage := s\<rparr>, p_outside := x\<rparr>)"

section \<open>What a cycle keeps\<close>

lemma same_config_trans: "same_config w w1 \<Longrightarrow> same_config w1 w2 \<Longrightarrow> same_config w w2"
  by (simp add: same_config_def)

lemma same_config_refl [simp]: "same_config w w"
  by (simp add: same_config_def)

lemma same_config_last [simp]: "same_config w (set_last h w') = same_config w w'" "same_config (set_last h w) w' = same_config w w'"
  by (simp_all add: same_config_def set_last_def)

lemma quiet_config: "quiet w w' \<Longrightarrow> same_config w w'"
  by (simp add: quiet_def)

lemma then_do_config:
  assumes "then_do m k w = (r, w')" and "\<And>r1 w1. m w = (r1, w1) \<Longrightarrow> same_config w w1"
    and "\<And>x w1. m w = (Ok x, w1) \<Longrightarrow> k x w1 = (r, w') \<Longrightarrow> same_config w1 w'"
  shows "same_config w w'"
  using assms(1)
proof (cases rule: then_do_cases)
  case (ok x s1)
  then show ?thesis using assms(2,3) same_config_trans by blast
qed (use assms(2) in blast)+

lemma asks_config:
  "ask_node f w = (r1, w') \<Longrightarrow> same_config w w'" "ask_storage g w = (r2, w') \<Longrightarrow> same_config w w'"
  "block_data I h w = (r3, w') \<Longrightarrow> same_config w w'"
  by (blast dest: ask_node_quiet ask_storage_quiet block_data_quiet quiet_config)+

lemma find_fork_point_config: "find_fork_point C W h m w = (r, w') \<Longrightarrow> same_config w w'"
  unfolding find_fork_point_def by (blast dest: fork_loop_quiet quiet_config)

lemma report_reorg_config:
  "then_do (find_fork_point C W h start) (\<lambda>fork. then_do (ask_storage (send_reorg_event C W fork))
     (\<lambda>_ w'. (Ok True, set_last fork w'))) w = (r, w') \<Longrightarrow> same_config w w'"
  by (erule then_do_config, erule find_fork_point_config, erule then_do_config, erule asks_config) auto

lemma check_heights_config: "check_heights C W start hs w = (r, w') \<Longrightarrow> same_config w w'"
proof (induction C W start hs w arbitrary: r w' rule: check_heights.induct)
  case (2 C W start h hs w)
  from 2(2) show ?case
    unfolding check_heights.simps
  proof (rule then_do_config)
    fix x w1
    assume m: "hashes_at C W h w = (Ok x, w1)"
      and k: "(case x of (a, b) \<Rightarrow> if a \<noteq> b
          then then_do (find_fork_point C W h start)
            (\<lambda>fork. then_do (ask_storage (send_reorg_event C W fork)) (\<lambda>_ w'. (Ok True, set_last fork w')))
          else check_heights C W start hs) w1 = (r, w')"
    show "same_config w1 w'"
      using k 2(1) by (cases x) (auto split: if_splits dest: report_reorg_config)
  qed (blast dest: hashes_at_quiet quiet_config)
qed simp

lemma check_for_reorg_config: "check_for_reorg C W w = (r, w') \<Longrightarrow> same_config w w'"
  unfolding check_for_reorg_def
  by (erule then_do_config, blast dest: asks_config) (auto simp: Let_def dest: check_heights_config split: if_splits)

lemma send_heights_config: "send_heights I C W hs w = (r, w') \<Longrightarrow> same_config w w'"
proof (induction hs arbitrary: w r w')
  case (Cons h hs)
  from Cons.prems [simplified] show ?case
    by (elim then_do_config) (auto simp: send_block_update_def elim!: then_do_config dest: asks_config Cons.IH)
qed simp

lemma finality_config:
  "then_do (send_finality C W h) (\<lambda>_. lift_result (Ok b)) w = (r, w') \<Longrightarrow> same_config w w'"
  by (erule then_do_config) (auto simp: send_finality_def dest: asks_config split: if_splits)

lemma send_new_blocks_config: "send_new_blocks I C W h w = (r, w') \<Longrightarrow> same_config w w'"
  unfolding send_new_blocks_def Let_def
  by (auto elim!: then_do_config dest: send_heights_config dest!: finality_config split: if_splits)

lemma process_new_blocks_config: "process_new_blocks I C W w = (r, w') \<Longrightarrow> same_config w w'"
  unfolding process_new_blocks_def Let_def
  by (erule then_do_config, erule asks_config)
    (auto dest!: check_for_reorg_config dest: send_new_blocks_config same_config_trans
      split: if_splits prod.splits outcome.splits bool.splits)

lemma run_cycles_config: "same_config w (run_cycles I C W pause n w)"
proof (induction n arbitrary: w)
  case (Suc n)
  obtain r w1 where c: "process_new_blocks I C W w = (r, w1)" by fastforce
  obtain n' s' where p: "pause (w_node w1, w_storage w1) = (n', s')" by fastforce
  have "same_config w (w1\<lparr>w_node := n', w_storage := s'\<rparr>)"
    using process_new_blocks_config [OF c] by (simp add: same_config_def)
  then show ?case
    using Suc.IH process_new_blocks_config [OF c] c p by (cases r) (auto intro: same_config_trans)
qed simp

section \<open>Sharing\<close>

definition shared :: "('a, 'n, 'c, 's, 'x) process \<Rightarrow> bool" where
  "shared p \<longleftrightarrow> ix_watched (w_indexer (p_world p)) = st_watched (p_api p)"

lemma process_step_shared:
  "answer_request G E r p = (reply, p') \<Longrightarrow>
     shared p' \<and> st_watched (p_api p) \<subseteq> st_watched (p_api p') \<and> st_network (p_api p') = st_network (p_api p)
     \<and> st_indexer_key (p_api p') = st_indexer_key (p_api p)"
  "process_cycle I C W p = (x, p') \<Longrightarrow> p_api p' = p_api p \<and> (shared p \<longrightarrow> shared p')"
  by (auto simp: answer_request_def share_watched_def shared_def dest!: dispatch_keeps split: prod.splits)
    (auto simp: process_cycle_def shared_def same_config_def dest!: process_new_blocks_config split: prod.splits)

lemma process_reaches_keeps:
  "process_reaches G E I C W p q \<Longrightarrow> shared p \<Longrightarrow>
     shared q \<and> st_watched (p_api p) \<subseteq> st_watched (p_api q) \<and> st_network (p_api q) = st_network (p_api p)
     \<and> st_indexer_key (p_api q) = st_indexer_key (p_api p)"
proof (induction rule: process_reaches.induct)
  case (request p q r reply q')
  from process_step_shared(1) [OF request.hyps(2)] request.IH [OF request.prems] show ?case by auto
next
  case (cycle p q r q')
  from process_step_shared(2) [OF cycle.hyps(2)] cycle.IH [OF cycle.prems] show ?case by auto
next
  case (outside p q n s x)
  then show ?case by (simp add: shared_def)
qed simp

lemma indexer_main_shares:
  "indexer_main I N E host_of args env x n = (Ok (ix, st), n') \<Longrightarrow> shared (start_process ix st n' s x')"
  by (auto simp: indexer_main_def then_do_eq_Ok and_then_eq_Ok shared_def start_process_def)

text \<open>
  C35. Whoever is put under watch stays under watch.  In every state a started process can
  reach, by requests, by cycles and by changes around it, both halves watch the same
  addresses; and once \<^verbatim>\<open>POST /watch-address\<close> was answered with status 200, its text is an address
  of the network that every later cycle of the loop looks for.
\<close>

theorem watched_in_every_cycle:
  assumes "indexer_main I N E host_of args env x n = (Ok (ix, st), n')"
    and "process_reaches G E I C W (start_process ix st n' s x') p"
    and "answer_request G E (WatchAddress key text) p = (Reply 200 j, p1)"
    and "process_reaches G E I C W p1 q"
  shows "ix_watched (w_indexer (p_world q)) = st_watched (p_api q)
     \<and> (\<exists>a. api_parse_address (api_lib E) (st_network st) text = Ok a \<and> a \<in> ix_watched (w_indexer (p_world q)))"
proof -
  have p: "shared p" "st_network (p_api p) = st_network st"
    using process_reaches_keeps [OF assms(2) indexer_main_shares [OF assms(1)]] by (simp_all add: start_process_def)
  note p1 = process_step_shared(1) [OF assms(3)]
  have q: "shared q" "st_watched (p_api p1) \<subseteq> st_watched (p_api q)"
    using process_reaches_keeps [OF assms(4)] p1 by simp_all
  obtain a where "api_parse_address (api_lib E) (st_network st) text = Ok a" "a \<in> st_watched (p_api p1)"
    using assms(3) p(2)
    by (auto simp: answer_request_def share_watched_def with_key_def watch_address_handler_def error_reply_def json_reply_def
        watch_def split: if_splits outcome.splits)
  then show ?thesis using q by (auto simp: shared_def)
qed

definition no_gets :: "sqlite_db \<Rightarrow> string \<Rightarrow> string list \<Rightarrow> (rpc_response, string) outcome \<times> string list" where
  "no_gets s url x = (Err ''down'', x)"

theorem watched_in_every_cycle_witness:
  "\<exists>ix st j p. started = (Ok (ix, st), ())
     \<and> answer_request no_gets down_api (WatchAddress ''k'' ''carol'') (start_process ix st () sqlite_empty []) = (Reply 200 j, p)
     \<and> ''carol'' \<in> ix_watched (w_indexer (p_world p))"
proof -
  obtain ix st where s: "started = (Ok (ix, st), ())" and k: "st_indexer_key st = ''k''" by (rule started_state)
  let ?p = "start_process ix st () sqlite_empty ([] :: string list)"
  obtain j p where a: "answer_request no_gets down_api (WatchAddress ''k'' ''carol'') ?p = (Reply 200 j, p)"
    by (simp add: answer_request_def start_process_def with_key_def k watch_address_handler_def api_parse_address_def
        small_api_def small_lib_def json_reply_def)
  from watched_in_every_cycle [OF s [unfolded started_def] process_reaches.here a process_reaches.here]
  have "''carol'' \<in> ix_watched (w_indexer (p_world p))"
    by (auto simp: api_parse_address_def small_api_def small_lib_def)
  with s a show ?thesis by blast
qed

section \<open>From a watched address to a prepared transaction\<close>

text \<open>What is assumed of the outputs of a ledger that the watched addresses own at a height.\<close>

definition usable_outputs :: "('u, 'a, 'x) api_env \<Rightarrow> ('u, 'a, 's) app_env \<Rightarrow> 'a api_state \<Rightarrow> i32 \<Rightarrow> ledger \<Rightarrow> bool" where
  "usable_outputs E A st h F \<longleftrightarrow>
     (\<forall>a \<in> st_watched st. addr_to_string (api_lib E) a \<noteq> []
        \<and> (\<exists>p. http_parse_address A (addr_to_string (api_lib E) a) = Ok p)
        \<and> sum amount (spendable_set F h (addr_to_string (api_lib E) a)) < 9223372036854775808
        \<and> (\<forall>u \<in> spendable_set F h (addr_to_string (api_lib E) a).
             utxo_in_range u \<and> 0 \<le> vout u \<and> txid_from_str (api_lib E) (txid u) = Some (txid u)
             \<and> api_parse_address (api_lib E) (st_network st) (address u) \<noteq> Panic))"

text \<open>The storage service answers the interface's queries for a selection.\<close>

definition asks_storage :: "('s \<Rightarrow> string \<Rightarrow> 'x \<Rightarrow> (rpc_response, string) outcome \<times> 'x) \<Rightarrow> ('u, 'a, 'x) api_env
    \<Rightarrow> ('u2, 'a2, 's) app_env \<Rightarrow> 'a api_state \<Rightarrow> i32 \<Rightarrow> i64 \<Rightarrow> bool" where
  "asks_storage G E A st h needed \<longleftrightarrow>
     (\<forall>s x. \<forall>a \<in> st_watched st. \<exists>x'. G s (select_url st (api_lib E) h a needed) x
        = (response_of (json_string E) (http_select_utxos A h (addr_to_string (api_lib E) a) needed s), x'))"

lemma prepare_after_fetch:
  assumes "map_of (st_cache st) (generate_prepare_tx_cache_key E req) = None"
    and "fetch_selected_utxos_deterministic E st (pr_block_height req) (wrap_i64 (pr_amount req + pr_fee req)) x = (Ok sel, x1)"
    and "build_unsigned_transaction (api_lib E) sel (pr_amount req) (pr_fee req) (pr_destination req) (st_network st) = Ok (tx, c)"
    and "\<forall>f d x. fst (write_file E f d x) \<noteq> Panic"
  shows "\<exists>st' x'. prepare_transaction_handler_idempotent E req (st, x)
     = (Reply 200 (Some (json_of_prepared (compute_txid (api_lib E) tx))), st', x')"
proof -
  let ?c = "AList.update (generate_prepare_tx_cache_key E req)
    \<lparr>cp_txid = compute_txid (api_lib E) tx, cp_created_at = utc_now E x1\<rparr> (st_cache st)"
  obtain r x2 where w: "save_prepare_tx_cache E ?c x1 = (r, x2)" by fastforce
  then have "r \<noteq> Panic" using assms(4) by (auto simp: save_prepare_tx_cache_def dest: arg_cong [of _ _ fst])
  then show ?thesis
    using w assms(1-3) by (cases r) (simp_all add: prepare_transaction_handler_idempotent_def Let_def)
qed

lemma prepare_from_storage:
  assumes A: "app_ds A = sqlite_ds Q" "sqlite_healthy Q" "sqlite_inv Q s" "sqlite_get_latest_block Q s = Ok l"
    and h: "0 \<le> pr_block_height req" "pr_block_height req \<le> l"
    and n: "0 \<le> pr_amount req" "0 \<le> pr_fee req" "0 < pr_amount req + pr_fee req"
      "pr_amount req + pr_fee req < 9223372036854775808"
    and T: "app_time A = api_time E" "time_ok (api_time E)"
    and visit: "set (visit E (st_watched st)) = st_watched st" and U: "usable_outputs E A st (pr_block_height req) (sqlite_view Q s)"
    and G: "\<forall>x. \<forall>a \<in> st_watched st. \<exists>x'. api_get E (select_url st (api_lib E) (pr_block_height req) a (pr_amount req + pr_fee req)) x
      = (response_of (json_string E) (http_select_utxos A (pr_block_height req) (addr_to_string (api_lib E) a)
            (pr_amount req + pr_fee req) s), x')"
    and first: "filter (\<lambda>a. spendable_set (sqlite_view Q s) (pr_block_height req) (addr_to_string (api_lib E) a) \<noteq> {})
        (sorted_addresses E (st_watched st)) = a # as"
      "pr_amount req + pr_fee req \<le> sum amount (spendable_set (sqlite_view Q s) (pr_block_height req) (addr_to_string (api_lib E) a))"
    and dest: "api_parse_address (api_lib E) (st_network st) (pr_destination req) = Ok d"
    and c: "map_of (st_cache st) (generate_prepare_tx_cache_key E req) = None"
    and W: "\<forall>f d x. fst (write_file E f d x) \<noteq> Panic"
  shows "\<exists>tx sel st' x'. prepare_transaction_handler_idempotent E req (st, x)
       = (Reply 200 (Some (json_of_prepared (compute_txid (api_lib E) tx))), st', x')
     \<and> set sel \<subseteq> spendable_set (sqlite_view Q s) (pr_block_height req) (addr_to_string (api_lib E) a) \<and> distinct sel
     \<and> map (\<lambda>i. (prev_txid i, prev_vout i)) (tx_input tx) = map (\<lambda>u. (txid u, vout u)) sel
     \<and> pr_amount req + pr_fee req \<le> sum_by amount sel
     \<and> hd (tx_output tx) = \<lparr>txo_value = pr_amount req, script_pubkey = addr_script_pubkey (api_lib E) d\<rparr>"
proof -
  let ?h = "pr_block_height req" and ?n = "pr_amount req + pr_fee req"
  let ?S = "\<lambda>a. spendable_set (sqlite_view Q s) ?h (addr_to_string (api_lib E) a)"
  have W_eq: "set (sorted_addresses E (st_watched st)) = st_watched st" using visit by (simp add: sorted_addresses_def)
  have a: "a \<in> st_watched st" using first(1) W_eq by (metis filter_eq_Cons_iff in_set_conv_decomp)
  note U' = U [unfolded usable_outputs_def]
  obtain sel x1 where f: "fetch_selected_utxos_deterministic E st ?h ?n x = (Ok sel, x1)"
    and sel: "set sel \<subseteq> ?S a" "distinct sel" "?n \<le> sum_by amount sel"
    using fetch_single_address [where st = st and x = x, OF A h n(3,4) _ T] U' G first unfolding W_eq Let_def by auto
  have w: "wrap_i64 ?n = ?n" using n(3,4) by (simp add: wrap_i64_id in_i64_def)
  have own: "\<And>u. u \<in> ?S a \<Longrightarrow> 0 \<le> amount u"
    using sqlite_view_valid [OF A(2,3)] by (auto simp: spendable_set_def valid_utxo_def)
  have usable: "addr_to_string (api_lib E) a \<noteq> []" "sum amount (?S a) < 9223372036854775808"
    "\<And>u. u \<in> ?S a \<Longrightarrow> in_i32 (vout u) \<and> 0 \<le> vout u \<and> txid_from_str (api_lib E) (txid u) = Some (txid u)
       \<and> api_parse_address (api_lib E) (st_network st) (address u) \<noteq> Panic"
    using U' a unfolding utxo_in_range_def by blast+
  have fin: "finite (?S a)" using sq.db_spendable_refines [OF A(2,3) h(1) usable(1)] by (metis List.finite_set)
  have s: "sum_by amount sel < 9223372036854775808" using sum_selection [OF sel(1,2) fin own] usable(2) by fastforce
  have nonneg: "\<forall>u \<in> set sel. 0 \<le> amount u" using sel(1) own by blast
  have ids: "\<forall>u \<in> set sel. txid_from_str (api_lib E) (txid u) = Some (txid u) \<and> 0 \<le> vout u \<and> vout u < 4294967296"
    using sel(1) usable(3) by (fastforce simp: in_i32_def)
  have parse: "\<forall>u \<in> set sel. api_parse_address (api_lib E) (st_network st) (address u) \<noteq> Panic"
    using sel(1) usable(3) by blast
  obtain tx c' where b: "build_unsigned_transaction (api_lib E) sel (pr_amount req) (pr_fee req) (pr_destination req) (st_network st) = Ok (tx, c')"
    using build_unsigned_succeeds [OF nonneg s _ dest parse] sel(3) w by fastforce
  note balanced = build_unsigned_balanced [OF b nonneg s ids n(1,2,4)]
  have "fetch_selected_utxos_deterministic E st ?h (wrap_i64 ?n) x = (Ok sel, x1)" using f w by simp
  from prepare_after_fetch [OF c this b W] obtain st' x' where
    "prepare_transaction_handler_idempotent E req (st, x) = (Reply 200 (Some (json_of_prepared (compute_txid (api_lib E) tx))), st', x')"
    by blast
  moreover have "hd (tx_output tx) = \<lparr>txo_value = pr_amount req, script_pubkey = addr_script_pubkey (api_lib E) d\<rparr>"
    using balanced dest by auto
  ultimately show ?thesis using balanced sel by blast
qed

lemma chain_above_nonempty: "chain_above h L bs \<Longrightarrow> bs \<noteq> []"
proof
  assume "chain_above h L bs" and "bs = []"
  then have "- 1 \<le> h" "h < 2147483647" "h < check_start h" "0 < check_start h" by (simp_all add: chain_above_def)
  then show False by (simp add: check_start_def FINALITY_CONFIRMATIONS_def wrap_i32_id in_i32_def)
qed

lemma asks_update [simp]:
  "usable_outputs (E\<lparr>api_get := g\<rparr>) A st h F = usable_outputs E A st h F"
  "sorted_addresses (E\<lparr>api_get := g\<rparr>) W = sorted_addresses E W"
  "generate_prepare_tx_cache_key (E\<lparr>api_get := g\<rparr>) req = generate_prepare_tx_cache_key E req"
  by (simp_all add: usable_outputs_def sorted_addresses_def generate_prepare_tx_cache_key_def)

text \<open>
  C1. From the chain to a prepared transaction.  The process watches some addresses; the node
  serves a chain of blocks above the last processed height; the storage service runs over
  SQLite without faults and answers the interface's queries.  After as many cycles as there
  are blocks, a preparation for a height up to the tip is answered with the id of a
  transaction that spends distinct outputs, unspent at that height in the run of the blocks'
  updates, of the first watched address that owns any, provided these reach amount and fee;
  the outputs spent reach them, and the first output pays the amount to the destination.
\<close>

theorem watched_funds_prepared:
  assumes Q: "sqlite_healthy Q" "sqlite_inv Q (w_storage (p_world p))"
    and sync: "sync_ready I C K content f rpc N (st_watched (p_api p)) bs" "shared p"
      "chain_above (last_height (p_world p)) (sqlite_view Q (w_storage (p_world p))) bs"
      "\<forall>b \<in> set bs. sqlite_hash_fresh (bu_height b) (bu_hash b) (w_storage (p_world p))"
      "node_count rpc tip" "as_i32 tip = last_height (p_world p) + int (length bs)" "fits C (UpdateFinalityStatus (as_i32 tip))"
      "\<forall>n s. snd (pause (n, s)) = s" "configured content f rpc N (st_watched (p_api p)) (p_world p)" "length bs \<le> cycles"
    and F: "F = ledger_run (map changes_of bs) (sqlite_view Q (w_storage (p_world p)))"
    and A: "app_ds A = sqlite_ds Q" "app_time A = api_time E" "time_ok (api_time E)"
    and h: "0 \<le> pr_block_height req" "pr_block_height req \<le> as_i32 tip"
    and n: "0 \<le> pr_amount req" "0 \<le> pr_fee req" "0 < pr_amount req + pr_fee req"
      "pr_amount req + pr_fee req < 9223372036854775808"
    and E: "set (visit E (st_watched (p_api p))) = st_watched (p_api p)" "usable_outputs E A (p_api p) (pr_block_height req) F"
      "asks_storage G E A (p_api p) (pr_block_height req) (pr_amount req + pr_fee req)"
      "\<forall>f d x. fst (write_file E f d x) \<noteq> Panic"
    and first: "filter (\<lambda>a. spendable_set F (pr_block_height req) (addr_to_string (api_lib E) a) \<noteq> {})
        (sorted_addresses E (st_watched (p_api p))) = a # as"
      "pr_amount req + pr_fee req \<le> sum amount (spendable_set F (pr_block_height req) (addr_to_string (api_lib E) a))"
    and req: "api_parse_address (api_lib E) (st_network (p_api p)) (pr_destination req) = Ok d"
      "map_of (st_cache (p_api p)) (generate_prepare_tx_cache_key E req) = None"
  shows "\<exists>tx sel p'. answer_request G E (PrepareTransaction (st_indexer_key (p_api p)) req)
        (p\<lparr>p_world := run_cycles I C (storage_wire C K (sqlite_ds Q)) pause cycles (p_world p)\<rparr>)
       = (Reply 200 (Some (json_of_prepared (compute_txid (api_lib E) tx))), p')
     \<and> set sel \<subseteq> spendable_set F (pr_block_height req) (addr_to_string (api_lib E) a) \<and> distinct sel
     \<and> map (\<lambda>i. (prev_txid i, prev_vout i)) (tx_input tx) = map (\<lambda>u. (txid u, vout u)) sel
     \<and> pr_amount req + pr_fee req \<le> sum_by amount sel
     \<and> hd (tx_output tx) = \<lparr>txo_value = pr_amount req, script_pubkey = addr_script_pubkey (api_lib E) d\<rparr>"
proof -
  let ?w = "run_cycles I C (storage_wire C K (sqlite_ds Q)) pause cycles (p_world p)"
  let ?s = "w_storage ?w" and ?h0 = "last_height (p_world p)" and ?L = "sqlite_view Q (w_storage (p_world p))"
  let ?E = "E\<lparr>api_get := G ?s\<rparr>"
  have "synced (sqlite_view Q) sqlite_chain (sqlite_inv Q) sqlite_hash_fresh ?h0 ?L bs 0 (p_world p)"
    using Q(2) sync(4) by (simp add: synced_def ledger_run_def)
  from sq.run_syncs [OF Q(1) sync(1,3,5,6,7,8,9) this] sync(10)
  have S: "synced (sqlite_view Q) sqlite_chain (sqlite_inv Q) sqlite_hash_fresh ?h0 ?L bs (length bs) ?w" by simp
  then have s: "sqlite_inv Q ?s" "sqlite_view Q ?s = F" by (simp_all add: synced_def F)
  have tip: "?h0 < as_i32 tip" using sync(3,6) chain_above_nonempty [OF sync(3)] by simp
  then have "as_i32 tip \<in> dom (hashes_of bs)" using dom_hashes_of [of ?h0 bs] sync(3,6) by (auto simp: chain_above_def)
  then obtain x where "sqlite_chain ?s (as_i32 tip) = Some x" using S sync(6) tip by (auto simp: synced_def)
  then obtain l where l: "sqlite_get_latest_block Q ?s = Ok l" "as_i32 tip \<le> l"
    using sqlite_latest_at_least [OF Q(1)] by blast
  have h': "pr_block_height req \<le> l" using h(2) l(2) by simp
  have "\<exists>tx sel st' x'. prepare_transaction_handler_idempotent ?E req (p_api p, p_outside p)
       = (Reply 200 (Some (json_of_prepared (compute_txid (api_lib ?E) tx))), st', x')
     \<and> set sel \<subseteq> spendable_set (sqlite_view Q ?s) (pr_block_height req) (addr_to_string (api_lib ?E) a) \<and> distinct sel
     \<and> map (\<lambda>i. (prev_txid i, prev_vout i)) (tx_input tx) = map (\<lambda>u. (txid u, vout u)) sel
     \<and> pr_amount req + pr_fee req \<le> sum_by amount sel
     \<and> hd (tx_output tx) = \<lparr>txo_value = pr_amount req, script_pubkey = addr_script_pubkey (api_lib ?E) d\<rparr>"
    by (rule prepare_from_storage [OF A(1) Q(1) s(1) l(1) h(1) h' n])
      (use A(2,3) E first req in \<open>simp_all add: s(2) asks_storage_def\<close>)
  then show ?thesis by (fastforce simp: answer_request_def with_key_def s(2))
qed

lemma six_ledger_eq:
  "ledger_run (map changes_of six_blocks) Map.empty = [''-alice:0'' \<mapsto> hd (utxo_updates (chain_block 1))]"
proof -
  have e: "ledger_apply (changes_of (chain_block h)) L = L" if "h \<in> {2, 3, 4, 5, 6}" for h L
    using that chain_block_empty [of h] six_hashes
    by (auto simp: changes_of_def ledger_apply_def ledger_spend_def ledger_create_def table_of_def)
  show ?thesis
    by (simp add: ledger_run_def six_blocks_def e)
      (simp add: chain_block_first changes_of_def ledger_apply_def ledger_spend_def ledger_create_def table_of_def fun_eq_iff)
qed

definition funded_process :: "(string, unit, lru, sqlite_db, string list) process" where
  "funded_process = \<lparr>p_world = fresh_world, p_api = small_api_state, p_outside = []\<rparr>"

definition funded_request :: prepare_request where
  "funded_request = \<lparr>pr_block_height = 6, pr_amount = 30, pr_destination = ''bob'', pr_fee = 5\<rparr>"

definition storage_gets :: "sqlite_db \<Rightarrow> string \<Rightarrow> string list \<Rightarrow> (rpc_response, string) outcome \<times> string list" where
  "storage_gets s url x = (response_of (json_string down_api) (http_select_utxos plain_app 6 ''alice'' 35 s), x)"

text \<open>The process of the instance after six cycles.\<close>

definition synced_process :: "(string, unit, lru, sqlite_db, string list) process" where
  "synced_process = funded_process\<lparr>p_world :=
     run_cycles small_ix_env six_codec (storage_wire six_codec small_conn (sqlite_ds plain_env)) id 6 (p_world funded_process)\<rparr>"

lemma funded_process_sel:
  "p_world funded_process = fresh_world" "p_api funded_process = small_api_state"
  "st_watched small_api_state = {''alice''}" "st_indexer_key small_api_state = ''k''"
  "st_network small_api_state = Regtest" "st_cache small_api_state = []"
  by (simp_all add: funded_process_def small_api_state_def)

lemma funded_request_sel:
  "pr_block_height funded_request = 6" "pr_amount funded_request = 30" "pr_fee funded_request = 5"
  "pr_destination funded_request = ''bob''"
  by (simp_all add: funded_request_def)

lemma down_api_sel:
  "api_lib down_api = small_lib" "api_time down_api = plain_time" "visit down_api {''alice''} = [''alice'']"
  "write_file down_api = (\<lambda>f d x. (Ok (), d # x))" "addr_to_string small_lib = (\<lambda>a. a)"
  by (simp_all add: small_api_def small_lib_def)

abbreviation six_ledger :: ledger where
  "six_ledger \<equiv> ledger_run (map changes_of six_blocks) Map.empty"

abbreviation alices :: utxo where
  "alices \<equiv> hd (utxo_updates (chain_block 1))"

lemma alices_sel:
  "txid alices = ''-alice''" "vout alices = 0" "amount alices = 50" "address alices = ''alice''"
  "utxo_in_range alices" "unspent_at 6 alices"
  by (simp_all add: chain_block_first utxo_in_range_def in_i32_def in_i64_def unspent_at_def)

lemma funded_outputs: "spendable_set six_ledger 6 ''alice'' = {alices}"
  unfolding six_ledger_eq using alices_sel(4,6) by (auto simp: spendable_set_def split: if_splits)

lemma funded_setup:
  "usable_outputs down_api plain_app small_api_state 6 six_ledger"
  "asks_storage storage_gets down_api plain_app small_api_state 6 35"
  "filter (\<lambda>a. spendable_set six_ledger 6 (addr_to_string (api_lib down_api) a) \<noteq> {})
      (sorted_addresses down_api (st_watched small_api_state)) = [''alice'']"
  "35 \<le> sum amount (spendable_set six_ledger 6 (addr_to_string (api_lib down_api) ''alice''))"
  "api_parse_address (api_lib down_api) (st_network small_api_state) ''bob'' = Ok ''bob''"
  unfolding usable_outputs_def asks_storage_def sorted_addresses_def funded_process_sel down_api_sel
  using alices_sel by (simp_all add: funded_outputs storage_gets_def api_parse_address_def) (simp_all add: small_lib_def)

theorem watched_funds_prepared_witness:
  "\<exists>tx p. answer_request storage_gets down_api (PrepareTransaction ''k'' funded_request) synced_process
       = (Reply 200 (Some (json_of_prepared (compute_txid small_lib tx))), p)
     \<and> map (\<lambda>i. (prev_txid i, prev_vout i)) (tx_input tx) = [(''-alice'', 0)]
     \<and> hd (tx_output tx) = \<lparr>txo_value = 30, script_pubkey = ''bob''\<rparr>"
proof -
  note W = watched_funds_prepared [where p = funded_process and a = "''alice''" and as = "[]" and d = "''bob''" and tip = 6
      and req = funded_request and G = storage_gets and E = down_api and A = plain_app and F = six_ledger and cycles = 6
      and pause = id and Q = plain_env and bs = six_blocks and I = small_ix_env and C = six_codec and K = small_conn
      and content = lru_content and f = Map.empty and rpc = "Core chain_node" and N = Regtest,
      folded synced_process_def, unfolded funded_process_sel(1-5) funded_request_sel]
  have "\<exists>tx sel p'. answer_request storage_gets down_api (PrepareTransaction ''k'' funded_request) synced_process
       = (Reply 200 (Some (json_of_prepared (compute_txid (api_lib down_api) tx))), p')
     \<and> set sel \<subseteq> spendable_set six_ledger 6 (addr_to_string (api_lib down_api) ''alice'') \<and> distinct sel
     \<and> map (\<lambda>i. (prev_txid i, prev_vout i)) (tx_input tx) = map (\<lambda>u. (txid u, vout u)) sel
     \<and> 30 + 5 \<le> sum_by amount sel
     \<and> hd (tx_output tx) = \<lparr>txo_value = 30, script_pubkey = addr_script_pubkey (api_lib down_api) ''bob''\<rparr>"
    by (rule W) (use six_ready six_chain six_tip funded_setup funded_process_sel in
      \<open>simp_all add: down_api_sel(2,3,4) shared_def\<close>)
  moreover have "sel = [alices]" if "set sel \<subseteq> {alices}" "distinct sel" "30 + 5 \<le> sum_by amount sel" for sel
    using that by (cases sel; cases "tl sel") auto
  ultimately show ?thesis
    unfolding down_api_sel using alices_sel(1,2) by (simp add: funded_outputs) (fastforce simp: small_lib_def)
qed

end
