(* ===== verification/Tasks.thy ===== *)
theory Tasks
  imports Prelude
begin

text \<open>
  Concurrent tasks over one shared state.  Both services spawn a task per connection or
  request; a task is cut at its calls on what the tasks share, and a scheduler picks which
  task goes on.  Invariants of every interleaving follow from those of single calls.
\<close>

section \<open>Tasks\<close>

text \<open>A task has finished with a result, or waits to make its next call on the shared state.\<close>

datatype ('s, 'r) task = Finished 'r | Running "'s \<Rightarrow> ('s, 'r) task \<times> 's"

text \<open>A call and the rest of the task.\<close>

definition call :: "('s \<Rightarrow> 'a \<times> 's) \<Rightarrow> ('a \<Rightarrow> ('s, 'r) task) \<Rightarrow> ('s, 'r) task" where
  "call f k = Running (\<lambda>s. case f s of (a, s') \<Rightarrow> (k a, s'))"

text \<open>The same for a call that may fail; a panic ends the task.\<close>

definition after_call :: "('s \<Rightarrow> ('a, 'd) outcome \<times> 's) \<Rightarrow> (('a, 'd) outcome \<Rightarrow> ('s, ('r, 'e) outcome) task)
    \<Rightarrow> ('s, ('r, 'e) outcome) task" where
  "after_call f k = call f (\<lambda>r. case r of Panic \<Rightarrow> Finished Panic | _ \<Rightarrow> k r)"

text \<open>A task run to its end without interruption.\<close>

primrec run_task :: "('s, 'r) task \<Rightarrow> 's \<Rightarrow> 'r \<times> 's" where
  "run_task (Finished r) = (\<lambda>s. (r, s))"
| "run_task (Running f) = (\<lambda>s. case (map_prod run_task id \<circ> f) s of (g, s') \<Rightarrow> g s')"

text \<open>One call of one task; a schedule is the list of tasks in the order in which they go on.\<close>

fun step_task :: "nat \<Rightarrow> ('s, 'r) task list \<times> 's \<Rightarrow> ('s, 'r) task list \<times> 's" where
  "step_task i (ts, s) =
     (if i < length ts
      then case ts ! i of
          Running f \<Rightarrow> (case f s of (t, s') \<Rightarrow> (ts[i := t], s'))
        | Finished _ \<Rightarrow> (ts, s)
      else (ts, s))"

definition run_schedule :: "nat list \<Rightarrow> ('s, 'r) task list \<times> 's \<Rightarrow> ('s, 'r) task list \<times> 's" where
  "run_schedule is c = fold step_task is c"

lemma length_step [simp]: "length (fst (step_task i c)) = length (fst c)"
  by (cases c) (auto split: prod.splits task.splits)

section \<open>Running a task alone\<close>

lemma run_call [simp]: "run_task (call f k) s = (case f s of (a, s') \<Rightarrow> run_task (k a) s')"
  by (simp add: call_def split: prod.splits)

lemma run_after_call [simp]:
  "run_task (after_call f k) s = (case f s of (Panic, s') \<Rightarrow> (Panic, s') | (r, s') \<Rightarrow> run_task (k r) s')"
  by (simp add: after_call_def split: prod.splits outcome.splits)

lemma run_map_task: "run_task (map_task g t) s = apfst g (run_task t s)"
proof (induction t arbitrary: s)
  case (Running f)
  obtain t s' where f: "f s = (t, s')" by fastforce
  then have "(t, s') \<in> range f" by (metis rangeI)
  with Running [of "(t, s')" t s'] f show ?case by simp
qed simp

text \<open>A schedule that names one task often enough finishes it.\<close>

lemma run_task_schedule:
  "\<exists>k. run_schedule (replicate k i) (ts[i := t], s) = (ts[i := Finished (fst (run_task t s))], snd (run_task t s))"
  if "i < length ts"
proof (induction t arbitrary: s)
  case (Finished r)
  then show ?case by (intro exI [of _ 0]) (simp add: run_schedule_def)
next
  case (Running f)
  obtain t s' where f: "f s = (t, s')" by fastforce
  then have "(t, s') \<in> range f" by (metis rangeI)
  with Running [of "(t, s')" t s'] obtain k where
    "run_schedule (replicate k i) (ts[i := t], s') = (ts[i := Finished (fst (run_task t s'))], snd (run_task t s'))" by auto
  then show ?case using f that by (intro exI [of _ "Suc k"]) (simp add: run_schedule_def)
qed

section \<open>Every interleaving\<close>

text \<open>
  From a state \<open>s\<close> on, with the other tasks changing the state in steps of \<open>G\<close> between its
  calls, each call of the task is a step of \<open>G\<close> and its result satisfies \<open>Q\<close>.
\<close>

inductive assures :: "('s \<Rightarrow> 's \<Rightarrow> bool) \<Rightarrow> ('s \<Rightarrow> 'r \<Rightarrow> bool) \<Rightarrow> 's \<Rightarrow> ('s, 'r) task \<Rightarrow> bool" for G Q where
  finished: "Q s r \<Longrightarrow> assures G Q s (Finished r)"
| running: "(\<And>s'. G s s' \<Longrightarrow> G s' (snd (f s')) \<and> assures G Q (snd (f s')) (fst (f s'))) \<Longrightarrow> assures G Q s (Running f)"

inductive_cases assures_RunningE: "assures G Q s (Running f)"
inductive_simps assures_Finished [simp]: "assures G Q s (Finished r)"

lemma assures_map_task:
  assumes "assures G Q s t" and "\<And>s r. Q s r \<Longrightarrow> Q' s (g r)"
  shows "assures G Q' s (map_task g t)"
  using assms(1)
proof (induction rule: assures.induct)
  case (running s f)
  then show ?case by (simp add: assures.running)
qed (simp add: assms(2))

lemma assures_call:
  assumes "\<And>s' a s''. G s s' \<Longrightarrow> f s' = (a, s'') \<Longrightarrow> G s' s'' \<and> assures G Q s'' (k a)"
  shows "assures G Q s (call f k)"
  unfolding call_def using assms by (intro assures.running) (auto split: prod.splits)

text \<open>The steps the tasks take and allow each other; what holds of a result goes on holding.\<close>

locale rely_guarantee =
  fixes G :: "'s \<Rightarrow> 's \<Rightarrow> bool" and Q :: "nat \<Rightarrow> 's \<Rightarrow> 'r \<Rightarrow> bool"
  assumes G_refl: "G s s"
    and G_trans: "G s s' \<Longrightarrow> G s' s'' \<Longrightarrow> G s s''"
    and Q_stable: "Q i s r \<Longrightarrow> G s s' \<Longrightarrow> Q i s' r"
begin

lemma assures_later: "assures G (Q i) s t \<Longrightarrow> G s s' \<Longrightarrow> assures G (Q i) s' t"
proof (induction rule: assures.induct)
  case (finished s r)
  then show ?case using Q_stable by simp
next
  case (running s f)
  from running.IH G_trans [OF running.prems] show ?case by (intro assures.running) blast
qed

lemma step_assured:
  assumes "\<forall>j < length ts. assures G (Q j) s (ts ! j)" and "step_task i (ts, s) = (ts', s')"
  shows "G s s' \<and> length ts' = length ts \<and> (\<forall>j < length ts'. assures G (Q j) s' (ts' ! j))"
proof (cases "i < length ts \<and> (\<exists>f. ts ! i = Running f)")
  case True
  then obtain f where f: "ts ! i = Running f" "i < length ts" by blast
  obtain t s'' where c: "f s = (t, s'')" by fastforce
  have "assures G (Q i) s (Running f)" using assms(1) f by metis
  then have g: "G s s''" "assures G (Q i) s'' t" using c G_refl by (force elim: assures_RunningE)+
  then show ?thesis using assms f c by (auto simp: nth_list_update assures_later)
next
  case False
  then have "(ts', s') = (ts, s)" using assms(2) by (auto split: task.splits if_splits)
  then show ?thesis using assms(1) G_refl by simp
qed

end

section \<open>Invariants\<close>

text \<open>Every call a task can ever make keeps \<open>I\<close>.\<close>

definition upholds :: "('s \<Rightarrow> bool) \<Rightarrow> 's \<Rightarrow> 's \<Rightarrow> bool" where
  "upholds I s s' \<longleftrightarrow> (I s \<longrightarrow> I s')"

definition keeps :: "('s \<Rightarrow> bool) \<Rightarrow> ('s, 'r) task \<Rightarrow> bool" where
  "keeps I t \<longleftrightarrow> (\<forall>s. I s \<longrightarrow> assures (upholds I) (\<lambda>_ _. True) s t)"

interpretation upholds: rely_guarantee "upholds I" "\<lambda>_ _ _. True" for I
  by unfold_locales (auto simp: upholds_def)

lemma keeps_Finished [simp]: "keeps I (Finished r)"
  by (simp add: keeps_def)

lemma keeps_call:
  assumes "\<And>s a s'. I s \<Longrightarrow> f s = (a, s') \<Longrightarrow> I s'" and "\<And>a. keeps I (k a)"
  shows "keeps I (call f k)"
  using assms unfolding keeps_def upholds_def by (blast intro!: assures_call)

lemma keeps_after_call:
  assumes "\<And>s r s'. I s \<Longrightarrow> f s = (r, s') \<Longrightarrow> I s'" and "\<And>r. keeps I (k r)"
  shows "keeps I (after_call f k)"
  unfolding after_call_def using assms(1) by (rule keeps_call) (auto simp: assms(2) split: outcome.splits)

lemma keeps_map_task: "keeps I t \<Longrightarrow> keeps I (map_task g t)"
  by (auto simp: keeps_def intro: assures_map_task)

lemma keeps_at: "I s \<Longrightarrow> keeps I t \<longleftrightarrow> assures (upholds I) (\<lambda>_ _. True) s t"
  unfolding keeps_def by (metis upholds.assures_later upholds_def)

lemma keeps_step:
  assumes "\<forall>t \<in> set ts. keeps I t" and "I s" and "step_task i (ts, s) = (ts', s')"
  shows "(\<forall>t \<in> set ts'. keeps I t) \<and> I s'"
proof -
  have "\<forall>j < length ts. assures (upholds I) (\<lambda>_ _. True) s (ts ! j)" using assms(1,2) by (simp add: keeps_at)
  from upholds.step_assured [OF this assms(3)] have s': "I s'"
    "\<forall>j < length ts'. assures (upholds I) (\<lambda>_ _. True) s' (ts' ! j)" using assms(2) by (simp_all add: upholds_def)
  then show ?thesis by (simp add: keeps_at [of I, OF s'(1)] all_set_conv_all_nth)
qed

end
