(* ===== verification/Storage_Tasks.thy ===== *)
theory Storage_Tasks
  imports Storage_Safety Storage_Http Tasks
begin

text \<open>
  The connections of the storage service as concurrent tasks.  \<^verbatim>\<open>run_socket_server\<close> spawns one
  task per connection, all on one database; a task is cut at its calls of the data source, each
  of which is one statement or one transaction.  Run alone a task is the sequential handler.
\<close>

section \<open>Tasks\<close>

definition revert_task :: "'s datasource \<Rightarrow> i32 \<Rightarrow> i32 \<Rightarrow> ('s, (network_message option, string) outcome) task" where
  "revert_task D height latest =
     (let safe = safe_revert_height latest height
      in if latest = 0 then Finished (Ok None)
         else after_call (ds_mark_blocks_after_height_not_main_chain D safe) (\<lambda>r.
           case r of Ok _ \<Rightarrow> after_call (ds_revert_utxos_after_height D safe) (\<lambda>_. Finished (Ok None))
                   | _ \<Rightarrow> Finished (Ok None)))"

fun message_task :: "'s datasource \<Rightarrow> network_message \<Rightarrow> ('s, (network_message option, string) outcome) task" where
  "message_task D (BlockUpdate u) =
     after_call (db_store_block D (bu_height u) (bu_hash u) (bu_timestamp u)) (\<lambda>_.
     after_call (process_block D u) (\<lambda>_. Finished (Ok (Some (BlockProcessedAck (bu_height u))))))"
| "message_task D (ReorgEvent fork_height) =
     after_call (\<lambda>s. (db_get_latest_block D s, s)) (\<lambda>r.
       revert_task D fork_height (case r of Ok l \<Rightarrow> l | _ \<Rightarrow> 0))"
| "message_task D (GetBlockHash h) =
     after_call (\<lambda>s. (db_get_block_hash D h s, s)) (\<lambda>r.
       Finished (Ok (Some (BlockHashResponse (case r of Ok x \<Rightarrow> x | _ \<Rightarrow> [])))))"
| "message_task D (UpdateFinalityStatus current_height) =
     after_call (update_finality_status D current_height) (\<lambda>_. Finished (Ok None))"
| "message_task D _ = Finished (Ok None)"

definition reply_bytes :: "codec \<Rightarrow> conn_env \<Rightarrow> (network_message option, string) outcome \<Rightarrow> (string, string) outcome" where
  "reply_bytes C K r =
     and_then r (\<lambda>m. case m of
         None \<Rightarrow> Ok []
       | Some reply \<Rightarrow> and_then (serialize C reply) (\<lambda>d. and_then (raise_if (reply_fault K)) (\<lambda>_. Ok (frame d))))"

definition connection_task :: "codec \<Rightarrow> conn_env \<Rightarrow> 's datasource \<Rightarrow> string \<Rightarrow> ('s, (string, string) outcome) task" where
  "connection_task C K D input =
     (case read_exact 4 input of
        None \<Rightarrow> Finished (Err (''Failed to read message size: '' @ eof_error K))
      | Some (size_buf, rest) \<Rightarrow>
       (case read_exact (nat (from_le_bytes size_buf)) rest of
          None \<Rightarrow> Finished (Err (''Failed to read message data: '' @ eof_error K))
        | Some (data, _) \<Rightarrow>
         (case deserialize C data of
            Err e \<Rightarrow> Finished (Err (''Failed to deserialize message: '' @ e))
          | Panic \<Rightarrow> Finished Panic
          | Ok m \<Rightarrow> map_task (reply_bytes C K) (message_task D m))))"

text \<open>
  What the server over SQLite can reach: connections arrive with any bytes, faults and codec
  that satisfies \<open>P\<close>, and tasks go on in any order.
\<close>

inductive sqlite_server :: "(codec \<Rightarrow> bool) \<Rightarrow> (sqlite_db, (string, string) outcome) task list \<times> sqlite_db \<Rightarrow> bool"
  for P where
  start: "sqlite_server P ([], sqlite_empty)"
| accept: "sqlite_server P (ts, s) \<Longrightarrow> P C \<Longrightarrow> sqlite_server P (ts @ [connection_task C K (sqlite_ds E) input], s)"
| step: "sqlite_server P c \<Longrightarrow> sqlite_server P (step_task i c)"

section \<open>A task alone is the handler\<close>

lemma run_message_task: "run_task (message_task D m) s = handle_message D m s"
  by (cases m) (auto simp: revert_task_def revert_to_height_def Let_def split: outcome.splits prod.splits)

text \<open>A task run alone is the sequential handler.\<close>

lemma task_run:
  "run_task (connection_task C K D input) s = handle_socket_connection C K D input s"
  by (auto simp: connection_task_def handle_socket_connection_def run_map_task run_message_task reply_bytes_def apfst_def
      split: option.splits outcome.splits prod.splits)

section \<open>Invariants of every interleaving\<close>

text \<open>An invariant of the data source's calls, for the messages that are \<open>ok\<close>.\<close>

locale call_invariant =
  fixes D :: "'s datasource" and I :: "'s \<Rightarrow> bool" and ok :: "network_message \<Rightarrow> bool"
  assumes store_keeps: "ok (BlockUpdate b) \<Longrightarrow> I s \<Longrightarrow>
      db_store_block D (bu_height b) (bu_hash b) (bu_timestamp b) s = (r, s') \<Longrightarrow> I s'"
    and process_keeps: "ok (BlockUpdate b) \<Longrightarrow> I s \<Longrightarrow> process_block D b s = (r, s') \<Longrightarrow> I s'"
    and finality_keeps: "I s \<Longrightarrow> update_finality_status D h s = (r, s') \<Longrightarrow> I s'"
    and off_main_keeps: "I s \<Longrightarrow> ds_mark_blocks_after_height_not_main_chain D h s = (r, s') \<Longrightarrow> I s'"
    and revert_keeps: "I s \<Longrightarrow> ds_revert_utxos_after_height D h s = (r, s') \<Longrightarrow> I s'"
begin

lemma keeps_revert: "keeps I (revert_task D h l)"
proof (cases "l = 0")
  case False
  have inner: "keeps I (case r of Ok _ \<Rightarrow> after_call (ds_revert_utxos_after_height D i) (\<lambda>_. Finished (Ok None))
      | _ \<Rightarrow> Finished (Ok None))" for r :: "unit sres" and i
    by (cases r) (auto intro!: keeps_after_call dest: revert_keeps)
  show ?thesis unfolding revert_task_def Let_def if_not_P [OF False]
    by (rule keeps_after_call, erule off_main_keeps, assumption, rule inner)
qed (simp add: revert_task_def keeps_Finished)

lemma keeps_message: "ok m \<Longrightarrow> keeps I (message_task D m)"
proof (cases m)
  case (BlockUpdate u)
  assume "ok m"
  then have "ok (BlockUpdate u)" by (simp only: BlockUpdate)
  then show ?thesis unfolding BlockUpdate message_task.simps
    by (intro keeps_after_call keeps_Finished) (erule (1) store_keeps process_keeps, assumption)+
next
  case (ReorgEvent h)
  show ?thesis unfolding ReorgEvent message_task.simps by (intro keeps_after_call keeps_revert) simp
next
  case (GetBlockHash h)
  show ?thesis unfolding GetBlockHash message_task.simps by (intro keeps_after_call keeps_Finished) simp
next
  case (UpdateFinalityStatus h)
  show ?thesis unfolding UpdateFinalityStatus message_task.simps
    by (intro keeps_after_call keeps_Finished) (erule finality_keeps, assumption)
qed auto

lemma keeps_connection:
  assumes "\<And>d m. deserialize C d = Ok m \<Longrightarrow> ok m"
  shows "keeps I (connection_task C K D input)"
  unfolding connection_task_def
  by (simp add: keeps_Finished keeps_map_task [OF keeps_message] assms split: option.split outcome.split prod.split)

end

lemma sqlite_server_keeps:
  assumes "sqlite_server P c" and "I sqlite_empty" and "\<And>C K E input. P C \<Longrightarrow> keeps I (connection_task C K (sqlite_ds E) input)"
  shows "(\<forall>t \<in> set (fst c). keeps I t) \<and> I (snd c)"
  using assms(1)
proof (induction rule: sqlite_server.induct)
  case (accept ts s C K E input)
  then show ?case using assms(3) [of C K E input] by simp
next
  case (step c i)
  obtain ts s where c: "c = (ts, s)" by fastforce
  obtain ts' s' where c': "step_task i (ts, s) = (ts', s')" by fastforce
  from keeps_step [OF _ _ c', of I] step.IH show ?case unfolding c c' by simp
qed (simp add: assms(2))

section \<open>The schema\<close>

interpretation schema_calls: call_invariant "sqlite_ds E" sqlite_schema "\<lambda>_. True" for E
  by unfold_locales (auto dest: sqlite_schema_db_store_block sqlite_schema_process_block sqlite_schema_finality
      sqlite_schema_off_main sqlite_schema_revert)

lemma sqlite_server_schema: "sqlite_server P (ts, s) \<Longrightarrow> sqlite_schema s"
  using sqlite_server_keeps [of P "(ts, s)" sqlite_schema] schema_calls.keeps_connection sqlite_schema_empty by auto

text \<open>
  C15. The tables stay consistent under concurrency: whatever connections arrive, with any
  bytes, codec and faults, and in whatever order their tasks make their calls, the output rows
  have distinct ids and distinct outpoints, non-negative amounts and non-empty addresses, and
  the block rows distinct heights and distinct hashes.
\<close>

theorem sqlite_concurrent_schema:
  assumes "sqlite_server P (ts, s)"
  shows "distinct (map utxo_id (sq_utxo s)) \<and> distinct (map (\<lambda>r. (txid r, vout r)) (sq_utxo s))
     \<and> (\<forall>r \<in> set (sq_utxo s). 0 \<le> amount r \<and> address r \<noteq> [])
     \<and> distinct (map sb_height (sq_blocks s)) \<and> distinct (map sb_hash (sq_blocks s))"
  using sqlite_server_schema [OF assms] by (simp add: sqlite_schema_def rows_ok_def blocks_ok_def)

theorem sqlite_concurrent_schema_witness:
  "let s = snd (step_task 0 ([connection_task small_codec small_conn (sqlite_ds plain_env) (frame ''A'')], sqlite_empty))
     in distinct (map utxo_id (sq_utxo s)) \<and> distinct (map sb_height (sq_blocks s)) \<and> distinct (map sb_hash (sq_blocks s))"
proof -
  let ?c = "([connection_task small_codec small_conn (sqlite_ds plain_env) (frame ''A'')], sqlite_empty)"
  have "sqlite_server (\<lambda>_. True) ?c" using sqlite_server.accept [OF sqlite_server.start, of "\<lambda>_. True"] by simp
  then have "sqlite_server (\<lambda>_. True) (fst (step_task 0 ?c), snd (step_task 0 ?c))" using sqlite_server.step by (metis prod.collapse)
  from sqlite_concurrent_schema [OF this] show ?thesis by (simp only: Let_def simp_thms)
qed

text \<open>The sequential service is one of the interleavings.\<close>

lemma sqlite_server_schedule: "sqlite_server P c \<Longrightarrow> sqlite_server P (run_schedule is c)"
proof (induction "is" arbitrary: c)
  case (Cons i js)
  from Cons.IH [OF sqlite_server.step [OF Cons.prems]] show ?case by (simp add: run_schedule_def del: step_task.simps)
qed (simp add: run_schedule_def)

lemma sqlite_service_server: "sqlite_service s \<Longrightarrow> \<exists>ts. sqlite_server (\<lambda>_. True) (ts, s)"
proof (induction rule: sqlite_service.induct)
  case start
  show ?case using sqlite_server.start by blast
next
  case (connection s C K E input r s')
  then obtain ts where "sqlite_server (\<lambda>_. True) (ts, s)" by blast
  then have a: "sqlite_server (\<lambda>_. True) (ts @ [connection_task C K (sqlite_ds E) input], s)"
    by (rule sqlite_server.accept) simp
  let ?t = "connection_task C K (sqlite_ds E) input" and ?i = "length ts"
  have e: "(ts @ [?t])[?i := ?t] = ts @ [?t]" by simp
  obtain k where "run_schedule (replicate k ?i) (ts @ [?t], s) = ((ts @ [?t])[?i := Finished (fst (run_task ?t s))], snd (run_task ?t s))"
    using run_task_schedule [of ?i "ts @ [?t]" ?t s] unfolding e by auto
  moreover have "snd (run_task ?t s) = s'" using task_run [of C K "sqlite_ds E" input s] connection.hyps(2) by simp
  ultimately show ?case using sqlite_server_schedule [OF a] by metis
qed

section \<open>Types\<close>

text \<open>The integers of a message are within the ranges of their types, as what bincode decodes is.\<close>

fun message_in_range :: "network_message \<Rightarrow> bool" where
  "message_in_range (BlockUpdate b) \<longleftrightarrow> in_i32 (bu_height b) \<and> (\<forall>u \<in> set (utxo_updates b). utxo_in_range u)"
| "message_in_range (ReorgEvent h) \<longleftrightarrow> in_i32 h"
| "message_in_range (GetBlockHash h) \<longleftrightarrow> in_i32 h"
| "message_in_range (UpdateFinalityStatus h) \<longleftrightarrow> in_i32 h"
| "message_in_range (BlockProcessedAck h) \<longleftrightarrow> in_i32 h"
| "message_in_range (BlockHashResponse _) \<longleftrightarrow> True"

definition typed_codec :: "codec \<Rightarrow> bool" where
  "typed_codec C \<longleftrightarrow> (\<forall>d m. deserialize C d = Ok m \<longrightarrow> message_in_range m)"

definition tables_typed :: "sqlite_db \<Rightarrow> bool" where
  "tables_typed s \<longleftrightarrow> (\<forall>r \<in> set (sq_utxo s). utxo_in_range r) \<and> (\<forall>b \<in> set (sq_blocks s). in_i32 (sb_height b))"

lemma in_range_copies [simp]:
  "utxo_in_range (encode_row E u) = utxo_in_range u" "utxo_in_range (row_with_times r c sp) = utxo_in_range r"
  "utxo_in_range r \<Longrightarrow> utxo_in_range (unspend_after h r)"
  "utxo_in_range r \<Longrightarrow> utxo_in_range q \<Longrightarrow> utxo_in_range (mark_spent r q)"
  by (simp_all add: utxo_in_range_def encode_row_def row_with_times_def unspend_after_def unspend_def mark_spent_def
      split: option.splits)

lemma typed_bulk:
  "bulk_upsert_utxos_in_tx E n us rows = Ok rows' \<Longrightarrow> \<forall>r \<in> set rows. utxo_in_range r \<Longrightarrow>
   \<forall>u \<in> set us. utxo_in_range u \<Longrightarrow> \<forall>r \<in> set rows'. utxo_in_range r"
proof (induction us arbitrary: n rows)
  case (Cons u us)
  then obtain rows1 where r1: "upsert_row E (encode_row E u) rows = Ok rows1"
    and r2: "bulk_upsert_utxos_in_tx E (Suc n) us rows1 = Ok rows'" by (auto simp: and_then_eq_Ok)
  have "\<forall>r \<in> set rows1. utxo_in_range r"
    using r1 Cons.prems(2,3) by (auto simp: upsert_row_def split: if_splits)
  then show ?case using Cons.IH [OF r2] Cons.prems(3) by simp
qed simp

lemma gather_changes_subset:
  "gather_changes us pc = Ok pc' \<Longrightarrow>
   set (utxos_update pc') \<union> set (utxos_insert pc') \<subseteq> set (utxos_update pc) \<union> set (utxos_insert pc) \<union> set us"
  by (induction us arbitrary: pc) (fastforce simp: and_then_eq_Ok split: if_splits)+

lemma typed_process:
  assumes "message_in_range (BlockUpdate b)" and "tables_typed s" and "process_block (sqlite_ds E) b s = (r, s')"
  shows "tables_typed s'"
proof (cases "\<exists>pc. gather_changes (utxo_updates b) \<lparr>pc_height = bu_height b, utxos_update = [], utxos_insert = []\<rparr> = Ok pc")
  case True
  then obtain pc where pc: "gather_changes (utxo_updates b)
      \<lparr>pc_height = bu_height b, utxos_update = [], utxos_insert = []\<rparr> = Ok pc" by blast
  have "\<forall>u \<in> set (utxos_update pc @ utxos_insert pc). utxo_in_range u"
    using gather_changes_subset [OF pc] assms(1) by auto
  then show ?thesis
    using assms(2,3) pc
    by (auto simp: process_block_def sqlite_process_block_utxos_def bulk_upsert_utxos_impl_def settle_cases and_then_eq_Ok
        tables_typed_def dest: typed_bulk split: if_splits)
next
  case False
  then show ?thesis using assms(2,3) by (auto simp: process_block_def split: if_splits outcome.splits)
qed

lemma typed_upsert_block:
  assumes "upsert_block E h x ts bs = Ok bs'" and "in_i32 h" and "\<forall>b \<in> set bs. in_i32 (sb_height b)"
  shows "\<forall>b \<in> set bs'. in_i32 (sb_height b)"
proof (cases "h \<in> sb_height ` set bs")
  case True
  then have "bs' = map (\<lambda>b. if sb_height b = h
      then b\<lparr>sb_hash := x, sb_timestamp := ts, is_main_chain := True\<rparr> else b) bs"
    using assms(1) by (simp add: upsert_block_def split: if_split_asm)
  then show ?thesis using assms(2,3) by auto
next
  case False
  then show ?thesis using assms by (auto simp: upsert_block_def split: if_split_asm)
qed

lemma typed_store:
  assumes "message_in_range (BlockUpdate b)" and "tables_typed s"
    and "db_store_block (sqlite_ds E) (bu_height b) (bu_hash b) (bu_timestamp b) s = (r, s')"
  shows "tables_typed s'"
proof -
  consider "s' = s" | bs x ts where "upsert_block E (bu_height b) x ts (sq_blocks s) = Ok bs" "s' = s\<lparr>sq_blocks := bs\<rparr>"
    using assms(3) by (auto simp: db_store_block_def sqlite_store_block_def settle_cases and_then_eq_Ok)
  then show ?thesis
    using assms(1,2) by cases (auto simp: tables_typed_def dest: typed_upsert_block)
qed

interpretation typed_calls: call_invariant "sqlite_ds E" tables_typed message_in_range for E
proof (unfold_locales, erule (2) typed_store, erule (2) typed_process)
  fix s h r s'
  assume t: "tables_typed s"
  show "update_finality_status (sqlite_ds E) h s = (r, s') \<Longrightarrow> tables_typed s'"
    using t by (auto simp: update_finality_status_def sqlite_mark_blocks_as_final_def settle_cases tables_typed_def split: if_splits)
  show "ds_mark_blocks_after_height_not_main_chain (sqlite_ds E) h s = (r, s') \<Longrightarrow> tables_typed s'"
    using t by (auto simp: sqlite_mark_blocks_after_height_not_main_chain_def settle_cases tables_typed_def)
  show "ds_revert_utxos_after_height (sqlite_ds E) h s = (r, s') \<Longrightarrow> tables_typed s'"
    using t by (auto simp: sqlite_revert_utxos_after_height_def settle_cases and_then_eq_Ok tables_typed_def)
qed

lemma sqlite_server_typed: "sqlite_server typed_codec (ts, s) \<Longrightarrow> tables_typed s"
  using sqlite_server_keeps [of typed_codec "(ts, s)" tables_typed] typed_calls.keeps_connection
  by (auto simp: typed_codec_def tables_typed_def sqlite_empty_def)

lemma decode_row_typed: "decode_row E r = Ok u \<Longrightarrow> utxo_in_range r \<Longrightarrow> utxo_in_range u"
proof (cases "spent_at r")
  case (Some t)
  then show "decode_row E r = Ok u \<Longrightarrow> utxo_in_range r \<Longrightarrow> utxo_in_range u"
    by (cases "parse_from_rfc3339 E t") (auto simp: decode_row_def and_then_eq_Ok)
qed (auto simp: decode_row_def and_then_eq_Ok)

lemma collect_rows_typed:
  "collect_rows E n rs = Ok us \<Longrightarrow> \<forall>r \<in> set rs. utxo_in_range r \<Longrightarrow> \<forall>u \<in> set us. utxo_in_range u"
  by (induction rs arbitrary: n us) (auto simp: and_then_eq_Ok dest: decode_row_typed)

text \<open>
  C16. What the service serves, the indexer can read.  When the messages decoded from the
  socket are of their types, then in every state any interleaving can reach, whatever a query
  selects has all its integers within the ranges of their types, its JSON is read back by the
  indexer as the very same outputs, and the latest height is an \<^verbatim>\<open>i32\<close>.
\<close>

theorem served_outputs_typed:
  assumes "sqlite_server typed_codec (ts, s)" and "query_map E P s = Ok us" and "time_ok T"
  shows "(\<forall>u \<in> set us. utxo_in_range u) \<and> utxos_of_json T (JArr (map (json_of_utxo T) us)) = Some us
     \<and> (\<forall>l. sqlite_get_latest_block E s = Ok l \<longrightarrow> in_i32 l)"
proof -
  have t: "tables_typed s" using sqlite_server_typed [OF assms(1)] .
  then have "\<forall>r \<in> set (select_rows E P s). utxo_in_range r" by (auto simp: tables_typed_def select_rows_def)
  moreover obtain n where "collect_rows E n (select_rows E P s) = Ok us"
    using assms(2) by (auto simp: query_map_def and_then_eq_Ok)
  ultimately have u: "\<forall>u \<in> set us. utxo_in_range u" using collect_rows_typed by blast
  have "in_i32 l" if l: "sqlite_get_latest_block E s = Ok l" for l
  proof (cases "filter is_main_chain (sq_blocks s)")
    case Nil
    then show ?thesis using l by (auto simp: sqlite_get_latest_block_def and_then_eq_Ok in_i32_def)
  next
    case (Cons b bs)
    then have "l = Max (set (map sb_height (b # bs)))"
      using l by (auto simp: sqlite_get_latest_block_def and_then_eq_Ok Max.set_eq_fold [symmetric] simp del: Max_insert)
    then have "l \<in> set (map sb_height (b # bs))" by (metis List.finite_set Max_in list.discI list.map_disc_iff set_empty)
    then have "\<exists>b \<in> set (sq_blocks s). sb_height b = l" using Cons by (metis filter_is_subset imageE list.set_map subsetD)
    then show ?thesis using t by (auto simp: tables_typed_def)
  qed
  then show ?thesis using u utxos_of_json_of [OF assms(3) u] by blast
qed

definition after_block1 :: "(sqlite_db, (string, string) outcome) task list \<times> sqlite_db" where
  "after_block1 = run_schedule [0, 0]
     ([connection_task small_codec small_conn (sqlite_ds plain_env) (frame ''A'')], sqlite_empty)"

theorem served_outputs_typed_witness:
  "query_map plain_env (\<lambda>_. True) (snd after_block1) = Ok [output_rec ''t1'' ''alice'' 50 1]
     \<and> utxos_of_json plain_time (JArr (map (json_of_utxo plain_time) [output_rec ''t1'' ''alice'' 50 1]))
       = Some [output_rec ''t1'' ''alice'' 50 1]"
proof -
  have C: "typed_codec small_codec"
    by (auto simp: typed_codec_def small_codec_def block1_def utxo_in_range_def output_rec_def in_i32_def in_i64_def split: if_splits list.splits)
  have "sqlite_server typed_codec ([connection_task small_codec small_conn (sqlite_ds plain_env) (frame ''A'')], sqlite_empty)"
    using sqlite_server.accept [OF sqlite_server.start, of typed_codec] C by simp
  then have a: "sqlite_server typed_codec (fst after_block1, snd after_block1)"
    unfolding after_block1_def prod.collapse by (rule sqlite_server_schedule)
  have q: "query_map plain_env (\<lambda>_. True) (snd after_block1) = Ok [output_rec ''t1'' ''alice'' 50 1]"
    by code_simp
  have "time_ok plain_time" by simp
  from served_outputs_typed [OF a q this] q show ?thesis by blast
qed

section \<open>Interleavings that matter\<close>

context datasource_contract
begin

text \<open>A block update after its first call: the block is known, its outputs are not.\<close>

lemma torn_update:
  assumes H: "healthy" and I: "inv s" and F: "hash_fresh (bu_height b) (bu_hash b) s" and h: "0 < bu_height b"
  shows "\<exists>t s1. step_task 0 ([message_task D (BlockUpdate b)], s) = ([t], s1) \<and> inv s1
     \<and> view s1 = view s \<and> chain s1 = (chain s)(bu_height b \<mapsto> bu_hash b)
     \<and> db_get_block_hash D (bu_height b) s1 = Ok (bu_hash b)"
proof -
  obtain s1 where s1: "ds_store_block D (bu_height b) (bu_hash b) (bu_timestamp b) s = (Ok (), s1)" "inv s1"
    "view s1 = view s" "chain s1 = (chain s)(bu_height b \<mapsto> bu_hash b)"
    using store_block_refines [OF H I F] by blast
  have "db_get_block_hash D (bu_height b) s1 = Ok (bu_hash b)"
    using hash_refines [OF H s1(2) h] s1(4) by (simp add: db_get_block_hash_def)
  then show ?thesis using s1 by (simp add: after_call_def call_def db_store_block_def)
qed

text \<open>A revert whose last call comes after a whole block update, and one that does not.\<close>

lemma late_revert:
  assumes H: "healthy" and I: "inv s" and L: "ds_get_latest_block D s = Ok l" "l \<noteq> 0" "safe_revert_height l h = h"
    and b: "bu_height b = h + 1" "hash_fresh (bu_height b) (bu_hash b) s" "wf_block (view s) (changes_of b)"
  shows "\<exists>s'. run_schedule [0, 0, 1, 1, 0] ([message_task D (ReorgEvent h), message_task D (BlockUpdate b)], s)
       = ([Finished (Ok None), Finished (Ok (Some (BlockProcessedAck (h + 1))))], s')
     \<and> view s' = ledger_revert h (view s) \<and> chain s' (h + 1) = Some (bu_hash b)"
proof -
  obtain s1 where s1: "ds_mark_blocks_after_height_not_main_chain D h s = (Ok (), s1)" "inv s1" "view s1 = view s"
    using off_main_refines [OF H I] by blast
  have "hash_fresh (bu_height b) (bu_hash b) s1" using hash_fresh_off_main b(2) s1(1) .
  then obtain s2 where s2: "ds_store_block D (bu_height b) (bu_hash b) (bu_timestamp b) s1 = (Ok (), s2)" "inv s2"
    "view s2 = view s1" "chain s2 = (chain s1)(bu_height b \<mapsto> bu_hash b)"
    using store_block_refines [OF H s1(2)] by blast
  have wf: "wf_changes (view s2) (changes_of b)" using b(3) s1(3) s2(3) by (simp add: wf_block_def)
  obtain s3 where s3: "process_block D b s2 = (Ok (), s3)" "inv s3" "view s3 = ledger_apply (changes_of b) (view s2)"
    "chain s3 = chain s2"
    using process_block_refines [OF H s2(2) wf] by blast
  obtain s4 where s4: "ds_revert_utxos_after_height D h s3 = (Ok (), s4)" "inv s4" "view s4 = ledger_revert h (view s3)"
    "chain s4 = chain s3"
    using revert_refines [OF H s3(2)] by blast
  have "h < pc_height (changes_of b)" using b(1) by (simp add: changes_of_def)
  then have "view s4 = ledger_revert h (view s)" using ledger_revert_apply [OF b(3)] s1(3) s2(3) s3(3) s4(3) by simp
  moreover have "chain s4 (h + 1) = Some (bu_hash b)" using s2(4) s3(4) s4(4) b(1) by simp
  ultimately show ?thesis
    using L s1(1) s2(1) s3(1) s4(1) b(1)
    by (simp add: run_schedule_def after_call_def call_def revert_task_def Let_def db_store_block_def db_get_latest_block_def)
qed

end

text \<open>
  C29. A reorganisation may erase a block of the new chain.  \<^verbatim>\<open>ReorgEvent\<close> is not acknowledged, so
  the indexer may send the first block of the new chain while the revert is still at work.
  When the whole update falls between its last two calls, the update is acknowledged and its
  hash stands in the main chain, so that no later check finds a difference, but its outputs
  are deleted with those of the orphaned blocks and its spends undone: the ledger is the one
  before the block.
\<close>

theorem late_revert_erases_block:
  assumes "sqlite_healthy E" and "sqlite_inv E s"
    and "sqlite_get_latest_block E s = Ok l" and "l \<noteq> 0" and "safe_revert_height l h = h"
    and "bu_height b = h + 1" and "sqlite_hash_fresh (bu_height b) (bu_hash b) s"
    and "wf_block (sqlite_view E s) (changes_of b)"
  shows "\<exists>s'. run_schedule [0, 0, 1, 1, 0]
         ([message_task (sqlite_ds E) (ReorgEvent h), message_task (sqlite_ds E) (BlockUpdate b)], s)
       = ([Finished (Ok None), Finished (Ok (Some (BlockProcessedAck (h + 1))))], s')
     \<and> sqlite_chain s' (h + 1) = Some (bu_hash b) \<and> sqlite_view E s' = ledger_revert h (sqlite_view E s)
     \<and> (\<forall>u \<in> set (utxo_updates b). spent_txid u = None \<longrightarrow> sqlite_view E s' (utxo_id u) = None)"
proof -
  obtain s' where s': "run_schedule [0, 0, 1, 1, 0]
         ([message_task (sqlite_ds E) (ReorgEvent h), message_task (sqlite_ds E) (BlockUpdate b)], s)
       = ([Finished (Ok None), Finished (Ok (Some (BlockProcessedAck (h + 1))))], s')"
    "sqlite_view E s' = ledger_revert h (sqlite_view E s)" "sqlite_chain s' (h + 1) = Some (bu_hash b)"
    using sq.late_revert [OF assms(1,2) _ assms(4-8)] assms(3) by auto
  have "sqlite_view E s (utxo_id u) = None" if "u \<in> set (utxo_updates b)" "spent_txid u = None" for u
    using that assms(8) by (auto simp: wf_block_def wf_changes_def changes_of_def)
  then show ?thesis using s' by (auto simp: ledger_revert_def)
qed

definition reblock1 :: block_update where
  "reblock1 = \<lparr>bu_height = 1, bu_hash = ''h1b'', bu_timestamp = 1, utxo_updates = [output_rec ''t9'' ''alice'' 70 1]\<rparr>"

definition one_block :: sqlite_db where
  "one_block = deliver_blocks (sqlite_ds plain_env) [block1] sqlite_empty"

lemma one_block_facts:
  "sqlite_inv plain_env one_block" "sqlite_get_latest_block plain_env one_block = Ok 1"
  "sqlite_view plain_env one_block = [outpoint_key ''t1'' 0 \<mapsto> output_rec ''t1'' ''alice'' 50 1]"
  "sqlite_hash_fresh 1 ''h1b'' one_block" "sqlite_hash_fresh 2 ''h2'' one_block" "dom (sqlite_chain one_block) = {1}"
proof -
  show "sqlite_inv plain_env one_block" "sqlite_get_latest_block plain_env one_block = Ok 1"
    unfolding one_block_def by (rule delivered_block1)+
  show "sqlite_view plain_env one_block = [outpoint_key ''t1'' 0 \<mapsto> output_rec ''t1'' ''alice'' 50 1]"
    using sq.deliver_blocks_refines [of plain_env sqlite_empty "[block1]" 0] small_chain_wf
    by (simp add: one_block_def ledger_run_def changes_of_blocks ledger_apply_def ledger_create_def ledger_spend_def
        table_of_def fun_eq_iff)
  show "sqlite_hash_fresh 1 ''h1b'' one_block" "sqlite_hash_fresh 2 ''h2'' one_block" by code_simp+
  have "map sb_height (filter is_main_chain (sq_blocks one_block)) = [1]" by code_simp
  then show "dom (sqlite_chain one_block) = {1}" unfolding sqlite_chain_dom by (metis list.set_map list.simps(15) set_empty2)
qed

theorem late_revert_erases_block_witness:
  "\<exists>s'. run_schedule [0, 0, 1, 1, 0]
         ([message_task (sqlite_ds plain_env) (ReorgEvent 0), message_task (sqlite_ds plain_env) (BlockUpdate reblock1)], one_block)
       = ([Finished (Ok None), Finished (Ok (Some (BlockProcessedAck 1)))], s')
     \<and> sqlite_chain s' 1 = Some ''h1b'' \<and> sqlite_view plain_env s' (outpoint_key ''t9'' 0) = None"
proof -
  have b: "bu_height reblock1 = 0 + 1" "bu_hash reblock1 = ''h1b''"
    "utxo_updates reblock1 = [output_rec ''t9'' ''alice'' 70 1]" by (simp_all add: reblock1_def)
  have "safe_revert_height 1 0 = 0"
    by (simp add: safe_revert_height_def finality_threshold_def FINALITY_CONFIRMATIONS_def wrap_i32_def)
  moreover have "wf_block (sqlite_view plain_env one_block) (changes_of reblock1)"
    by (simp add: one_block_facts reblock1_def changes_of_def wf_block_def wf_changes_def outpoint_key_inj)
  ultimately show ?thesis
    using late_revert_erases_block [OF plain_env_healthy one_block_facts(1,2) _ _ b(1)] one_block_facts(4) b
    by fastforce
qed

text \<open>
  C30. A block is visible before its outputs.  After the first call of an update's task the new
  height is the latest and its hash is served, while a query for the outputs spendable at that
  height is answered from the ledger before the block: without its outputs, and with those
  it spends.
\<close>

theorem torn_update_served:
  assumes "sqlite_healthy E" and "sqlite_inv E s" and "wf_block (sqlite_view E s) (changes_of b)"
    and "0 < bu_height b" and "sqlite_hash_fresh (bu_height b) (bu_hash b) s"
    and "dom (sqlite_chain s) \<subseteq> {..bu_height b}" and "ledger_upto (bu_height b) (sqlite_view E s)" and "a \<noteq> []"
  shows "\<exists>t s1. step_task 0 ([message_task (sqlite_ds E) (BlockUpdate b)], s) = ([t], s1)
     \<and> sqlite_get_latest_block E s1 = Ok (bu_height b) \<and> db_get_block_hash (sqlite_ds E) (bu_height b) s1 = Ok (bu_hash b)
     \<and> (\<exists>us. db_get_spendable_utxos_at_height (sqlite_ds E) (bu_height b) a s1 = Ok us
        \<and> set us = spendable_set (sqlite_view E s) (bu_height b) a
        \<and> (\<forall>x \<in> set (utxo_updates b). spent_txid x \<noteq> None \<and> address x = a \<longrightarrow> (\<exists>u \<in> set us. utxo_id u = utxo_id x)))"
proof -
  let ?h = "bu_height b" and ?V = "sqlite_view E s"
  obtain t s1 where s1: "step_task 0 ([message_task (sqlite_ds E) (BlockUpdate b)], s) = ([t], s1)" "sqlite_inv E s1"
    "sqlite_view E s1 = ?V" "sqlite_chain s1 = (sqlite_chain s)(?h \<mapsto> bu_hash b)"
    "db_get_block_hash (sqlite_ds E) ?h s1 = Ok (bu_hash b)"
    using sq.torn_update [OF assms(1,2,5,4)] by blast
  have latest: "sqlite_get_latest_block E s1 = Ok ?h"
    using assms(6) by (intro sqlite_latest_block [OF assms(1)]) (auto simp: s1(4))
  obtain us where us: "db_get_spendable_utxos_at_height (sqlite_ds E) ?h a s1 = Ok us" "set us = spendable_set ?V ?h a"
    using sq.db_spendable_refines [OF assms(1) s1(2) _ assms(8), of ?h] assms(4) s1(3) by auto
  have "\<exists>u \<in> set us. utxo_id u = utxo_id x"
    if x: "x \<in> set (utxo_updates b)" "spent_txid x \<noteq> None" "address x = a" for x
  proof -
    have "x \<in> set (utxos_update (changes_of b))" using x by (simp add: changes_of_def)
    then obtain u where u: "?V (utxo_id x) = Some u" "address u = address x" "u = unspend u"
      using assms(3) unfolding wf_block_def wf_changes_def by metis
    moreover have "block_height u \<le> ?h" using assms(7) u(1) by (auto simp: ledger_upto_def)
    moreover have "spent_block u = None" using u(3) by (metis unspend_sel(8))
    moreover have "utxo_id u = utxo_id x" using sqlite_view_valid [OF assms(1,2) u(1)] by simp
    ultimately show ?thesis using x(3) unfolding us(2) by (auto simp: spendable_set_def unspent_at_def)
  qed
  then show ?thesis using s1(1,5) latest us by blast
qed

theorem torn_update_served_witness:
  "\<exists>t s1 us. step_task 0 ([message_task (sqlite_ds plain_env) (BlockUpdate block2)], one_block) = ([t], s1)
     \<and> sqlite_get_latest_block plain_env s1 = Ok 2
     \<and> db_get_spendable_utxos_at_height (sqlite_ds plain_env) 2 ''alice'' s1 = Ok us \<and> set us = {output_rec ''t1'' ''alice'' 50 1}"
proof -
  have b: "bu_height block2 = 2" "bu_hash block2 = ''h2''" by (simp_all add: block2_def)
  have wf: "wf_block (sqlite_view plain_env one_block) (changes_of block2)"
    by (simp add: one_block_facts changes_of_blocks wf_block_def wf_changes_def outpoint_key_inj)
  have up: "ledger_upto 2 (sqlite_view plain_env one_block)"
    by (simp add: one_block_facts ledger_upto_def output_rec_def)
  have S: "spendable_set (sqlite_view plain_env one_block) 2 ''alice'' = {output_rec ''t1'' ''alice'' 50 1}"
    by (auto simp: one_block_facts spendable_set_def unspent_at_def output_rec_def split: if_splits)
  from torn_update_served [OF plain_env_healthy one_block_facts(1) wf, of "''alice''"] show ?thesis
    using up by (simp add: b one_block_facts(5,6) S) blast
qed

end
