(* ===== verification/Storage_Compare.thy ===== *)
theory Storage_Compare
  imports Storage_Service
begin

text \<open>
  The two data sources after the same blocks: what they answer alike, and what they do not.
  The CSV data source keeps a copy of every output in the list of its block, which no later
  spend reaches; the rows of SQLite carry their spends.
\<close>

section \<open>The outputs of a height\<close>

definition created_at :: "i32 \<Rightarrow> ledger \<Rightarrow> utxo set" where
  "created_at h L = {unspend u | u. \<exists>k. L k = Some u \<and> block_height u = h}"

lemma unspend_mark [simp]: "unspend (mark_spent s u) = unspend u"
  by (simp add: unspend_def mark_spent_def)

lemma created_unspent: "wf_block L pc \<Longrightarrow> u \<in> set (utxos_insert pc) \<Longrightarrow> unspend u = u \<and> block_height u = pc_height pc"
  by (simp add: wf_block_def unspend_def)

lemma ledger_apply_Some:
  "ledger_apply pc L k = Some u \<longleftrightarrow>
     (\<exists>v. ledger_create (utxos_insert pc) L k = Some v
        \<and> u = (case table_of utxo_id (utxos_update pc) k of None \<Rightarrow> v | Some s \<Rightarrow> mark_spent s v))"
  by (auto simp: ledger_apply_def ledger_spend_def split: option.splits)

lemma ledger_create_Some:
  assumes "wf_block L pc"
  shows "(\<exists>k. ledger_create (utxos_insert pc) L k = Some v) \<longleftrightarrow> (\<exists>k. L k = Some v) \<or> v \<in> set (utxos_insert pc)"
proof -
  have fresh: "L (utxo_id u) = None" if "u \<in> set (utxos_insert pc)" for u
    using that assms by (simp add: wf_block_def wf_changes_def)
  have d: "distinct (map utxo_id (utxos_insert pc))" using assms by (simp add: wf_block_def wf_changes_def)
  have "ledger_create (utxos_insert pc) L k = Some v" if "L k = Some v" for k
    using that fresh by (auto simp: ledger_create_def map_add_Some_iff table_of_None)
  then show ?thesis
    using d by (auto simp: ledger_create_def map_add_Some_iff table_of_Some)
qed

lemma created_at_apply:
  assumes "wf_block L pc"
  shows "created_at h (ledger_apply pc L) = created_at h L \<union> {u \<in> set (utxos_insert pc). pc_height pc = h}"
proof -
  let ?C = "ledger_create (utxos_insert pc) L"
  let ?spent = "\<lambda>k v. case table_of utxo_id (utxos_update pc) k of None \<Rightarrow> v | Some s \<Rightarrow> mark_spent s v"
  have same: "unspend (?spent k v) = unspend v" "block_height (?spent k v) = block_height v" for k v
    by (simp_all split: option.split)
  have "created_at h (ledger_apply pc L) = {unspend v | v. (\<exists>k. ?C k = Some v) \<and> block_height v = h}"
  proof (intro subset_antisym subsetI)
    fix x assume "x \<in> created_at h (ledger_apply pc L)"
    then obtain k v where "?C k = Some v" "x = unspend (?spent k v)" "block_height (?spent k v) = h"
      unfolding created_at_def ledger_apply_Some by blast
    then show "x \<in> {unspend v | v. (\<exists>k. ?C k = Some v) \<and> block_height v = h}" unfolding same by blast
  next
    fix x assume "x \<in> {unspend v | v. (\<exists>k. ?C k = Some v) \<and> block_height v = h}"
    then obtain k v where "?C k = Some v" "x = unspend (?spent k v)" "block_height (?spent k v) = h"
      unfolding same by blast
    then show "x \<in> created_at h (ledger_apply pc L)" unfolding created_at_def ledger_apply_Some by blast
  qed
  also have "\<dots> = {unspend v | v. ((\<exists>k. L k = Some v) \<or> v \<in> set (utxos_insert pc)) \<and> block_height v = h}"
    by (simp only: ledger_create_Some [OF assms])
  also have "\<dots> = {unspend v | v. (\<exists>k. L k = Some v) \<and> block_height v = h}
      \<union> {unspend v | v. v \<in> set (utxos_insert pc) \<and> block_height v = h}" by blast
  also have "{unspend v | v. v \<in> set (utxos_insert pc) \<and> block_height v = h} = {u \<in> set (utxos_insert pc). pc_height pc = h}"
    using created_unspent [OF assms] by (intro set_eqI) (simp, metis)
  also have "{unspend v | v. (\<exists>k. L k = Some v) \<and> block_height v = h} = created_at h L"
    unfolding created_at_def by blast
  finally show ?thesis .
qed

lemma created_at_run:
  "wf_chain L pcs \<Longrightarrow>
   created_at h (ledger_run pcs L) = created_at h L \<union> (\<Union>pc \<in> {pc \<in> set pcs. pc_height pc = h}. set (utxos_insert pc))"
proof (induction pcs arbitrary: L)
  case (Cons pc pcs)
  from Cons.IH [of "ledger_apply pc L"] Cons.prems show ?case
    by (auto simp: ledger_run_def created_at_apply)
qed (simp add: ledger_run_def)

section \<open>The list of a block\<close>

lemma sqlite_listing:
  assumes H: "sqlite_healthy E" and I: "sqlite_inv E s" and "0 \<le> h" and "a \<noteq> []"
  shows "\<exists>us. db_get_utxos_for_block_and_address (sqlite_ds E) h a s = Ok us \<and> distinct us
     \<and> set us = {u. \<exists>k. sqlite_view E s k = Some u \<and> block_height u = h \<and> address u = a}"
proof -
  obtain us where us: "sq_utxo s = map (encode_row E) us" "distinct (map utxo_id us)"
    using I by (rule sqlite_inv_records)
  then show ?thesis
    using assms(3,4) sqlite_view_records [OF H us(1)] H
    by (auto simp: db_get_utxos_for_block_and_address_def sqlite_get_utxos_for_block_and_address_def query_map_records
        table_of_Some distinct_map)
qed

lemma bucket_push2: "bucket (push2 a u m) a' = (if a' = a then bucket m a @ [u] else bucket m a')"
  by (simp add: push2_def)

lemma csv_insert_loop_bucket:
  "csv_insert_loop us m b = (Ok (), m', b') \<Longrightarrow> bucket b' a = bucket b a @ filter (\<lambda>u. address u = a) us"
  by (induction us arbitrary: m b) (auto simp: bucket_push2 split: outcome.splits)

lemma csv_process_listing:
  assumes "csv_process_block_utxos pc s = (Ok (), s')"
  shows "bucket (bucket (cs_blocks s') h) a
     = (if h = pc_height pc then filter (\<lambda>u. address u = a) (utxos_insert pc) else bucket (bucket (cs_blocks s) h) a)"
  using assms csv_insert_loop_bucket [of "utxos_insert pc" "cs_utxos s" "[]"]
  by (auto simp: csv_process_block_utxos_def Let_def bucket_def map_of_update
      split: if_splits outcome.splits prod.splits)

lemma csv_listing:
  assumes "wf_chain Map.empty (map changes_of bs)" and "distinct (map bu_hash bs)" and "consecutive h' bs"
  shows "bucket (bucket (cs_blocks (deliver_blocks (csv_ds F) bs csv_empty)) h) a
     = concat (map (\<lambda>b. if bu_height b = h then filter (\<lambda>u. address u = a) (utxos_insert (changes_of b)) else []) bs)"
  using assms
proof (induction bs rule: rev_induct)
  case Nil
  then show ?case by (simp add: deliver_blocks_def csv_empty_def bucket_def)
next
  case (snoc b bs)
  let ?c = "deliver_blocks (csv_ds F) bs csv_empty"
  obtain s1 where s1: "ds_store_block (csv_ds F) (bu_height b) (bu_hash b) (bu_timestamp b) ?c = (Ok (), s1)"
    "ds_process_block_utxos (csv_ds F) (changes_of b) s1 = (Ok (), deliver_blocks (csv_ds F) (bs @ [b]) csv_empty)"
    using cv.deliver_last [OF TrueI csv_empty_inv, of bs b h' F] snoc.prems by auto
  have "cs_blocks s1 = cs_blocks ?c" using s1(1) by (auto simp: csv_ds_def csv_store_block_def)
  moreover have "concat (map (\<lambda>b'. if bu_height b' = bu_height b then filter (\<lambda>u. address u = a) (utxos_insert (changes_of b')) else []) bs) = []"
  proof -
    have "bu_height b' < bu_height b" if "b' \<in> set bs" for b'
      using that snoc.prems(3) consecutive_heights [of h' bs b'] by (simp add: consecutive_append)
    then show ?thesis by fastforce
  qed
  ultimately show ?case
    using csv_process_listing [of "changes_of b" s1 _ h a] s1(2) snoc
    by (auto simp: csv_ds_def changes_of_def wf_chain_append consecutive_append)
qed

section \<open>The comparison\<close>

lemma listings_compare:
  assumes "sqlite_healthy E" and "wf_chain Map.empty (map changes_of bs)"
    and "distinct (map bu_hash bs)" and "consecutive h' bs" and "0 \<le> h" and "a \<noteq> []"
  shows "\<exists>us us'. db_get_utxos_for_block_and_address (sqlite_ds E) h a (deliver_blocks (sqlite_ds E) bs sqlite_empty) = Ok us
     \<and> db_get_utxos_for_block_and_address (csv_ds F) h a (deliver_blocks (csv_ds F) bs csv_empty) = Ok us'
     \<and> set us = {u. \<exists>k. ledger_run (map changes_of bs) Map.empty k = Some u \<and> block_height u = h \<and> address u = a}
     \<and> set us' = unspend ` set us"
proof -
  let ?s = "deliver_blocks (sqlite_ds E) bs sqlite_empty" and ?c = "deliver_blocks (csv_ds F) bs csv_empty"
  let ?F = "ledger_run (map changes_of bs) Map.empty"
  have s: "sqlite_inv E ?s" "sqlite_view E ?s = ?F"
    using sq.deliver_blocks_refines [OF assms(1) sqlite_empty_inv _ assms(3) _ assms(4)] assms(2) by auto
  obtain us where us: "db_get_utxos_for_block_and_address (sqlite_ds E) h a ?s = Ok us"
    "set us = {u. \<exists>k. ?F k = Some u \<and> block_height u = h \<and> address u = a}"
    using sqlite_listing [OF assms(1) s(1) assms(5,6)] s(2) by auto
  let ?us' = "bucket (bucket (cs_blocks ?c) h) a"
  have "db_get_utxos_for_block_and_address (csv_ds F) h a ?c = Ok ?us'"
    using assms(5,6) by (simp add: db_get_utxos_for_block_and_address_def csv_ds_def csv_get_utxos_for_block_and_address_def)
  moreover have "set ?us' = {u \<in> created_at h ?F. address u = a}"
    unfolding csv_listing [OF assms(2-4)] created_at_run [OF assms(2)]
    by (auto simp: created_at_def changes_of_def)
  moreover have "{u \<in> created_at h ?F. address u = a} = unspend ` set us"
    unfolding us(2) created_at_def by auto
  ultimately show ?thesis using us by blast
qed

lemma delivered_latest_agree:
  assumes "sqlite_healthy E" and "wf_chain Map.empty (map changes_of bs)"
    and "distinct (map bu_hash bs)" and "consecutive h' bs"
  shows "db_get_latest_block (sqlite_ds E) (deliver_blocks (sqlite_ds E) bs sqlite_empty)
     = db_get_latest_block (csv_ds F) (deliver_blocks (csv_ds F) bs csv_empty)"
proof (cases "bs = []")
  case True
  have "sqlite_get_latest_block E sqlite_empty = Ok 0"
    using assms(1) by (simp add: sqlite_get_latest_block_def sqlite_empty_def)
  then show ?thesis
    using True by (simp add: deliver_blocks_def db_get_latest_block_def csv_ds_def csv_get_latest_block_def csv_empty_def)
next
  case False
  then show ?thesis
    using sqlite_delivered_latest [OF assms(1) sqlite_empty_inv _ assms(3) _ assms(4)]
      csv_delivered_latest [OF csv_empty_inv _ assms(3,4), of F] assms(2)
    by (simp add: db_get_latest_block_def csv_ds_def)
qed

lemma queries_agree:
  assumes "sqlite_healthy E" and "wf_chain Map.empty (map changes_of bs)"
    and "distinct (map bu_hash bs)" and "consecutive h' bs"
  shows "let s = deliver_blocks (sqlite_ds E) bs sqlite_empty; c = deliver_blocks (csv_ds F) bs csv_empty
     in (\<forall>h a. 0 \<le> h \<longrightarrow> a \<noteq> [] \<longrightarrow>
           (\<exists>us us'. db_get_spendable_utxos_at_height (sqlite_ds E) h a s = Ok us
              \<and> db_get_spendable_utxos_at_height (csv_ds F) h a c = Ok us' \<and> set us = set us'))
      \<and> (\<forall>t v. t \<noteq> [] \<longrightarrow> 0 \<le> v \<longrightarrow>
           db_get_utxo_by_outpoint (sqlite_ds E) t v s = db_get_utxo_by_outpoint (csv_ds F) t v c)
      \<and> (\<forall>h. 0 < h \<longrightarrow> db_get_block_hash (sqlite_ds E) h s = db_get_block_hash (csv_ds F) h c)"
proof -
  let ?s = "deliver_blocks (sqlite_ds E) bs sqlite_empty" and ?c = "deliver_blocks (csv_ds F) bs csv_empty"
  have s: "sqlite_inv E ?s" "sqlite_view E ?s = ledger_run (map changes_of bs) Map.empty"
    "sqlite_chain ?s = hashes_of bs"
    using sq.deliver_blocks_refines [OF assms(1) sqlite_empty_inv _ assms(3) _ assms(4)] assms(2) by auto
  have c: "csv_inv ?c" "csv_view ?c = ledger_run (map changes_of bs) Map.empty"
    "csv_chain ?c = hashes_of bs"
    using cv.deliver_blocks_refines [OF TrueI csv_empty_inv _ assms(3) _ assms(4), of F] assms(2) by auto
  show ?thesis
    using sq.db_spendable_refines [OF assms(1) s(1)] cv.db_spendable_refines [OF TrueI c(1), of _ _ F]
      sq.db_get_utxo_by_outpoint_refines [OF assms(1) s(1)] cv.db_get_utxo_by_outpoint_refines [OF TrueI c(1)]
      sq.db_get_block_hash_refines [OF assms(1) s(1)] cv.db_get_block_hash_refines [OF TrueI c(1)]
    by (auto simp: Let_def s c) metis
qed

text \<open>
  C20. Where the two data sources agree, and where they do not.  After the same well-formed
  blocks, from empty stores, they answer the latest block alike, every spendable query with the
  same set of records, every outpoint query with the same record, and every query for the
  hash of a height above 0 alike.  But the list of a block for an address has the outputs with
  their present spends over SQLite, and as they were created, unspent, over the CSV data source.
\<close>

theorem datasources_agree:
  assumes "sqlite_healthy E" and "wf_chain Map.empty (map changes_of bs)"
    and "distinct (map bu_hash bs)" and "consecutive h' bs"
  shows "let s = deliver_blocks (sqlite_ds E) bs sqlite_empty; c = deliver_blocks (csv_ds F) bs csv_empty
     in db_get_latest_block (sqlite_ds E) s = db_get_latest_block (csv_ds F) c
      \<and> (\<forall>h a. 0 \<le> h \<longrightarrow> a \<noteq> [] \<longrightarrow>
           (\<exists>us us'. db_get_spendable_utxos_at_height (sqlite_ds E) h a s = Ok us
              \<and> db_get_spendable_utxos_at_height (csv_ds F) h a c = Ok us' \<and> set us = set us'))
      \<and> (\<forall>t v. t \<noteq> [] \<longrightarrow> 0 \<le> v \<longrightarrow>
           db_get_utxo_by_outpoint (sqlite_ds E) t v s = db_get_utxo_by_outpoint (csv_ds F) t v c)
      \<and> (\<forall>h. 0 < h \<longrightarrow> db_get_block_hash (sqlite_ds E) h s = db_get_block_hash (csv_ds F) h c)
      \<and> (\<forall>h a. 0 \<le> h \<longrightarrow> a \<noteq> [] \<longrightarrow>
           (\<exists>us us'. db_get_utxos_for_block_and_address (sqlite_ds E) h a s = Ok us
              \<and> db_get_utxos_for_block_and_address (csv_ds F) h a c = Ok us'
              \<and> set us = {u. \<exists>k. ledger_run (map changes_of bs) Map.empty k = Some u \<and> block_height u = h \<and> address u = a}
              \<and> set us' = unspend ` set us))"
  using queries_agree [OF assms, of F] listings_compare [OF assms, of _ _ F] delivered_latest_agree [OF assms, of F]
  by (simp add: Let_def)

theorem datasources_agree_witness:
  "let s = deliver_blocks (sqlite_ds plain_env) [block1, block2] sqlite_empty;
       c = deliver_blocks (csv_ds plain_csv_env) [block1, block2] csv_empty
     in (\<exists>us us'. db_get_spendable_utxos_at_height (sqlite_ds plain_env) 1 ''alice'' s = Ok us
              \<and> db_get_spendable_utxos_at_height (csv_ds plain_csv_env) 1 ''alice'' c = Ok us' \<and> set us = set us')
      \<and> db_get_utxo_by_outpoint (sqlite_ds plain_env) ''t1'' 0 s = db_get_utxo_by_outpoint (csv_ds plain_csv_env) ''t1'' 0 c
      \<and> (\<exists>us us'. db_get_utxos_for_block_and_address (sqlite_ds plain_env) 1 ''alice'' s = Ok us
              \<and> db_get_utxos_for_block_and_address (csv_ds plain_csv_env) 1 ''alice'' c = Ok us'
              \<and> set us = {mark_spent (spend_rec ''t1'' ''alice'' 50 2 ''t2'') (output_rec ''t1'' ''alice'' 50 1)}
              \<and> set us' = {output_rec ''t1'' ''alice'' 50 1})"
proof -
  let ?u = "mark_spent (spend_rec ''t1'' ''alice'' 50 2 ''t2'') (output_rec ''t1'' ''alice'' 50 1)"
  have L: "ledger_run (map changes_of [block1, block2]) Map.empty
      = [outpoint_key ''t1'' 0 \<mapsto> ?u, outpoint_key ''t2'' 0 \<mapsto> output_rec ''t2'' ''alice'' 30 2]"
    by (rule ext) (simp add: changes_of_blocks ledger_run_def ledger_apply_def ledger_create_def ledger_spend_def table_of_def outpoint_key_inj)
  have S: "{u. \<exists>k. ledger_run (map changes_of [block1, block2]) Map.empty k = Some u \<and> block_height u = 1 \<and> address u = ''alice''} = {?u}"
    unfolding L by (auto simp: outpoint_key_inj)
  have "consecutive 0 [block1, block2]" "distinct (map bu_hash [block1, block2])" by simp_all
  note A = datasources_agree [OF plain_env_healthy small_chain_wf this(2,1), of plain_csv_env, unfolded Let_def]
  note spendable = A [THEN conjunct2, THEN conjunct1, rule_format, of 1 "''alice''"]
    and outpoint = A [THEN conjunct2, THEN conjunct2, THEN conjunct1, rule_format, of "''t1''" 0]
    and listing = A [THEN conjunct2, THEN conjunct2, THEN conjunct2, THEN conjunct2, rule_format, of 1 "''alice''", unfolded S]
  show ?thesis unfolding Let_def using spendable outpoint listing by auto
qed

end
