(* ===== verification/Api_Tasks.thy ===== *)
theory Api_Tasks
  imports Api_Correct Tasks
begin

text \<open>
  The requests of the indexer's HTTP interface as concurrent tasks.  Each request gets a clone
  of the interface's state, in which the set of watched addresses and the cache of prepared
  transactions are shared; a task is cut wherever the code waits: for a lock, for a service,
  for the cache file.
\<close>

section \<open>Tasks\<close>

text \<open>A call on what lies outside of the interface.\<close>

definition outside :: "('x \<Rightarrow> 'r \<times> 'x) \<Rightarrow> 'a api_state \<times> 'x \<Rightarrow> 'r \<times> 'a api_state \<times> 'x" where
  "outside f sx = (case f (snd sx) of (r, x') \<Rightarrow> (r, fst sx, x'))"

text \<open>The lock taken for reading and for writing.\<close>

definition reading :: "('a api_state \<Rightarrow> 'r) \<Rightarrow> 'a api_state \<times> 'x \<Rightarrow> 'r \<times> 'a api_state \<times> 'x" where
  "reading f sx = (f (fst sx), sx)"

definition writing :: "('a api_state \<Rightarrow> 'a api_state) \<Rightarrow> 'a api_state \<times> 'x \<Rightarrow> unit \<times> 'a api_state \<times> 'x" where
  "writing f sx = ((), f (fst sx), snd sx)"

type_synonym ('a, 'x) api_task = "('a api_state \<times> 'x, http_response) task"

definition guarded :: "'a api_state \<Rightarrow> string \<Rightarrow> ('a, 'x) api_task \<Rightarrow> ('a, 'x) api_task" where
  "guarded st key t = (if key \<noteq> st_indexer_key st then Finished (error_reply 401 ''Unauthorized'') else t)"

definition watch_task :: "('u, 'a, 'x) api_env \<Rightarrow> 'a api_state \<Rightarrow> string \<Rightarrow> ('a, 'x) api_task" where
  "watch_task E st btc_address =
     (case api_parse_address (api_lib E) (st_network st) btc_address of
        Ok a \<Rightarrow> call (writing (watch a)) (\<lambda>_. Finished (json_reply 200 [(''status'', JStr ''OK'')]))
      | Err _ \<Rightarrow> Finished (error_reply 400 ''Invalid BTC address'')
      | Panic \<Rightarrow> Finished Crashed)"

definition get_watch_task :: "('u, 'a, 'x) api_env \<Rightarrow> 'a api_state \<Rightarrow> string \<Rightarrow> ('a, 'x) api_task" where
  "get_watch_task E st btc_address =
     (case api_parse_address (api_lib E) (st_network st) btc_address of
        Ok a \<Rightarrow> call (reading (\<lambda>s. a \<in> st_watched s)) (\<lambda>w. Finished (json_reply 200 [(''watched'', JBool w)]))
      | Err _ \<Rightarrow> Finished (error_reply 400 ''Invalid BTC address'')
      | Panic \<Rightarrow> Finished Crashed)"

definition derive_task :: "('u, 'a, 'x) api_env \<Rightarrow> 'a api_state \<Rightarrow> string \<Rightarrow> ('a, 'x) api_task" where
  "derive_task E st evm_address =
     (if is_blank (st_enclave_key st) then Finished (error_reply 500 ''ENCLAVE_API_KEY missing'')
      else call (outside (api_post E (st_enclave_url st @ ''/derive_address'') (Some (st_enclave_key st))
                  (JObj [(''evm_address'', JStr (trim_0x evm_address))]))) (\<lambda>r.
        case r of
          Panic \<Rightarrow> Finished Crashed
        | Err _ \<Rightarrow> Finished (error_reply 500 ''Failed to derive'')
        | Ok r \<Rightarrow>
            if \<not> is_success (rr_status r) then Finished (error_reply 500 ''Failed to derive'')
            else case rr_json r of
                Panic \<Rightarrow> Finished Crashed
              | Err _ \<Rightarrow> Finished (error_reply 500 ''Invalid response'')
              | Ok j \<Rightarrow>
                  (case req_field as_str ''address'' j of
                     None \<Rightarrow> Finished (error_reply 500 ''Invalid response'')
                   | Some addr \<Rightarrow>
                      (case api_parse_address (api_lib E) (st_network st) addr of
                         Panic \<Rightarrow> Finished Crashed
                       | Ok a \<Rightarrow> call (writing (watch a)) (\<lambda>_. Finished (json_reply 200 [(''btc_address'', JStr addr)]))
                       | Err _ \<Rightarrow> Finished (json_reply 200 [(''btc_address'', JStr addr)])))))"

text \<open>The loops over the addresses make one call per address; \<open>k\<close> is what follows them.\<close>

fun gather_task :: "('u, 'a, 'x) api_env \<Rightarrow> 'a api_state \<Rightarrow> i32 \<Rightarrow> 'a list \<Rightarrow> utxo list
    \<Rightarrow> ((utxo list, string) outcome \<Rightarrow> ('a, 'x) api_task) \<Rightarrow> ('a, 'x) api_task" where
  "gather_task E st h [] utxos k = k (Ok utxos)"
| "gather_task E st h (a # as) utxos k =
     call (outside (api_get E (spendable_url st (api_lib E) h a))) (\<lambda>r. case r of
        Panic \<Rightarrow> k Panic
      | Err _ \<Rightarrow> gather_task E st h as utxos k
      | Ok r \<Rightarrow> (case spendable_reply (api_time E) r of
           Ok us \<Rightarrow> gather_task E st h as (utxos @ us) k
         | Err _ \<Rightarrow> gather_task E st h as utxos k
         | Panic \<Rightarrow> k Panic))"

definition select_task :: "('u, 'a, 'x) api_env \<Rightarrow> 'a api_state \<Rightarrow> i32 \<Rightarrow> i64 \<Rightarrow> ('a, 'x) api_task" where
  "select_task E st h target =
     call (reading (\<lambda>s. visit E (st_watched s))) (\<lambda>as.
     gather_task E st h as [] (\<lambda>r. Finished (case r of
        Ok utxos \<Rightarrow>
          (let (selected, total) = select_loop target (sort_key block_height utxos) [] 0
           in if total < target then error_reply 400 ''Insufficient funds''
              else json_reply 200 [(''selected_utxos'', JArr (map (json_of_utxo (api_time E)) selected)),
                     (''total'', JNum total)])
      | _ \<Rightarrow> Crashed)))"

fun fetch_task :: "('u, 'a, 'x) api_env \<Rightarrow> 'a api_state \<Rightarrow> i32 \<Rightarrow> i64 \<Rightarrow> 'a list \<Rightarrow> utxo list \<Rightarrow> i64
    \<Rightarrow> (utxo list fetched \<Rightarrow> ('a, 'x) api_task) \<Rightarrow> ('a, 'x) api_task" where
  "fetch_task E st h needed [] sel tot k = k (Err insufficient)"
| "fetch_task E st h needed (a # as) sel tot k =
     call (outside (ask_selection E st h a (wrap_i64 (needed - tot)))) (\<lambda>r. case r of
        Ok us \<Rightarrow> (case take_until needed us sel tot of
            (sel', tot', True) \<Rightarrow> k (Ok sel')
          | (sel', tot', False) \<Rightarrow> fetch_task E st h needed as sel' tot' k)
      | Err e \<Rightarrow> k (Err e)
      | Panic \<Rightarrow> k Panic)"

fun fetch_deterministic_task :: "('u, 'a, 'x) api_env \<Rightarrow> 'a api_state \<Rightarrow> i32 \<Rightarrow> i64 \<Rightarrow> 'a list \<Rightarrow> utxo list \<Rightarrow> i64
    \<Rightarrow> (utxo list fetched \<Rightarrow> ('a, 'x) api_task) \<Rightarrow> ('a, 'x) api_task" where
  "fetch_deterministic_task E st h needed [] sel tot k = k (if tot < needed then Err insufficient else Ok sel)"
| "fetch_deterministic_task E st h needed (a # as) sel tot k =
     (if needed \<le> tot then k (Ok sel)
      else call (outside (ask_selection E st h a (wrap_i64 (needed - tot)))) (\<lambda>r. case r of
          Ok us \<Rightarrow> (case take_until needed us sel tot of
              (sel', tot', _) \<Rightarrow> fetch_deterministic_task E st h needed as sel' tot' k)
        | Err e \<Rightarrow> k (Err e)
        | Panic \<Rightarrow> k Panic))"

text \<open>
  The store of the signed transaction, which the code spawns, is made with the last call.
  While \<^verbatim>\<open>fetch_selected_utxos\<close> asks for outputs it keeps the read lock, which only delays
  those who put addresses under watch; schedules without that delay are among the ones here.
\<close>

definition sign_task :: "('u, 'a, 'x) api_env \<Rightarrow> 'a api_state \<Rightarrow> sign_request \<Rightarrow> ('a, 'x) api_task" where
  "sign_task E st req =
     (if is_blank (st_enclave_key st) then Finished (error_reply 500 ''ENCLAVE_API_KEY missing'')
      else call (reading (\<lambda>s. visit E (st_watched s))) (\<lambda>as.
        fetch_task E st (sr_block_height req) (wrap_i64 (sr_amount req + sr_fee req)) as [] 0 (\<lambda>r. case r of
          Panic \<Rightarrow> Finished Crashed
        | Err e \<Rightarrow> Finished (fetched_error e)
        | Ok us \<Rightarrow>
            (case build_unsigned_transaction (api_lib E) us (sr_amount req) (sr_fee req) (sr_destination req)
                    (st_network st) of
               Panic \<Rightarrow> Finished Crashed
             | Err e \<Rightarrow> Finished (fetched_error e)
             | Ok (unsigned_tx, change) \<Rightarrow>
                 call (outside (api_post E (st_enclave_url st @ ''/sign_transaction'') (Some (st_enclave_key st))
                         (enclave_request us req change))) (\<lambda>sign_resp.
                 call (outside (finish_signing E st req (compute_txid (api_lib E) unsigned_tx) sign_resp)) Finished)))))"

text \<open>
  A preparation reads the cache under one lock and writes it under another; it is saved from
  what a third lock shows.
\<close>

definition cache_prepared :: "('u, 'a, 'x) api_env \<Rightarrow> string \<Rightarrow> string \<Rightarrow> 'a api_state \<times> 'x \<Rightarrow> unit \<times> 'a api_state \<times> 'x" where
  "cache_prepared E key t sx =
     writing (\<lambda>s. s\<lparr>st_cache := AList.update key \<lparr>cp_txid = t, cp_created_at = utc_now E (snd sx)\<rparr> (st_cache s)\<rparr>) sx"

definition save_task :: "('u, 'a, 'x) api_env \<Rightarrow> http_response \<Rightarrow> ('a, 'x) api_task" where
  "save_task E reply =
     call (reading st_cache) (\<lambda>m.
     call (outside (save_prepare_tx_cache E m)) (\<lambda>r. Finished (case r of Panic \<Rightarrow> Crashed | _ \<Rightarrow> reply)))"

definition prepare_miss :: "('u, 'a, 'x) api_env \<Rightarrow> 'a api_state \<Rightarrow> prepare_request \<Rightarrow> ('a, 'x) api_task" where
  "prepare_miss E st req =
     call (reading (\<lambda>s. sorted_addresses E (st_watched s))) (\<lambda>as.
     fetch_deterministic_task E st (pr_block_height req) (wrap_i64 (pr_amount req + pr_fee req)) as [] 0 (\<lambda>r. case r of
        Panic \<Rightarrow> Finished Crashed
      | Err e \<Rightarrow> Finished (fetched_error e)
      | Ok us \<Rightarrow>
          (case build_unsigned_transaction (api_lib E) us (pr_amount req) (pr_fee req) (pr_destination req)
                  (st_network st) of
             Panic \<Rightarrow> Finished Crashed
           | Err e \<Rightarrow> Finished (fetched_error e)
           | Ok (unsigned_tx, _) \<Rightarrow>
               (let t = compute_txid (api_lib E) unsigned_tx
                in call (cache_prepared E (generate_prepare_tx_cache_key E req) t) (\<lambda>_.
                   save_task E (Reply 200 (Some (json_of_prepared t))))))))"

definition prepare_task :: "('u, 'a, 'x) api_env \<Rightarrow> 'a api_state \<Rightarrow> prepare_request \<Rightarrow> ('a, 'x) api_task" where
  "prepare_task E st req =
     call (reading (\<lambda>s. map_of (st_cache s) (generate_prepare_tx_cache_key E req))) (\<lambda>hit. case hit of
        Some entry \<Rightarrow> Finished (Reply 200 (Some (json_of_prepared (cp_txid entry))))
      | None \<Rightarrow> prepare_miss E st req)"

text \<open>The task of a request, with the clone \<open>st\<close> of the state it was accepted in.\<close>

fun api_task :: "('u, 'a, 'x) api_env \<Rightarrow> 'a api_state \<Rightarrow> api_request \<Rightarrow> ('a, 'x) api_task" where
  "api_task E st (WatchAddress key a) = guarded st key (watch_task E st a)"
| "api_task E st (GetWatchAddress a) = get_watch_task E st a"
| "api_task E st (DeriveAddress key a) = guarded st key (derive_task E st a)"
| "api_task E st (SelectWatched key h target) = guarded st key (select_task E st h target)"
| "api_task E st (PrepareTransaction key req) = guarded st key (prepare_task E st req)"
| "api_task E st (SignTransaction key req) = guarded st key (sign_task E st req)"
| "api_task E st ApiHealth = Finished (Reply 200 None)"

text \<open>
  What the interface can become: requests arrive, tasks go on in any order, and the services,
  the clock and the file system change on their own.
\<close>

inductive api_serving :: "('u, 'a, 'x) api_env \<Rightarrow> ('a, 'x) api_task list \<times> 'a api_state \<times> 'x
    \<Rightarrow> ('a, 'x) api_task list \<times> 'a api_state \<times> 'x \<Rightarrow> bool" for E c where
  here: "api_serving E c c"
| accept: "api_serving E c (ts, st, x) \<Longrightarrow> api_serving E c (ts @ [api_task E st r], st, x)"
| step: "api_serving E c c' \<Longrightarrow> api_serving E c (step_task i c')"
| elsewhere: "api_serving E c (ts, st, x) \<Longrightarrow> api_serving E c (ts, st, x')"

section \<open>A task alone is the handler\<close>

lemmas api_calls = outside_def reading_def writing_def

lemma run_gather_task:
  "run_task (gather_task E st h as us k) (s, x)
     = (case gather_spendable E st h as us x of (r, x') \<Rightarrow> run_task (k r) (s, x'))"
  by (induction as arbitrary: us x) (auto simp: api_calls split: prod.split outcome.split)

lemma run_fetch_task:
  "run_task (fetch_task E st h needed as sel tot k) (s, x)
     = (case fetch_loop E st h needed as sel tot x of (r, x') \<Rightarrow> run_task (k r) (s, x'))"
  by (induction as arbitrary: sel tot x)
    (auto simp: api_calls then_do_def split: prod.split outcome.split bool.split)

lemma run_fetch_deterministic_task:
  "run_task (fetch_deterministic_task E st h needed as sel tot k) (s, x)
     = (case fetch_loop_deterministic E st h needed as sel tot x of (r, x') \<Rightarrow> run_task (k r) (s, x'))"
  by (induction as arbitrary: sel tot x) (auto simp: api_calls then_do_def split: prod.split outcome.split)

lemmas run_loops = run_gather_task run_fetch_task run_fetch_deterministic_task

lemma run_prepare_task: "run_task (prepare_task E st req) (st, x) = prepare_transaction_handler_idempotent E req (st, x)"
  by (auto simp: prepare_task_def prepare_miss_def save_task_def cache_prepared_def api_calls run_loops
      prepare_transaction_handler_idempotent_def fetch_selected_utxos_deterministic_def Let_def
      split: option.split outcome.split prod.split)

lemma run_sign_task: "run_task (sign_task E st req) (st, x) = sign_transaction_handler E req (st, x)"
  by (auto simp: sign_task_def api_calls run_loops sign_transaction_handler_def fetch_selected_utxos_def
      split: outcome.split prod.split)

lemma run_select_task: "run_task (select_task E st h n) (st, x) = select_utxos_handler E h n (st, x)"
  by (auto simp: select_task_def api_calls run_loops select_utxos_handler_def Let_def split: outcome.split prod.split)

lemma run_watch_tasks:
  "run_task (watch_task E st a) (st, x) = watch_address_handler E a (st, x)"
  "run_task (get_watch_task E st a) (st, x) = get_watch_address_handler E a (st, x)"
  "run_task (derive_task E st a) (st, x) = derive_address_handler E a (st, x)"
  by (auto simp: watch_task_def get_watch_task_def derive_task_def api_calls watch_address_handler_def
      get_watch_address_handler_def derive_address_handler_def split: outcome.split prod.split option.split)

text \<open>A request's task run alone is the handler.\<close>

lemma api_task_alone: "run_task (api_task E st r) (st, x) = api_dispatch E r (st, x)"
  by (cases r) (simp_all add: guarded_def with_key_def run_watch_tasks run_select_task run_prepare_task run_sign_task)

section \<open>What the tasks guarantee each other\<close>

text \<open>Steps that allow what every request does: calls outside, and addresses put under watch.\<close>

locale api_steps =
  fixes G :: "'a api_state \<times> 'x \<Rightarrow> 'a api_state \<times> 'x \<Rightarrow> bool"
  assumes refl: "G sx sx"
    and trans: "G sx sx' \<Longrightarrow> G sx' sx'' \<Longrightarrow> G sx sx''"
    and elsewhere: "G (s, x) (s, x')"
    and watching: "G (s, x) (watch a s, x)"
begin

lemma outside_step: "outside f sy = (r, sy') \<Longrightarrow> G sy sy'"
  by (cases sy) (auto simp: outside_def intro: elsewhere split: prod.splits)

lemma assures_outside:
  assumes "\<And>r sx'. G sx sx' \<Longrightarrow> assures G Q sx' (k r)"
  shows "assures G Q sx (call (outside f) k)"
proof (rule assures_call)
  fix sy r sy' assume "G sx sy" and "outside f sy = (r, sy')"
  moreover from this(2) have "G sy sy'" by (rule outside_step)
  ultimately show "G sy sy' \<and> assures G Q sy' (k r)" using assms trans by blast
qed

lemma assures_reading: "(\<And>sx'. G sx sx' \<Longrightarrow> assures G Q sx' (k (f (fst sx')))) \<Longrightarrow> assures G Q sx (call (reading f) k)"
  by (rule assures_call) (auto simp: reading_def intro: refl)

lemma assures_watching:
  assumes "\<And>sx'. G sx sx' \<Longrightarrow> assures G Q sx' (k ())"
  shows "assures G Q sx (call (writing (watch a)) k)"
proof (rule assures_call)
  fix sy r sy' assume "G sx sy" and "writing (watch a) sy = (r, sy')"
  moreover from this(2) have "G sy sy'" by (cases sy) (auto simp: writing_def intro: watching)
  ultimately show "G sy sy' \<and> assures G Q sy' (k r)" using assms trans by auto
qed

lemmas assures_calls = assures_outside assures_reading assures_watching

lemma assures_gather:
  "(\<And>r sx'. G sx sx' \<Longrightarrow> assures G Q sx' (k r)) \<Longrightarrow> assures G Q sx (gather_task E st h as us k)"
proof (induction as arbitrary: us sx)
  case (Cons a as)
  have "assures G Q sx' (gather_task E st h as us' k)" if "G sx sx'" for sx' us'
    using Cons.IH [of sx'] Cons.prems trans [OF that] by blast
  then show ?case using Cons.prems by (auto intro!: assures_outside split: outcome.split)
qed (simp add: refl)

lemma assures_fetch:
  "(\<And>r sx'. G sx sx' \<Longrightarrow> assures G Q sx' (k r)) \<Longrightarrow> assures G Q sx (fetch_task E st h n as sel tot k)"
proof (induction as arbitrary: sel tot sx)
  case (Cons a as)
  have "assures G Q sx' (fetch_task E st h n as sel' tot' k)" if "G sx sx'" for sx' sel' tot'
    using Cons.IH [of sx'] Cons.prems trans [OF that] by blast
  then show ?case using Cons.prems by (auto intro!: assures_outside split: outcome.split bool.split prod.split)
qed (simp add: refl)

text \<open>No error of the loop is answered with status 200.\<close>

lemma assures_fetch_deterministic:
  "(\<And>r sx'. G sx sx' \<Longrightarrow> (\<And>m. r \<noteq> Err (m, 200)) \<Longrightarrow> assures G Q sx' (k r)) \<Longrightarrow>
   assures G Q sx (fetch_deterministic_task E st h n as sel tot k)"
proof (induction as arbitrary: sel tot sx)
  case (Cons a as)
  let ?k = "\<lambda>r. case r of
      Ok us \<Rightarrow> (case take_until n us sel tot of (sel', tot', _) \<Rightarrow> fetch_deterministic_task E st h n as sel' tot' k)
    | Err e \<Rightarrow> k (Err e) | Panic \<Rightarrow> k Panic"
  have rest: "assures G Q sx' (fetch_deterministic_task E st h n as sel' tot' k)" if "G sx sx'" for sx' sel' tot'
    using Cons.IH [of sx'] Cons.prems trans [OF that] by blast
  have "assures G Q sx (call (outside (ask_selection E st h a (wrap_i64 (n - tot)))) ?k)"
  proof (rule assures_call)
    fix sy r sy' assume "G sx sy" and o: "outside (ask_selection E st h a (wrap_i64 (n - tot))) sy = (r, sy')"
    from o have g: "G sy sy'" by (rule outside_step)
    then have g': "G sx sy'" using \<open>G sx sy\<close> trans by blast
    have "r \<noteq> Err (m, 200)" for m using o by (auto simp: outside_def split: prod.splits dest: ask_selection_status)
    then have "assures G Q sy' (?k r)" using rest [OF g'] Cons.prems [OF g'] by (auto split: outcome.split prod.split)
    with g show "G sy sy' \<and> assures G Q sy' (?k r)" ..
  qed
  then show ?case using Cons.prems [OF refl] by simp
qed (simp add: insufficient_def refl)

lemma assures_watch_tasks:
  assumes "\<And>sx r. Q sx r"
  shows "assures G Q sx (watch_task E st a)" "assures G Q sx (get_watch_task E st a)" "assures G Q sx (derive_task E st a)"
    "assures G Q sx (select_task E st h n)" "assures G Q sx (sign_task E st rq)"
  unfolding watch_task_def get_watch_task_def derive_task_def select_task_def sign_task_def
  by (auto intro!: assures_calls assures_gather assures_fetch simp: assms split: outcome.splits option.splits)

lemma assures_miss:
  assumes step: "\<And>t sy. G sy (snd (cache_prepared E (generate_prepare_tx_cache_key E req) t sy))"
    and ok: "\<And>t sy sy'. G sx sy \<Longrightarrow> G (snd (cache_prepared E (generate_prepare_tx_cache_key E req) t sy)) sy' \<Longrightarrow>
      Q sy' (Reply 200 (Some (json_of_prepared t)))"
    and err: "\<And>sy r. (\<And>j. r \<noteq> Reply 200 j) \<Longrightarrow> Q sy r"
  shows "assures G Q sx (prepare_miss E st req)"
proof -
  have save: "assures G Q sy' (save_task E (Reply 200 (Some (json_of_prepared t))))"
    if "G sx sy" "G (snd (cache_prepared E (generate_prepare_tx_cache_key E req) t sy)) sy'" for t sy sy'
    unfolding save_task_def
    by (intro assures_reading assures_outside) (auto intro: err ok [OF that(1)] that(2) trans split: outcome.splits)
  have store: "assures G Q sy (call (cache_prepared E (generate_prepare_tx_cache_key E req) t)
      (\<lambda>_. save_task E (Reply 200 (Some (json_of_prepared t)))))" if "G sx sy" for t sy
    by (rule assures_call) (metis step save refl snd_conv trans that)
  let ?rest = "\<lambda>us. case build_unsigned_transaction (api_lib E) us (pr_amount req) (pr_fee req) (pr_destination req)
                  (st_network st) of
             Panic \<Rightarrow> Finished Crashed
           | Err e \<Rightarrow> Finished (fetched_error e)
           | Ok (unsigned_tx, _) \<Rightarrow>
               (let t = compute_txid (api_lib E) unsigned_tx
                in call (cache_prepared E (generate_prepare_tx_cache_key E req) t) (\<lambda>_.
                   save_task E (Reply 200 (Some (json_of_prepared t)))))"
  have rest: "assures G Q sy (?rest us)" if "G sx sy" for sy us
    using store [OF that] by (auto simp: Let_def fetched_error_def error_reply_def json_reply_def intro!: err
        dest: build_status split: outcome.split)
  show ?thesis
    unfolding prepare_miss_def
  proof (intro assures_reading assures_fetch_deterministic)
    fix sy sz and r :: "utxo list fetched"
    assume "G sx sy" and "G sy sz" and r: "\<And>m. r \<noteq> Err (m, 200)"
    then have "G sx sz" using trans by blast
    with r show "assures G Q sz (case r of Panic \<Rightarrow> Finished Crashed | Err e \<Rightarrow> Finished (fetched_error e) | Ok us \<Rightarrow> ?rest us)"
      using rest by (cases r) (auto simp: fetched_error_def error_reply_def json_reply_def intro!: err)
  qed
qed

end

section \<open>The interface only grows\<close>

definition grows :: "'a api_state \<times> 'x \<Rightarrow> 'a api_state \<times> 'x \<Rightarrow> bool" where
  "grows sx sx' \<longleftrightarrow> st_indexer_key (fst sx') = st_indexer_key (fst sx) \<and> st_watched (fst sx) \<subseteq> st_watched (fst sx')
     \<and> dom (map_of (st_cache (fst sx))) \<subseteq> dom (map_of (st_cache (fst sx')))"

text \<open>A preparation at position \<open>n\<close> that was answered with status 200 has an entry in the cache.\<close>

definition answered :: "string \<Rightarrow> string \<Rightarrow> nat \<Rightarrow> nat \<Rightarrow> 'a api_state \<times> 'x \<Rightarrow> http_response \<Rightarrow> bool" where
  "answered key k n i sx r \<longleftrightarrow> (i = n \<longrightarrow> (\<forall>j. r = Reply 200 j \<longrightarrow>
     key = st_indexer_key (fst sx) \<and> k \<in> dom (map_of (st_cache (fst sx)))))"

lemma grows_trans: "grows sx sx' \<Longrightarrow> grows sx' sx'' \<Longrightarrow> grows sx sx''"
  unfolding grows_def by (metis subset_trans)

interpretation growing: api_steps grows
  by unfold_locales (erule (1) grows_trans | force simp: grows_def watch_def)+

interpretation requests: rely_guarantee grows "answered key k n" for key k n
  by unfold_locales (erule (1) grows_trans | force simp: grows_def answered_def)+

lemma cache_grows: "grows sx (snd (cache_prepared E k t sx))"
  "k \<in> dom (map_of (st_cache (fst (snd (cache_prepared E k t sx)))))"
  by (auto simp: grows_def cache_prepared_def writing_def alist_lookup_update)

lemma prepare_answered:
  "assures grows (answered key (generate_prepare_tx_cache_key E req) n i) (st, x)
     (api_task E st (PrepareTransaction key req))"
proof (cases "key = st_indexer_key st")
  case True
  let ?k = "generate_prepare_tx_cache_key E req" and ?Q = "answered key (generate_prepare_tx_cache_key E req) n i"
  have "assures grows ?Q sx (case map_of (st_cache (fst sx)) ?k of
          Some entry \<Rightarrow> Finished (Reply 200 (Some (json_of_prepared (cp_txid entry))))
        | None \<Rightarrow> prepare_miss E st req)" if g: "grows (st, x) sx" for sx
  proof (cases "map_of (st_cache (fst sx)) ?k")
    case None
    have "assures grows ?Q sx (prepare_miss E st req)"
    proof (rule growing.assures_miss)
      fix t sy sy' assume "grows sx sy" and "grows (snd (cache_prepared E ?k t sy)) sy'"
      then show "?Q sy' (Reply 200 (Some (json_of_prepared t)))"
        using g True cache_grows [where E = E and k = ?k and t = t and sx = sy] by (auto simp: answered_def grows_def)
    qed (auto simp: cache_grows answered_def)
    then show ?thesis using None by simp
  next
    case (Some entry)
    then show ?thesis using g True by (auto simp: answered_def grows_def)
  qed
  then show ?thesis unfolding api_task.simps guarded_def prepare_task_def
    using True by (auto intro: growing.assures_reading)
next
  case False
  then show ?thesis by (simp add: guarded_def answered_def error_reply_def json_reply_def)
qed

lemma task_answered: "i \<noteq> n \<Longrightarrow> assures grows (answered key k n i) (st, x) (api_task E st r)"
proof (cases r)
  case (PrepareTransaction k' req)
  assume "i \<noteq> n"
  then show ?thesis
    using assures_map_task [OF prepare_answered [of _ E req n i st x], of k' "answered key k n i" "\<lambda>r. r"]
    by (simp add: PrepareTransaction answered_def task.map_ident)
qed (auto simp: guarded_def answered_def intro!: growing.assures_watch_tasks)

text \<open>All tasks of a reachable interface guarantee growth, and the preparation at position \<open>n\<close> its entry.\<close>

definition all_answered :: "string \<Rightarrow> string \<Rightarrow> nat \<Rightarrow> ('a, 'x) api_task list \<times> 'a api_state \<times> 'x \<Rightarrow> bool" where
  "all_answered key k n c \<longleftrightarrow> (\<forall>i < length (fst c). assures grows (answered key k n i) (snd c) (fst c ! i))"

lemma all_answered_accept:
  assumes "all_answered key k n (ts, st, x)" and "assures grows (answered key k n (length ts)) (st, x) t"
  shows "all_answered key k n (ts @ [t], st, x)"
  using assms by (auto simp: all_answered_def nth_append less_Suc_eq)

lemma all_answered_step:
  assumes "all_answered key k n c"
  shows "all_answered key k n (step_task i c) \<and> grows (snd c) (snd (step_task i c))"
proof -
  obtain ts s ts' s' where c: "c = (ts, s)" "step_task i (ts, s) = (ts', s')" by (meson surj_pair)
  have "\<forall>j < length ts. assures grows (answered key k n j) s (ts ! j)" using assms by (simp add: c(1) all_answered_def)
  from requests.step_assured [OF this c(2)] show ?thesis by (simp add: all_answered_def c del: step_task.simps)
qed

lemma all_answered_elsewhere: "all_answered key k n (ts, st, x) \<Longrightarrow> all_answered key k n (ts, st, x')"
  using requests.assures_later growing.elsewhere by (fastforce simp: all_answered_def)

lemma serving_answered:
  assumes "api_serving E c c'" and "all_answered key k n c" and "n < length (fst c)"
  shows "all_answered key k n c' \<and> n < length (fst c') \<and> grows (snd c) (snd c')"
  using assms(1)
proof (induction rule: api_serving.induct)
  case (accept ts st x r)
  then show ?case using all_answered_accept [OF _ task_answered] by force
next
  case (step c' i)
  then show ?case using all_answered_step [of key k n c' i] grows_trans by (simp del: step_task.simps) blast
next
  case (elsewhere ts st x x')
  then show ?case using all_answered_elsewhere [of key k n ts st x x'] by (simp add: grows_def)
qed (use assms growing.refl [of "snd c"] in simp_all)

lemma started_answered:
  assumes "api_serving E ([], st0, x0) c" and "length (fst c) \<le> n"
  shows "all_answered key k n c"
  using assms
proof (induction rule: api_serving.induct)
  case (accept ts st x r)
  then show ?case by (intro all_answered_accept task_answered) simp_all
next
  case (step c' i)
  then show ?case using all_answered_step [of key k n c' i] by (simp del: step_task.simps)
next
  case (elsewhere ts st x x')
  then show ?case using all_answered_elsewhere by simp
qed (simp add: all_answered_def)

section \<open>Entries stay\<close>

definition cached :: "string \<Rightarrow> cached_prepare \<Rightarrow> 'a api_state \<times> 'x \<Rightarrow> bool" where
  "cached k e sx \<longleftrightarrow> map_of (st_cache (fst sx)) k = Some e"

interpretation keeping: api_steps "upholds (cached k e)" for k e
  by unfold_locales (auto simp: upholds_def cached_def watch_def)

text \<open>A request accepted while the entry is there never writes it.\<close>

lemma prepare_keeps_cached:
  fixes E :: "('u, 'a, 'x) api_env"
  shows "keeps (cached k e) (api_task E st (PrepareTransaction key req))"
proof -
  let ?I = "cached k e :: 'a api_state \<times> 'x \<Rightarrow> bool" and ?k = "generate_prepare_tx_cache_key E req"
  have miss: "assures (upholds ?I) (\<lambda>_ _. True) sx (prepare_miss E st req)" if "?k \<noteq> k" for sx
    using that by (intro keeping.assures_miss) (auto simp: upholds_def cached_def cache_prepared_def writing_def alist_lookup_update)
  have "keeps ?I (prepare_task E st req)"
    unfolding keeps_def prepare_task_def
  proof (intro allI impI keeping.assures_reading)
    fix sx sx' :: "'a api_state \<times> 'x" assume "?I sx" and "upholds ?I sx sx'"
    then have "?I sx'" by (simp add: upholds_def)
    then show "assures (upholds ?I) (\<lambda>_ _. True) sx' (case map_of (st_cache (fst sx')) ?k of
        Some entry \<Rightarrow> Finished (Reply 200 (Some (json_of_prepared (cp_txid entry)))) | None \<Rightarrow> prepare_miss E st req)"
      using miss by (cases "?k = k") (auto simp: cached_def split: option.split)
  qed
  then show ?thesis by (simp add: guarded_def)
qed

lemma task_keeps_cached: "keeps (cached k e) (api_task E st r)"
proof (cases r)
  case (PrepareTransaction key req)
  then show ?thesis using prepare_keeps_cached by simp
qed (auto simp: keeps_def guarded_def intro!: keeping.assures_watch_tasks)

lemma serving_keeps_cached:
  assumes "api_serving E c c'" and "\<forall>t \<in> set (fst c). keeps (cached k e) t" and "cached k e (snd c)"
  shows "(\<forall>t \<in> set (fst c'). keeps (cached k e) t) \<and> cached k e (snd c')"
  using assms(1)
proof (induction rule: api_serving.induct)
  case (accept ts st x r)
  then show ?case using task_keeps_cached by auto
next
  case (step c' i)
  obtain ts s ts' s' where c: "c' = (ts, s)" "step_task i (ts, s) = (ts', s')" by (meson surj_pair)
  from keeps_step [OF _ _ c(2), of "cached k e"] step.IH show ?case by (simp add: c del: step_task.simps)
next
  case (elsewhere ts st x x')
  then show ?case by (simp add: cached_def)
qed (use assms in auto)

section \<open>Preparing under concurrency\<close>

lemma repeated_preparation:
  assumes "cached (generate_prepare_tx_cache_key E req) e (st, x)" and "key = st_indexer_key st"
  shows "step_task (length ts) (ts @ [api_task E st (PrepareTransaction key req)], st, x)
     = (ts @ [Finished (Reply 200 (Some (json_of_prepared (cp_txid e))))], st, x)"
  using assms by (simp add: guarded_def prepare_task_def call_def reading_def cached_def)

text \<open>
  C14. Preparations settle.  Requests of any kind are served concurrently, each waiting for its
  locks, its services and the cache file in any interleaving, and one of them, a preparation,
  is answered with status 200.  Once the requests in flight at some later time have all been answered,
  there is one transaction id with which every repetition of the preparation is answered by its first
  step, whatever requests are accepted and interleaved until then and however the world outside
  changes.
\<close>

theorem preparations_settle:
  assumes "api_serving E ([], st0, x0) (ts, st, x)"
    and "api_serving E (ts @ [api_task E st (PrepareTransaction key req)], st, x) (ts1, st1, x1)"
    and "ts1 ! length ts = Finished (Reply 200 j)"
    and "\<forall>t \<in> set ts1. \<exists>r. t = Finished r"
  shows "\<exists>t. \<forall>ts2 st2 x2. api_serving E (ts1, st1, x1) (ts2, st2, x2) \<longrightarrow>
     step_task (length ts2) (ts2 @ [api_task E st2 (PrepareTransaction key req)], st2, x2)
       = (ts2 @ [Finished (Reply 200 (Some (json_of_prepared t)))], st2, x2)"
proof -
  let ?k = "generate_prepare_tx_cache_key E req"
  have "all_answered key ?k (length ts) (ts @ [api_task E st (PrepareTransaction key req)], st, x)"
    by (rule all_answered_accept [OF started_answered [OF assms(1)] prepare_answered]) simp
  from serving_answered [OF assms(2) this]
  have a: "all_answered key ?k (length ts) (ts1, st1, x1)" "length ts < length ts1" by auto
  have "answered key ?k (length ts) (length ts) (st1, x1) (Reply 200 j)"
    using a assms(3) by (auto simp: all_answered_def dest: spec [of _ "length ts"])
  then obtain e where e: "cached ?k e (st1, x1)" "key = st_indexer_key st1" by (auto simp: answered_def cached_def)
  have quiet: "\<forall>t \<in> set ts1. keeps (cached ?k e) t" using assms(4) keeps_Finished by metis
  have "cached ?k e (st2, x2) \<and> key = st_indexer_key st2" if "api_serving E (ts1, st1, x1) (ts2, st2, x2)" for ts2 st2 x2
    using serving_keeps_cached [OF that, of ?k e] serving_answered [OF that a(1)] a(2) quiet e by (simp add: grows_def)
  then show ?thesis using repeated_preparation by metis
qed

lemma serving_schedule: "api_serving E c c' \<Longrightarrow> api_serving E c (run_schedule is c')"
proof (induction "is" arbitrary: c')
  case (Cons i js)
  from Cons.IH [OF api_serving.step [OF Cons.prems]] show ?case by (simp add: run_schedule_def del: step_task.simps)
qed (simp add: run_schedule_def)

theorem preparations_settle_witness:
  "\<exists>t st1 x1. fst (snd prepared) = st1
     \<and> step_task 1 ([Finished (fst prepared), api_task down_api st1 (PrepareTransaction ''k'' no_funds)], st1, x1)
       = ([Finished (fst prepared), Finished (Reply 200 (Some (json_of_prepared t)))], st1, x1)"
proof -
  let ?r = "PrepareTransaction ''k'' no_funds" and ?s = "(small_api_state, [])"
  have "fst prepared = Reply 200 (Some (json_of_prepared ''-bob''))" by code_simp
  then obtain st1 x1 where p: "prepared = (Reply 200 (Some (json_of_prepared ''-bob'')), st1, x1)" by (metis prod.collapse)
  then have "api_dispatch down_api ?r ?s = (Reply 200 (Some (json_of_prepared ''-bob'')), st1, x1)" by (simp add: prepared_def)
  then have "run_task (api_task down_api small_api_state ?r) ?s = (Reply 200 (Some (json_of_prepared ''-bob'')), st1, x1)"
    by (simp only: api_task_alone)
  then obtain m where m: "run_schedule (replicate m 0) ([api_task down_api small_api_state ?r], ?s)
      = ([Finished (Reply 200 (Some (json_of_prepared ''-bob'')))], st1, x1)"
    using run_task_schedule [of 0 "[api_task down_api small_api_state ?r]" "api_task down_api small_api_state ?r" ?s] by auto
  have a: "api_serving down_api ([] @ [api_task down_api small_api_state ?r], ?s)
      ([Finished (Reply 200 (Some (json_of_prepared ''-bob'')))], st1, x1)"
    using serving_schedule [OF api_serving.here, of down_api "([] @ [api_task down_api small_api_state ?r], ?s)" "replicate m 0"]
    by (simp only: append_Nil m)
  have quiet: "\<forall>t \<in> set [Finished (Reply 200 (Some (json_of_prepared ''-bob'')))]. \<exists>r. t = Finished r" by simp
  obtain t where t: "\<And>ts2 st2 x2.
      api_serving down_api ([Finished (Reply 200 (Some (json_of_prepared ''-bob'')))], st1, x1) (ts2, st2, x2) \<Longrightarrow>
      step_task (length ts2) (ts2 @ [api_task down_api st2 ?r], st2, x2)
       = (ts2 @ [Finished (Reply 200 (Some (json_of_prepared t)))], st2, x2)"
    using preparations_settle [OF api_serving.here a _ quiet, of "Some (json_of_prepared ''-bob'')"] by auto
  have f: "fst prepared = Reply 200 (Some (json_of_prepared ''-bob''))" "fst (snd prepared) = st1" unfolding p by simp_all
  from t [OF api_serving.here] show ?thesis
    unfolding f(1) using f(2) by (intro exI [of _ t] exI [of _ st1] exI [of _ x1]) (simp del: step_task.simps api_task.simps)
qed

section \<open>A race\<close>

text \<open>What a preparation that missed the cache does does not depend on an entry made since.\<close>

lemma late_miss:
  assumes "run_task (prepare_miss E st req) (st, x) = (Reply 200 j, st', x')"
  shows "run_task (prepare_miss E st req)
       (st\<lparr>st_cache := AList.update (generate_prepare_tx_cache_key E req) e (st_cache st)\<rparr>, x) = (Reply 200 j, st', x')"
  using assms
  by (auto simp: prepare_miss_def save_task_def cache_prepared_def api_calls run_loops Let_def fetched_error_def
      error_reply_def json_reply_def dest: build_status fetch_deterministic_status
      split: outcome.splits prod.splits)

text \<open>
  Two equal preparations may both miss the cache: the second is answered as if the first had
  not been made, although it asks for its outputs after the first was answered.
\<close>

lemma prepare_race:
  assumes "map_of (st_cache st) (generate_prepare_tx_cache_key E req) = None"
    and "prepare_transaction_handler_idempotent E req (st, x) = (Reply 200 j, st1, x1)"
    and "prepare_transaction_handler_idempotent E req (st, x1) = (Reply 200 j', st2, x2)"
  shows "\<exists>is. run_schedule is ([prepare_task E st req, prepare_task E st req], st, x)
       = ([Finished (Reply 200 j), Finished (Reply 200 j')], st2, x2)"
proof -
  let ?m = "prepare_miss E st req"
  have two: "run_schedule [0, 1] ([prepare_task E st req, prepare_task E st req], st, x) = ([?m, ?m], st, x)"
    using assms(1) by (simp add: run_schedule_def prepare_task_def call_def reading_def)
  have miss: "run_task ?m (st, y) = prepare_transaction_handler_idempotent E req (st, y)" for y
    using run_prepare_task [of E st req y] assms(1) by (simp add: prepare_task_def reading_def)
  obtain e where "st1 = st\<lparr>st_cache := AList.update (generate_prepare_tx_cache_key E req) e (st_cache st)\<rparr>"
    using prepare_cache [OF assms(2)] prepare_reply [OF assms(2)] assms(1) by (metis option.distinct(1))
  then have late: "run_task ?m (st1, x1) = (Reply 200 j', st2, x2)" using late_miss assms(3) miss by metis
  obtain a where a: "run_schedule (replicate a 0) ([?m, ?m], st, x) = ([Finished (Reply 200 j), ?m], st1, x1)"
    using run_task_schedule [of 0 "[?m, ?m]" ?m "(st, x)"] miss assms(2) by auto
  obtain b where "run_schedule (replicate b 1) ([Finished (Reply 200 j), ?m], st1, x1)
      = ([Finished (Reply 200 j), Finished (Reply 200 j')], st2, x2)"
    using run_task_schedule [of 1 "[Finished (Reply 200 j), ?m]" ?m "(st1, x1)"] late by auto
  then have "run_schedule ([0, 1] @ replicate a 0 @ replicate b 1) ([prepare_task E st req, prepare_task E st req], st, x)
      = ([Finished (Reply 200 j), Finished (Reply 200 j')], st2, x2)"
    using two a by (simp add: run_schedule_def del: step_task.simps)
  then show ?thesis by blast
qed

end
