(* ===== verification/Signed_Flow.thy ===== *)
theory Signed_Flow
  imports Api_Correct
begin

text \<open>
  A signed transaction on its way through the system: the interface selects outputs at the
  storage service, has the enclave sign, and hands the result to the journal of the storage
  service, whose HTTP interface then serves it.
\<close>

section \<open>The journal behind the interface\<close>

text \<open>
  \<open>J\<close> is the journal in the world around the interface: only a \<^verbatim>\<open>POST\<close> to \<^verbatim>\<open>/signed-tx\<close> of the UTXO
  service changes it, the way the storage service's handler does at the time of its clock.
\<close>

definition journal_service :: "('u, 'a, 'x) api_env \<Rightarrow> ('u2, 'a2, 's) app_env \<Rightarrow> 'a api_state \<Rightarrow> ('x \<Rightarrow> signed_db) \<Rightarrow> bool" where
  "journal_service E A st J \<longleftrightarrow>
     (\<forall>url x. J (snd (api_get E url x)) = J x)
   \<and> (\<forall>url key b x. url \<noteq> st_utxo_url st @ ''/signed-tx'' \<longrightarrow> J (snd (api_post E url key b x)) = J x)
   \<and> (\<forall>b rq x. store_request_of_json b = Some rq \<longrightarrow>
        (\<exists>now. J (snd (api_post E (st_utxo_url st @ ''/signed-tx'') None b x)) = snd (http_store_signed_tx A now rq (J x))))"

definition store_request_for :: "sign_request \<Rightarrow> string \<Rightarrow> string \<Rightarrow> store_signed_tx_request" where
  "store_request_for req t raw =
     \<lparr>rq_txid = t, rq_signed_tx = raw, rq_caller = sr_caller req, rq_block_height = sr_block_height req,
      rq_amount = sr_amount req, rq_destination = sr_destination req, rq_fee = sr_fee req\<rparr>"

lemma get_journal: "journal_service E A st J \<Longrightarrow> api_get E url x = (r, x') \<Longrightarrow> J x' = J x"
  unfolding journal_service_def by (metis snd_conv)

lemma ask_selection_journal: "journal_service E A st J \<Longrightarrow> ask_selection E st h a n x = (r, x') \<Longrightarrow> J x' = J x"
  by (auto simp: ask_selection_def split: prod.splits outcome.splits dest: get_journal)

lemma fetch_loop_journal: "journal_service E A st J \<Longrightarrow> fetch_loop E st h n as sel tot x = (r, x') \<Longrightarrow> J x' = J x"
proof (induction as arbitrary: sel tot x)
  case (Cons a as)
  then show ?case
    by (auto simp: then_do_def split: prod.splits outcome.splits bool.splits dest: ask_selection_journal)
qed simp

lemma fetch_loop_status: "fetch_loop E st h n as sel tot x = (Err (msg, status), x') \<Longrightarrow> status \<noteq> 200"
proof (induction as arbitrary: sel tot x)
  case (Cons a as)
  then show ?case
    by (auto simp: then_do_def split: prod.splits outcome.splits bool.splits dest: ask_selection_status)
qed (simp add: insufficient_def)

text \<open>The enclave's url ends differently.\<close>

lemma enclave_url_other: "u @ ''/sign_transaction'' \<noteq> v @ ''/signed-tx''"
proof
  assume "u @ ''/sign_transaction'' = v @ ''/signed-tx''"
  then have "last (u @ ''/sign_transaction'') = last (v @ ''/signed-tx'')" by (rule arg_cong)
  then show False by simp
qed

section \<open>What signing leaves in the journal\<close>

lemma finish_signing_cases:
  assumes "finish_signing E st req t sign_resp x = (reply, x')"
  obtains (signed) r j raw where "sign_resp = Ok r" "is_success (rr_status r)" "rr_json r = Ok j"
      "req_field as_str ''signed_tx'' j = Some raw"
      "reply = json_reply 200 [(''signed_tx'', JStr raw), (''txid'', JStr t)]"
      "x' = snd (api_store_signed_tx E st (store_request_for req t raw) x)"
    | (not_signed) "x' = x" "\<And>j. reply \<noteq> Reply 200 j"
proof (cases "x' = x \<and> (\<forall>j. reply \<noteq> Reply 200 j)")
  case False
  then show ?thesis
    using assms signed unfolding finish_signing_def store_request_for_def
    by (auto simp: error_reply_def json_reply_def is_success_def split: outcome.splits if_splits option.splits)
qed (use not_signed in blast)

lemma journalled:
  assumes "journal_service E A st J" and "sqlite_healthy (app_signed A)" and "journal (app_signed A) (J x) xs"
    and "in_i32 (sr_block_height req)" and "in_i64 (sr_amount req)" and "in_i64 (sr_fee req)"
    and "x' = snd (api_store_signed_tx E st (store_request_for req t raw) x)"
  shows "\<exists>n now. let y = \<lparr>stx_id = n, stx_txid = t, stx_signed_tx = raw, stx_caller = sr_caller req,
        stx_block_height = sr_block_height req, stx_amount = sr_amount req, stx_destination = sr_destination req,
        stx_fee = sr_fee req, stx_timestamp = now\<rparr>
     in journal (app_signed A) (J x') (xs @ [y])
      \<and> http_get_signed_tx A t (J x') = json_reply 200 [(''signed_tx'', json_of_signed (app_time A) y)]"
proof -
  let ?rq = "store_request_for req t raw" and ?url = "st_utxo_url st @ ''/signed-tx''"
  have j: "store_request_of_json (json_of_store_request ?rq) = Some ?rq"
    by (rule store_request_of_json_of) (simp_all add: store_request_for_def assms(4-6))
  have x': "x' = snd (api_post E ?url None (json_of_store_request ?rq) x)"
    by (simp add: assms(7) api_store_signed_tx_def split: prod.split outcome.split)
  obtain now where now: "J x' = snd (http_store_signed_tx A now ?rq (J x))"
    using assms(1) j unfolding x' journal_service_def by blast
  obtain s' y where s': "store_signed_tx (app_signed A) now t raw (sr_caller req) (sr_block_height req) (sr_amount req)
        (sr_destination req) (sr_fee req) (J x) = (Ok (), s')" "journal (app_signed A) s' (xs @ [y])"
    and y: "y = \<lparr>stx_id = sd_seq (J x) + 1, stx_txid = t, stx_signed_tx = raw, stx_caller = sr_caller req,
        stx_block_height = sr_block_height req, stx_amount = sr_amount req, stx_destination = sr_destination req,
        stx_fee = sr_fee req, stx_timestamp = now\<rparr>"
    using journal_store [OF assms(2,3)] by blast
  then have "J x' = s'" by (simp add: now http_store_signed_tx_def store_request_for_def)
  moreover have "http_get_signed_tx A t s' = json_reply 200 [(''signed_tx'', json_of_signed (app_time A) y)]"
    by (simp add: http_get_signed_tx_def journal_lookup [OF assms(2) s'(2)] y)
  ultimately show ?thesis using s'(2) unfolding y Let_def by blast
qed

text \<open>
  C34. What was signed is kept.  When the storage service is the UTXO service and its journal
  works, a signing request either is not answered with status 200 and leaves the journal as it is,
  or it selected outputs, built a transaction over them, and the enclave signed that one: then it is
  answered with the signed transaction under the built one's id, the journal has exactly
  one record more, and \<^verbatim>\<open>GET /signed-tx\<close> of that id serves it with the request's caller, height,
  amount, destination and fee.
\<close>

theorem signed_transaction_kept:
  assumes "sign_transaction_handler E req (st, x) = (reply, st', x')"
    and "journal_service E A st J" and "sqlite_healthy (app_signed A)" and "journal (app_signed A) (J x) xs"
    and "in_i32 (sr_block_height req)" and "in_i64 (sr_amount req)" and "in_i64 (sr_fee req)"
  shows "J x' = J x \<and> (\<forall>j. reply \<noteq> Reply 200 j)
     \<or> (\<exists>us x1 tx change r x2 j raw n now.
          fetch_selected_utxos E st (sr_block_height req) (wrap_i64 (sr_amount req + sr_fee req)) x = (Ok us, x1)
        \<and> build_unsigned_transaction (api_lib E) us (sr_amount req) (sr_fee req) (sr_destination req) (st_network st) = Ok (tx, change)
        \<and> api_post E (st_enclave_url st @ ''/sign_transaction'') (Some (st_enclave_key st)) (enclave_request us req change) x1 = (Ok r, x2)
        \<and> is_success (rr_status r) \<and> rr_json r = Ok j \<and> req_field as_str ''signed_tx'' j = Some raw
        \<and> reply = json_reply 200 [(''signed_tx'', JStr raw), (''txid'', JStr (compute_txid (api_lib E) tx))]
        \<and> (let y = \<lparr>stx_id = n, stx_txid = compute_txid (api_lib E) tx, stx_signed_tx = raw, stx_caller = sr_caller req,
              stx_block_height = sr_block_height req, stx_amount = sr_amount req, stx_destination = sr_destination req,
              stx_fee = sr_fee req, stx_timestamp = now\<rparr>
           in journal (app_signed A) (J x') (xs @ [y])
            \<and> http_get_signed_tx A (compute_txid (api_lib E) tx) (J x')
                = json_reply 200 [(''signed_tx'', json_of_signed (app_time A) y)]))"
proof (cases "is_blank (st_enclave_key st)")
  case True
  then show ?thesis using assms(1) by (auto simp: sign_transaction_handler_def error_reply_def json_reply_def)
next
  case key: False
  obtain f x1 where f: "fetch_selected_utxos E st (sr_block_height req) (wrap_i64 (sr_amount req + sr_fee req)) x = (f, x1)"
    by fastforce
  have J1: "J x1 = J x" using fetch_loop_journal [OF assms(2)] f by (simp add: fetch_selected_utxos_def)
  show ?thesis
  proof (cases "\<exists>us tx change. f = Ok us \<and> build_unsigned_transaction (api_lib E) us (sr_amount req) (sr_fee req)
      (sr_destination req) (st_network st) = Ok (tx, change)")
    case False
    then have "x' = x1 \<and> (\<forall>j. reply \<noteq> Reply 200 j)"
      using assms(1) f key by (auto simp: sign_transaction_handler_def fetched_error_def error_reply_def json_reply_def
          fetch_selected_utxos_def dest: fetch_loop_status build_status split: outcome.splits)
    then show ?thesis using J1 by simp
  next
    case True
    then obtain us tx change where b: "f = Ok us" "build_unsigned_transaction (api_lib E) us (sr_amount req) (sr_fee req)
      (sr_destination req) (st_network st) = Ok (tx, change)" by blast
    obtain sign_resp x2 where p: "api_post E (st_enclave_url st @ ''/sign_transaction'') (Some (st_enclave_key st))
        (enclave_request us req change) x1 = (sign_resp, x2)" by fastforce
    have J2: "J x2 = J x"
      using assms(2) p J1 enclave_url_other unfolding journal_service_def by (metis snd_conv)
    have "finish_signing E st req (compute_txid (api_lib E) tx) sign_resp x2 = (reply, x')"
      using assms(1) f key b p by (simp add: sign_transaction_handler_def split: prod.splits)
    then show ?thesis
    proof (cases rule: finish_signing_cases)
      case (signed r j raw)
      show ?thesis
        using journalled [OF assms(2,3) _ assms(5-7) signed(6), of xs] assms(4) J2 f b p signed(1-5) by auto
    next
      case not_signed
      then show ?thesis using J2 by simp
    qed
  qed
qed

section \<open>An instance\<close>

definition selection_answer :: "(rpc_response, string) outcome" where
  "selection_answer = Ok \<lparr>rr_status = 200,
     rr_json = Ok (JObj [(''selected_utxos'', JArr [json_of_utxo plain_time (output_rec ''t1'' ''alice'' 50 1)])]), rr_text = Ok []\<rparr>"

definition enclave_answer :: "(rpc_response, string) outcome" where
  "enclave_answer = Ok \<lparr>rr_status = 200, rr_json = Ok (JObj [(''signed_tx'', JStr ''00'')]), rr_text = Ok []\<rparr>"

text \<open>The world is the journal; the enclave signs everything.\<close>

definition signing_api :: "(string, string, signed_db) api_env" where
  "signing_api =
     \<lparr>api_lib = small_lib, api_time = plain_time, visit = (\<lambda>W. filter (\<lambda>a. a \<in> W) [''alice'']),
      api_get = (\<lambda>url x. (selection_answer, x)),
      api_post = (\<lambda>url key body x. if url = ''http://utxos/signed-tx''
        then (Ok \<lparr>rr_status = 200, rr_json = Err ''unread'', rr_text = Ok []\<rparr>,
          case store_request_of_json body of None \<Rightarrow> x | Some rq \<Rightarrow> snd (http_store_signed_tx plain_app 7 rq x))
        else (enclave_answer, x)),
      sha256_hex = (\<lambda>s. s), utc_now = (\<lambda>x. 7), read_file = (\<lambda>f x. Err ''missing''), write_file = (\<lambda>f d x. (Ok (), x)),
      json_string = (\<lambda>j. []), json_parse = (\<lambda>t. Err ''syntax'')\<rparr>"

definition small_sign_request :: sign_request where
  "small_sign_request = \<lparr>sr_block_height = 1, sr_amount = 30, sr_destination = ''bob'', sr_fee = 5, sr_caller = ''0xab''\<rparr>"

theorem signed_transaction_kept_witness:
  "\<exists>t x' y. sign_transaction_handler signing_api small_sign_request (small_api_state, signed_empty)
       = (json_reply 200 [(''signed_tx'', JStr ''00''), (''txid'', JStr t)], small_api_state, x')
     \<and> http_get_signed_tx plain_app t x' = json_reply 200 [(''signed_tx'', json_of_signed plain_time y)]
     \<and> stx_signed_tx y = ''00'' \<and> stx_caller y = ''0xab'' \<and> stx_amount y = 30"
proof -
  have "fst (sign_transaction_handler signing_api small_sign_request (small_api_state, signed_empty))
      = json_reply 200 [(''signed_tx'', JStr ''00''), (''txid'', JStr ''t1-bobalice'')]"
    by code_simp
  then obtain st' x' where h: "sign_transaction_handler signing_api small_sign_request (small_api_state, signed_empty)
      = (json_reply 200 [(''signed_tx'', JStr ''00''), (''txid'', JStr ''t1-bobalice'')], st', x')" by (metis prod.collapse)
  have st': "st' = small_api_state" using sign_state [OF h] .
  have J: "journal_service signing_api plain_app small_api_state (\<lambda>x. x)"
    by (auto simp: journal_service_def signing_api_def small_api_state_def)
  have r: "in_i32 (sr_block_height small_sign_request)" "in_i64 (sr_amount small_sign_request)" "in_i64 (sr_fee small_sign_request)"
    by (simp_all add: small_sign_request_def in_i32_def in_i64_def)
  have H: "sqlite_healthy (app_signed plain_app)" "journal (app_signed plain_app) signed_empty []"
    using journal_empty [of plain_env] by simp_all
  from signed_transaction_kept [OF h J H r] show ?thesis
    using h st' by (auto simp: json_reply_def Let_def small_sign_request_def)
qed

end
