(* ===== verification/Spec2Isabelle.thy ===== *)
theory Spec2Isabelle
  imports System_Safety Storage_Http Storage_Main Indexer_Process Storage_Tasks Storage_Compare Api_Tasks Signed_Flow
begin

text \<open>
  A verification library for the UTXO tracing services.

  The program.  The indexer (\<^verbatim>\<open>src/indexer\<close>) follows a Bitcoin node block by block, extracts the
  outputs to and the spends from the addresses it watches, and sends one update per block over
  a Unix socket to the storage service (\<^verbatim>\<open>src/storage\<close>), with the messages and frames of the
  crate \<^verbatim>\<open>src/network-shared\<close>.  The storage service validates an update and writes it to SQLite
  or to CSV files, answers queries over HTTP, and rolls blocks back when the indexer reports a
  reorganisation.  The indexer also has an HTTP interface, through which addresses are put
  under watch and transactions are prepared, and signed by an enclave, over outputs it selects
  at the storage service.

  Conventions (\<^verbatim>\<open>Prelude\<close>).  A fallible function returns an \<open>outcome\<close>: \<open>Ok\<close>, \<open>Err\<close>, or \<open>Panic\<close>
  for the panics of the source; \<open>and_then\<close> is the question mark operator, \<open>then_do\<close> the same
  over an explicit state.  Signed integers are integers with the wrap-around of the release
  build written out (\<open>wrap_i32\<close>, \<open>wrap_i64\<close>, \<open>as_u64\<close>, \<dots>).  A Rust string is its list of bytes.
  A hash map is an association list with distinct keys, and the order in which a hash map or
  set is visited is a parameter.  What belongs to another crate (rusqlite's engine, bincode,
  serde_json's text form, chrono, \<^verbatim>\<open>bitcoin\<close>, \<^verbatim>\<open>lru\<close>, SHA-256, HTTP clients) is a field of a record of
  parameters, and what is relied on of it is a hypothesis of the theorem or a law of a locale.

  Shared crate.  \<^verbatim>\<open>Messages\<close>: \<open>utxo_rec\<close>, \<open>block_update\<close>, \<open>network_message\<close>, frames (\<open>frame\<close>,
  \<open>read_frame\<close>), and \<open>SocketTransport\<close> as \<open>send_update\<close>, \<open>send_reorg_event\<close>,
  \<open>transport_get_block_hash\<close> and \<open>send_update_finality_status\<close> over a wire, which is any function
  from the bytes written to the bytes read back.

  Storage service.
  \<^item> \<^verbatim>\<open>Storage_Types\<close> (\<^verbatim>\<open>error.rs\<close>, \<^verbatim>\<open>models\<close>, \<^verbatim>\<open>datasources/mod.rs\<close>): errors, rows, and the trait
    \<^verbatim>\<open>Datasource\<close> as a record \<open>datasource\<close> of operations on a state.
  \<^item> \<^verbatim>\<open>Ledger\<close>: the abstract store, a partial map from outpoint keys to records with the effect of
    a block and of a rollback.  A well-formed chain (\<open>wf_chain\<close>) creates fresh outputs and spends
    stored unspent ones, each at its own height; spends of outputs of the same block are outside
    it, and what the two stores do with them is shown separately.
  \<^item> \<^verbatim>\<open>Datasource\<close>: the locale \<open>datasource_contract\<close>: a view as a ledger, a view of the main chain,
    an invariant, and the laws of the operations while no fault occurs.
  \<^item> \<^verbatim>\<open>Sqlite_Store\<close>, \<^verbatim>\<open>Sqlite_Correct\<close> (\<^verbatim>\<open>datasources/sqlite.rs\<close>): the tables as lists of rows, each
    statement as a function on them, transactions that commit or leave no trace, faults of the
    pool and of every statement; the invariant of the schema, atomicity, and the interpretation
    \<open>sq\<close> of the contract.
  \<^item> \<^verbatim>\<open>Csv_Store\<close>, \<^verbatim>\<open>Csv_Correct\<close> (\<^verbatim>\<open>datasources/csv.rs\<close>): the nested maps, the loading of the files,
    every operation in any iteration order, and the interpretation \<open>cv\<close> of the contract.
  \<^item> \<^verbatim>\<open>Database\<close> (\<^verbatim>\<open>database.rs\<close>): validation, coin selection, finality, reorganisations, over any data
    source; its lemmas are proved once in the contract.
  \<^item> \<^verbatim>\<open>Storage_Socket\<close> (\<^verbatim>\<open>network/socket.rs\<close>): one connection from its bytes to its reply, and the
    states any traffic can reach (\<open>sqlite_service\<close>).  \<^verbatim>\<open>Storage_Main\<close> (\<^verbatim>\<open>main.rs\<close>): the choice and
    set-up of the data source, and the accept loop.
  \<^item> \<^verbatim>\<open>Storage_Tasks\<close> (\<^verbatim>\<open>network/socket.rs\<close>): the spawned connections as tasks (\<open>connection_task\<close>) over the
    one database, interleaved at their calls of the data source; run alone a task is the
    handler.  The locale \<open>call_invariant\<close> gives an invariant of every interleaving from one of
    the calls; it is interpreted for the schema and for the types.
  \<^item> \<^verbatim>\<open>Storage_Service\<close>, \<^verbatim>\<open>Storage_Safety\<close>: what the service promises over both stores, under faults
    and under arbitrary traffic.  \<^verbatim>\<open>Storage_Compare\<close>: the two stores side by side after the same
    blocks, on which queries they agree and how their lists of a block differ.
  \<^item> \<^verbatim>\<open>Signed_Db\<close> (\<^verbatim>\<open>signed_db.rs\<close>): the journal of signed transactions and its pages.
  \<^item> \<^verbatim>\<open>Json\<close>, \<^verbatim>\<open>Storage_Http\<close> (\<^verbatim>\<open>network/http.rs\<close>): JSON values with the encodings of the records, and
    every handler from its decoded request to status and body.

  Indexer.
  \<^item> \<^verbatim>\<open>Bitcoin_Types\<close>, \<^verbatim>\<open>Indexer_Types\<close> (\<^verbatim>\<open>error.rs\<close>, \<^verbatim>\<open>utils.rs\<close>): what is used of blocks, scripts and
    addresses, errors, script types.
  \<^item> \<^verbatim>\<open>Rpc_Client\<close> (\<^verbatim>\<open>indexer.rs\<close>): the two clients, with three attempts per call (\<open>attempts\<close>), and
    batched calls whose responses are matched to requests by their ids.
  \<^item> \<^verbatim>\<open>Indexer\<close>, \<^verbatim>\<open>Indexer_Correct\<close> (\<^verbatim>\<open>indexer.rs\<close>): from a block to its updates, in chunks of 500
    transactions, with the cache of transactions (locale \<open>tx_cache\<close>, interpreted by a bounded
    least-recently-used list) and the node as a source of transactions (locale \<open>tx_source\<close>,
    interpreted by the clients' calls).
  \<^item> \<^verbatim>\<open>Indexer_Sync\<close> (\<^verbatim>\<open>indexer.rs\<close>): new blocks, the check for reorganisations, the fork point, and
    \<open>run_cycles\<close>, the first \<open>k\<close> rounds of the endless loop.
  \<^item> \<^verbatim>\<open>System\<close>, \<^verbatim>\<open>System_Safety\<close>: the loop against the storage service at the other end of the socket.
  \<^item> \<^verbatim>\<open>Indexer_Api\<close>, \<^verbatim>\<open>Api_Correct\<close> (\<^verbatim>\<open>api.rs\<close>): the HTTP interface, the cache of prepared transactions
    and its file, the unsigned transaction, the exchange with the enclave.
  \<^item> \<^verbatim>\<open>Api_Tasks\<close> (\<^verbatim>\<open>api.rs\<close>): the requests as tasks (\<open>api_task\<close>), cut wherever the code waits for a lock,
    a service or the cache file; run alone a task is the handler.  The locale \<open>api_steps\<close> says
    what every request may do; it is interpreted for the growth of the interface and for the
    entries of the cache.
  \<^item> \<^verbatim>\<open>Signed_Flow\<close>: a signed transaction on its way from the interface through the enclave to the
    journal of the storage service and its HTTP interface.
  \<^item> \<^verbatim>\<open>Indexer_Main\<close> (\<^verbatim>\<open>main.rs\<close>): configuration, the check of the enclave's url, the initial states.
  \<^item> \<^verbatim>\<open>Indexer_Process\<close> (\<^verbatim>\<open>main.rs\<close>): the process of both halves, which share the set of watched
    addresses, next to the storage service that one writes to and the other asks.

  Concurrency.  \<^verbatim>\<open>Tasks\<close>: a task is a tree of calls on the shared state, \<open>step_task\<close> makes one call
  of one task, and a schedule is any list of task numbers.  The locale \<open>rely_guarantee\<close> holds
  the argument that what each call guarantees, every interleaving guarantees.

  What is shown.  (1) Indexing: the update of a block is exactly its watched outputs and
  spends, whatever client, batch size, cache content, chunking and visiting order.
  (2) Storage: on well-formed blocks both stores refine the ledger; rolling back up to six
  blocks restores it; later blocks do not change answers about a height; coin selection is
  sound, minimal and oldest-first; SQLite's schema and the integer ranges hold under every
  fault and every interleaving of connections, and writes are atomic.  (3) Together: the loop
  reaches the node's tip with the ledger of all its blocks, a fork of up to five blocks is
  detected and rolled back, and what is watched when the loop runs can be spent through the interface.
  (4) The interfaces: nothing changes without the key, preparations are idempotent, also once
  concurrent requests have been answered, and survive a restart, transactions balance, and
  what was signed is journalled and served.  (5) Where the code does not do what it means
  to, the theorem states what it does: a fork of six blocks or more leaves stale blocks in the
  store (the check runs only when the tip is above the last processed block, and looks at the
  six latest heights of the node), an indexer started at most four blocks below the tip falls
  back, rejected blocks are acknowledged, the list of a block has its spends only over SQLite, final blocks can be rolled back, a spend in its own block is lost in
  SQLite, a revert still at work erases the next block, a block is visible before its outputs,
  two equal preparations that both miss the cache are answered separately (\<open>prepare_race\<close>),
  selections never combine addresses, unfunded transactions are prepared.  \<open>defaults_meet\<close> below
  shows that the two programs' defaults fit together.

  Bounds and fuel.  The loops of the source are structural recursions over the data they
  visit, except \<open>run_cycles\<close>, which is given the number of rounds; as many as there are blocks
  to fetch are enough to reach the tip.  Numbers of blocks and sums of amounts are bounded by
  their types where a theorem needs it (\<open>in_i32\<close>, \<open>in_i64\<close>), and the wrap-around is part of the
  definitions.

  Not modelled.  Interleaving inside one cycle of the synchronisation loop and inside one
  query of the storage service over HTTP (each is one step; connections of the socket and
  requests of the indexer's interface are interleaved); sleeps, timeouts, logging and metrics;
  the SQL engine below its statements, and the surrogate keys and indexes no statement reads;
  the routing and the rejections of actix and warp (a request is what their extractors yield);
  serde's reading of a record from an array; the command line parser.
\<close>

section \<open>The two programs with their defaults\<close>

text \<open>
  Started without arguments or variables on a working system, the two services meet: the
  storage service runs over SQLite and listens where the indexer's configuration connects,
  both for the same network, and the batches of a cycle are not empty.
\<close>

lemma defaults_meet:
  assumes "cwd_fault os = None" "mkdir_fault os = None" "path_is_utf8 os" "pool_open_fault os = None"
    and "sqlite_healthy E" "migration_fault E = None" "sqlite_healthy ES" "migration_fault ES = None"
    and "\<And>v. env v = None"
  shows "\<exists>r config. storage_main os E ES None fu fb default_storage_args = Ok r \<and> run_source r = SqliteSource
     \<and> config_of default_indexer_args env = Ok config \<and> cf_socket_path config = run_socket r
     \<and> cf_network config = run_network r \<and> indexer_parse_network default_indexer_args = Ok (run_network r)
     \<and> 0 < cf_max_blocks_per_batch config \<and> 0 < cf_batch_size config"
proof -
  have low: "to_lowercase ''regtest'' = ''regtest''" "to_lowercase ''bitcoincore'' = ''bitcoincore''" by code_simp+
  obtain config where config: "config_of default_indexer_args env = Ok config" "cf_socket_path config = ''/tmp/network-utxos.sock''"
      "cf_network config = Regtest" "0 < cf_max_blocks_per_batch config" "0 < cf_batch_size config"
    using assms(9) by (simp add: config_of_def default_indexer_args_def env_or_def env_int_def network_named_def low)
  have net: "indexer_parse_network default_indexer_args = Ok Regtest"
    by (simp add: indexer_parse_network_def default_indexer_args_def network_named_def low)
  have pool: "open_pool os = Ok ()" using assms(1-4) by (simp add: open_pool_def)
  have "sqlite_setup E sqlite_empty = (Ok (), sqlite_empty)" "signed_new os ES = Ok ()"
    using assms(5-8) pool by (simp_all add: sqlite_setup_def signed_new_def run_migrations_def)
  then obtain r where r: "storage_main os E ES None fu fb default_storage_args = Ok r" "run_source r = SqliteSource"
      "run_socket r = ''/tmp/network-utxos.sock''" "run_network r = Regtest"
    using pool by (simp add: storage_main_def default_storage_args_def create_datasource_def sqlite_new_def
        storage_parse_network_def low)
  show ?thesis
    by (intro exI [of _ r] exI [of _ config]) (simp only: r config net simp_thms)
qed

end
